(* ===== verification/Prelude.thy ===== *)
theory Prelude
  imports Main "HOL-Library.Sublist" "HOL-Library.Char_ord" "HOL-Library.List_Lexorder"
begin

text \<open>
  Shared vocabulary of the development: absolute paths, the parts of Go's \<open>strings\<close>
  and \<open>path/filepath\<close> packages that picokube calls, the development's named collections of
  facts, and generic lemmas on lists and prefixes.

  A path is the list of its components: \<open>/var/lib/etcd\<close> is
  \<open>[''var'', ''lib'', ''etcd'']\<close> and the root is \<open>[]\<close>. Every path picokube uses is absolute
  and cleaned, so this is the value \<open>filepath.Clean\<close> gives. A Go string is a list of bytes,
  here \<open>string\<close>.
\<close>

section \<open>Collections of facts\<close>

named_theorems path_simps \<open>evaluation of path operations\<close>
named_theorems go_defs \<open>definitions of small helpers, unfolded by the component proofs\<close>

section \<open>Paths\<close>

type_synonym path = "string list"

text \<open>\<open>strings.Split(s, sep)\<close> for a separator of one byte: never the empty list.\<close>

fun split_on :: "char \<Rightarrow> string \<Rightarrow> string list" where
  "split_on c [] = [[]]"
| "split_on c (x # xs) =
     (if x = c then [] # split_on c xs
      else (case split_on c xs of
              [] \<Rightarrow> [[x]]
            | y # ys \<Rightarrow> (x # y) # ys))"

text \<open>
  \<open>filepath.Join(p, s)\<close> for an absolute cleaned \<open>p\<close>: the components of \<open>s\<close> are
  appended one by one, empty and dot components are dropped, and two dots go up one level (at
  the root they stay there).
\<close>

fun clean_onto :: "path \<Rightarrow> string list \<Rightarrow> path" where
  "clean_onto p [] = p"
| "clean_onto p (c # cs) =
     (if c = [] \<or> c = ''.'' then clean_onto p cs
      else if c = ''..'' then clean_onto (butlast p) cs
      else clean_onto (p @ [c]) cs)"

definition Join :: "path \<Rightarrow> string \<Rightarrow> path" where
  "Join p s = clean_onto p (split_on (CHR ''/'') s)"

definition abs_path :: "string \<Rightarrow> path" where
  "abs_path s = Join [] s"

text \<open>\<open>filepath.Dir\<close> of an absolute cleaned path.\<close>

definition Dir_of :: "path \<Rightarrow> path" where
  "Dir_of p = butlast p"

text \<open>\<open>p + s\<close> on the strings, for a suffix without a slash: it extends the last component.\<close>

definition path_suffix :: "path \<Rightarrow> string \<Rightarrow> path" where
  "path_suffix p s = (if p = [] then [s] else butlast p @ [last p @ s])"

definition path_text :: "path \<Rightarrow> string" where
  "path_text p = (if p = [] then ''/'' else concat (map (\<lambda>c. CHR ''/'' # c) p))"

text \<open>A string that is a single path component, so that joining it adds exactly itself.\<close>

definition simple_name :: "string \<Rightarrow> bool" where
  "simple_name s \<longleftrightarrow> CHR ''/'' \<notin> set s \<and> s \<noteq> [] \<and> s \<noteq> ''.'' \<and> s \<noteq> ''..''"

lemma split_on_no_sep: "c \<notin> set s \<Longrightarrow> split_on c s = [s]"
  by (induction s) auto

lemma split_on_nonempty [simp]: "split_on c s \<noteq> []"
  by (induction s) (auto split: list.splits)

lemma Join_simple [path_simps]: "simple_name s \<Longrightarrow> Join p s = p @ [s]"
  by (simp add: Join_def simple_name_def split_on_no_sep)

lemma path_suffix_snoc [path_simps]: "path_suffix (p @ [c]) s = p @ [c @ s]"
  by (simp add: path_suffix_def)

lemma Dir_of_snoc [path_simps]: "Dir_of (p @ [c]) = p"
  by (simp add: Dir_of_def)

lemma path_suffix_nonempty [simp]: "path_suffix p s \<noteq> []"
  by (simp add: path_suffix_def)

lemma Dir_of_path_suffix [path_simps]: "Dir_of (path_suffix p s) = Dir_of p"
  by (simp add: path_suffix_def Dir_of_def)

text \<open>Two paths neither of which lies under the other.\<close>

definition apart :: "path \<Rightarrow> path \<Rightarrow> bool" where
  "apart p q \<longleftrightarrow> \<not> prefix p q \<and> \<not> prefix q p"

lemma apart_sym: "apart p q \<Longrightarrow> apart q p"
  by (auto simp: apart_def)

lemma apart_irrefl [simp]: "\<not> apart p p"
  by (simp add: apart_def)

lemma apart_extend: "apart p q \<Longrightarrow> apart (p @ r) (q @ s)"
  unfolding apart_def using prefix_same_cases prefix_order.trans
  by (metis prefixI)

lemma apart_prefix: "apart p q \<Longrightarrow> prefix p p' \<Longrightarrow> prefix q q' \<Longrightarrow> apart p' q'"
  by (metis apart_extend prefixE)

lemma apart_not_prefix_append:
  "apart p q \<Longrightarrow> \<not> prefix p (q @ r)" "apart p q \<Longrightarrow> \<not> prefix q (p @ r)"
  using apart_extend [of p q "[]" r] apart_extend [of p q r "[]"] by (auto simp: apart_def)

lemma apart_siblings: "c \<noteq> d \<Longrightarrow> apart (p @ [c]) (p @ [d])"
  by (auto simp: apart_def)

lemma apart_suffix:
  assumes "p \<noteq> []" and "s \<noteq> []"
  shows "apart (path_suffix p s) p"
proof -
  have "p = butlast p @ [last p]" using assms(1) by simp
  then show ?thesis
    using apart_siblings [of "last p @ s" "last p" "butlast p"] assms
    by (simp add: path_suffix_def)
qed

lemma prefix_appendI: "prefix p q \<Longrightarrow> prefix p (q @ r)"
  by (auto simp: prefix_def)

lemma prefix_drop: "prefix p q \<Longrightarrow> p @ drop (length p) q = q"
  by (auto simp: prefix_def)

lemma not_prefix_butlast: "p \<noteq> [] \<Longrightarrow> \<not> prefix p (butlast p)"
  using prefix_length_le [of p "butlast p"] by (cases p) auto

section \<open>Go's strings package\<close>

definition HasPrefix :: "string \<Rightarrow> string \<Rightarrow> bool" where
  "HasPrefix s p \<longleftrightarrow> prefix p s"

definition HasSuffix :: "string \<Rightarrow> string \<Rightarrow> bool" where
  "HasSuffix s p \<longleftrightarrow> suffix p s"

text \<open>
  \<open>strings.Cut(s, sep)\<close> for a separator of one byte: what stands before and after its first
  occurrence, and whether there is one.
\<close>

fun Cut :: "string \<Rightarrow> char \<Rightarrow> string \<times> string \<times> bool" where
  "Cut [] c = ([], [], False)"
| "Cut (x # xs) c =
     (if x = c then ([], xs, True)
      else (case Cut xs c of (b, a, found) \<Rightarrow> (x # b, a, found)))"

lemma Cut_notin: "c \<notin> set s \<Longrightarrow> Cut s c = (s, [], False)"
  by (induction s) auto

lemma Cut_append: "c \<notin> set s \<Longrightarrow> Cut (s @ c # t) c = (s, t, True)"
  by (induction s) auto

lemma Cut_found: "snd (snd (Cut s c)) \<longleftrightarrow> c \<in> set s"
  by (induction s) (auto split: prod.splits)

lemma Cut_before: "c \<notin> set (fst (Cut s c))"
  by (induction s) (auto split: prod.splits)

lemma Cut_split: "c \<in> set s \<Longrightarrow> s = fst (Cut s c) @ c # fst (snd (Cut s c))"
  by (induction s) (auto split: prod.splits)

text \<open>
  \<open>strings.TrimSpace\<close> on ASCII white space (tab, newline, vertical tab, form feed, carriage
  return, blank).
\<close>

definition is_space :: "char \<Rightarrow> bool" where
  "is_space c \<longleftrightarrow> of_char c \<in> {9, 10, 11, 12, 13, 32 :: nat}"

definition TrimSpace :: "string \<Rightarrow> string" where
  "TrimSpace s = rev (dropWhile is_space (rev (dropWhile is_space s)))"

lemma TrimSpace_id:
  assumes "s \<noteq> []" and "\<not> is_space (hd s)" and "\<not> is_space (last s)"
  shows "TrimSpace s = s"
proof -
  from assms(1,2) have "dropWhile is_space s = s" by (cases s) auto
  moreover from assms(1,3) have "dropWhile is_space (rev s) = rev s"
    by (cases s rule: rev_cases) auto
  ultimately show ?thesis by (simp add: TrimSpace_def)
qed

text \<open>Decimal numerals, for \<open>\%d\<close> and for the numbers in temporary file names.\<close>

fun itoa :: "nat \<Rightarrow> string" where
  "itoa n = (if n < 10 then [char_of (48 + n)] else itoa (n div 10) @ [char_of (48 + n mod 10)])"

declare itoa.simps [simp del]

lemma itoa_no_slash: "CHR ''/'' \<notin> set (itoa n)"
proof (induction n rule: itoa.induct)
  case (1 n)
  have d: "char_of (48 + k) \<noteq> CHR ''/''" if "k < 10" for k :: nat
  proof
    assume "char_of (48 + k) = CHR ''/''"
    then have "of_char (char_of (48 + k) :: char) = (of_char (CHR ''/'') :: nat)" by simp
    with that show False by simp
  qed
  show ?case
  proof (cases "n < 10")
    case True
    then show ?thesis using d [of n] by (subst itoa.simps) (auto simp del: of_nat_add)
  next
    case False
    with 1 show ?thesis using d [of "n mod 10"]
      by (subst itoa.simps) (auto simp del: of_nat_add)
  qed
qed

section \<open>Lists\<close>

lemma map_of_filter_key:
  "map_of (filter (\<lambda>e. P (fst e)) xs) k = (if P k then map_of xs k else None)"
  by (induction xs) auto

end
