(* ===== verification/Fs.thy ===== *)
theory Fs
  imports Prelude
begin

text \<open>
  The file system as a value: a finite table from paths to nodes with a modification time. It is
  the part of the operating system that Go's \<open>os\<close> package reads and writes; \<open>Go_Os\<close> turns
  the functions of this theory into system calls that may fail.

  Not modelled: symbolic and hard links, ownership, several mounted file systems (a rename across
  them is a fault the caller may see).
\<close>

section \<open>Nodes and tables\<close>

datatype node = File (fmode: nat) (fdata: string) | Dir (dmode: nat)

type_synonym fsys = "(path \<times> node \<times> int) list"

definition look :: "fsys \<Rightarrow> path \<Rightarrow> node option" where
  "look fs p = map_option fst (map_of fs p)"

definition mtime :: "fsys \<Rightarrow> path \<Rightarrow> int option" where
  "mtime fs p = map_option snd (map_of fs p)"

text \<open>The tree at a path, as a function of the path relative to it.\<close>

definition sub :: "fsys \<Rightarrow> path \<Rightarrow> path \<Rightarrow> node option" where
  "sub fs p = (\<lambda>q. look fs (p @ q))"

definition no_tree :: "path \<Rightarrow> node option" where
  "no_tree = (\<lambda>_. None)"

definition file_tree :: "nat \<Rightarrow> string \<Rightarrow> path \<Rightarrow> node option" where
  "file_tree m b = (\<lambda>q. if q = [] then Some (File m b) else None)"

definition is_dir :: "fsys \<Rightarrow> path \<Rightarrow> bool" where
  "is_dir fs p \<longleftrightarrow> (case look fs p of Some (Dir _) \<Rightarrow> True | _ \<Rightarrow> False)"

definition is_file :: "fsys \<Rightarrow> path \<Rightarrow> bool" where
  "is_file fs p \<longleftrightarrow> (case look fs p of Some (File _ _) \<Rightarrow> True | _ \<Rightarrow> False)"

text \<open>The names in a directory, sorted by byte order as \<open>os.ReadDir\<close> returns them.\<close>

definition children :: "fsys \<Rightarrow> path \<Rightarrow> string list" where
  "children fs p =
     sort (remdups (map last (filter (\<lambda>q. q \<noteq> [] \<and> butlast q = p) (map fst fs))))"

text \<open>
  Every path at or below a path, in lexical order, which is the order of \<open>filepath.Walk\<close>:
  a directory before what it holds, siblings by name.
\<close>

definition paths_under :: "fsys \<Rightarrow> path \<Rightarrow> path list" where
  "paths_under fs p = sort (remdups (filter (prefix p) (map fst fs)))"

section \<open>Updates\<close>

definition put :: "path \<Rightarrow> node \<Rightarrow> int \<Rightarrow> fsys \<Rightarrow> fsys" where
  "put p n t fs = (p, n, t) # filter (\<lambda>e. fst e \<noteq> p) fs"

definition touch :: "path \<Rightarrow> int \<Rightarrow> fsys \<Rightarrow> fsys" where
  "touch p t fs = map (\<lambda>(q, n, s). (q, n, if q = p then t else s)) fs"

definition remove_at :: "path \<Rightarrow> fsys \<Rightarrow> fsys" where
  "remove_at p fs = filter (\<lambda>e. fst e \<noteq> p) fs"

text \<open>
  \<open>rename\<close> of a tree: what is at or below \<open>src\<close> moves, what was at or below \<open>dst\<close>
  is gone. \<open>exchange\<close> is the kernel's \<open>RENAME_EXCHANGE\<close>.
\<close>

definition rebase :: "path \<Rightarrow> path \<Rightarrow> path \<Rightarrow> path" where
  "rebase src dst q = dst @ drop (length src) q"

definition rename_tree :: "path \<Rightarrow> path \<Rightarrow> fsys \<Rightarrow> fsys" where
  "rename_tree src dst fs =
     map (\<lambda>e. (rebase src dst (fst e), snd e)) (filter (\<lambda>e. prefix src (fst e)) fs) @
     filter (\<lambda>e. \<not> prefix src (fst e) \<and> \<not> prefix dst (fst e)) fs"

definition exchange_path :: "path \<Rightarrow> path \<Rightarrow> path \<Rightarrow> path" where
  "exchange_path a b q =
     (if prefix a q then rebase a b q else if prefix b q then rebase b a q else q)"

definition exchange_trees :: "path \<Rightarrow> path \<Rightarrow> fsys \<Rightarrow> fsys" where
  "exchange_trees a b fs = map (\<lambda>e. (exchange_path a b (fst e), snd e)) fs"

section \<open>Lookup after update\<close>

lemma look_put [simp]: "look (put p n t fs) q = (if q = p then Some n else look fs q)"
  by (simp add: look_def put_def map_of_filter_key [where P = "\<lambda>k. k \<noteq> p"])

lemma mtime_put [simp]: "mtime (put p n t fs) q = (if q = p then Some t else mtime fs q)"
  by (simp add: mtime_def put_def map_of_filter_key [where P = "\<lambda>k. k \<noteq> p"])

lemma map_of_touch:
  "map_of (touch p t fs) q = map_option (\<lambda>(n, s). (n, if q = p then t else s)) (map_of fs q)"
  by (induction fs) (auto simp: touch_def)

lemma look_touch [simp]: "look (touch p t fs) q = look fs q"
  by (simp add: look_def map_of_touch option.map_comp comp_def split_beta)

lemma mtime_touch [simp]:
  "mtime (touch p t fs) q = (if q = p then map_option (\<lambda>_. t) (mtime fs q) else mtime fs q)"
  by (simp add: mtime_def map_of_touch option.map_comp comp_def split_beta)

lemma look_remove_at [simp]:
  "look (remove_at p fs) q = (if q = p then None else look fs q)"
  by (simp add: look_def remove_at_def map_of_filter_key [where P = "\<lambda>k. k \<noteq> p"])

lemma mtime_remove_at [simp]:
  "mtime (remove_at p fs) q = (if q = p then None else mtime fs q)"
  by (simp add: mtime_def remove_at_def map_of_filter_key [where P = "\<lambda>k. k \<noteq> p"])

lemma sub_append: "sub fs p q = look fs (p @ q)"
  by (simp add: sub_def)

lemma sub_eq_iff: "sub fs p = sub fs' p' \<longleftrightarrow> (\<forall>q. look fs (p @ q) = look fs' (p' @ q))"
  by (simp add: sub_def fun_eq_iff)

lemma map_of_rebase_inside:
  "prefix dst q \<Longrightarrow>
   map_of (map (\<lambda>e. (rebase src dst (fst e), snd e)) (filter (\<lambda>e. prefix src (fst e)) fs)) q =
   map_of fs (rebase dst src q)"
proof (induction fs)
  case Nil
  then show ?case by simp
next
  case (Cons e fs)
  have "rebase src dst (fst e) = q \<longleftrightarrow> fst e = rebase dst src q" if "prefix src (fst e)"
    using that Cons.prems by (auto simp: rebase_def prefix_def)
  moreover have "prefix src (rebase dst src q)" by (simp add: rebase_def)
  ultimately show ?case using Cons by auto
qed

lemma map_of_rebase_outside:
  "\<not> prefix dst q \<Longrightarrow>
   map_of (map (\<lambda>e. (rebase src dst (fst e), snd e)) fs) q = None"
  by (induction fs) (auto simp: rebase_def)

lemma map_of_rename_tree:
  assumes "\<not> prefix src dst"
  shows "map_of (rename_tree src dst fs) q =
    (if prefix dst q then map_of fs (rebase dst src q)
     else if prefix src q then None else map_of fs q)"
proof (cases "prefix dst q")
  case True
  have "map_of (filter (\<lambda>e. \<not> prefix src (fst e) \<and> \<not> prefix dst (fst e)) fs) q = None"
    using True map_of_filter_key [of "\<lambda>k. \<not> prefix src k \<and> \<not> prefix dst k" fs q] by simp
  then show ?thesis
    using True by (simp add: rename_tree_def map_add_def map_of_rebase_inside split: option.split)
next
  case False
  then show ?thesis
    using map_of_filter_key [of "\<lambda>k. \<not> prefix src k \<and> \<not> prefix dst k" fs q]
    by (simp add: rename_tree_def map_add_def map_of_rebase_outside split: option.split)
qed

lemma look_rename_tree:
  "\<not> prefix src dst \<Longrightarrow> look (rename_tree src dst fs) q =
    (if prefix dst q then look fs (rebase dst src q)
     else if prefix src q then None else look fs q)"
  by (simp add: look_def map_of_rename_tree)

lemma mtime_rename_tree:
  "\<not> prefix src dst \<Longrightarrow> mtime (rename_tree src dst fs) q =
    (if prefix dst q then mtime fs (rebase dst src q)
     else if prefix src q then None else mtime fs q)"
  by (simp add: mtime_def map_of_rename_tree)

lemma sub_rename_tree_dst: "\<not> prefix src dst \<Longrightarrow> sub (rename_tree src dst fs) dst = sub fs src"
  by (simp add: sub_def look_rename_tree rebase_def)

lemma sub_rename_tree_src:
  "apart src dst \<Longrightarrow> sub (rename_tree src dst fs) src = no_tree"
  by (simp add: sub_def no_tree_def look_rename_tree apart_def fun_eq_iff
      apart_not_prefix_append [unfolded apart_def])

lemma exchange_path_eq:
  assumes "apart a b"
  shows "exchange_path a b p = q \<longleftrightarrow> p = exchange_path a b q"
proof -
  have inv: "exchange_path a b (exchange_path a b r) = r" for r
    using assms apart_not_prefix_append [OF assms]
    by (auto simp: exchange_path_def rebase_def prefix_drop)
  then show ?thesis by metis
qed

lemma map_of_exchange_trees:
  "apart a b \<Longrightarrow> map_of (exchange_trees a b fs) q = map_of fs (exchange_path a b q)"
  by (induction fs) (auto simp: exchange_trees_def exchange_path_eq)

lemma look_exchange_trees:
  "apart a b \<Longrightarrow> look (exchange_trees a b fs) q = look fs (exchange_path a b q)"
  by (simp add: look_def map_of_exchange_trees)

lemma sub_exchange_trees:
  assumes "apart a b"
  shows "sub (exchange_trees a b fs) a = sub fs b" "sub (exchange_trees a b fs) b = sub fs a"
  using assms apart_not_prefix_append [OF assms]
  by (simp_all add: sub_def look_exchange_trees exchange_path_def rebase_def)

lemma look_exchange_trees_outside:
  "apart a b \<Longrightarrow> \<not> prefix a q \<Longrightarrow> \<not> prefix b q \<Longrightarrow> look (exchange_trees a b fs) q = look fs q"
  by (simp add: look_exchange_trees exchange_path_def)

section \<open>Enumeration\<close>

lemma look_None_iff: "look fs p = None \<longleftrightarrow> p \<notin> fst ` set fs"
  by (simp add: look_def map_of_eq_None_iff)

lemma look_Some_iff: "(\<exists>n. look fs p = Some n) \<longleftrightarrow> p \<in> fst ` set fs"
  using look_None_iff [of fs p] by auto

lemma in_children: "c \<in> set (children fs p) \<longleftrightarrow> look fs (p @ [c]) \<noteq> None"
proof -
  have "c \<in> set (children fs p) \<longleftrightarrow> (\<exists>q \<in> fst ` set fs. q \<noteq> [] \<and> butlast q = p \<and> last q = c)"
    by (auto simp: children_def image_iff)
  also have "\<dots> \<longleftrightarrow> p @ [c] \<in> fst ` set fs"
    by (metis append_butlast_last_id butlast_snoc last_snoc snoc_eq_iff_butlast)
  finally show ?thesis by (simp add: look_None_iff)
qed

lemma distinct_children [simp]: "distinct (children fs p)"
  by (simp add: children_def)

lemma in_paths_under: "q \<in> set (paths_under fs p) \<longleftrightarrow> prefix p q \<and> look fs q \<noteq> None"
  by (auto simp: paths_under_def look_None_iff image_iff)

lemma distinct_paths_under [simp]: "distinct (paths_under fs p)"
  by (simp add: paths_under_def)

lemma paths_under_empty: "paths_under fs p = [] \<longleftrightarrow> sub fs p = no_tree"
proof -
  have "paths_under fs p = [] \<longleftrightarrow> (\<forall>q. q \<notin> set (paths_under fs p))" by (cases "paths_under fs p") auto
  also have "\<dots> \<longleftrightarrow> (\<forall>q. prefix p q \<longrightarrow> look fs q = None)" by (auto simp: in_paths_under)
  also have "\<dots> \<longleftrightarrow> sub fs p = no_tree"
    by (auto simp: sub_def no_tree_def fun_eq_iff prefix_def)
  finally show ?thesis .
qed

section \<open>Footprints\<close>

text \<open>
  The paths at or below, and at or above, a path; and that two file systems have the same nodes on
  a set of paths. What a computation may change is stated as the complement.
\<close>

definition below :: "path \<Rightarrow> path set" where
  "below p = {q. prefix p q}"

definition above :: "path \<Rightarrow> path set" where
  "above p = {q. prefix q p}"

definition same_on :: "path set \<Rightarrow> fsys \<Rightarrow> fsys \<Rightarrow> bool" where
  "same_on Z fs fs' \<longleftrightarrow> (\<forall>q\<in>Z. look fs' q = look fs q)"

lemma in_below [simp]: "q \<in> below p \<longleftrightarrow> prefix p q"
  by (simp add: below_def)

lemma in_above [simp]: "q \<in> above p \<longleftrightarrow> prefix q p"
  by (simp add: above_def)

lemma same_on_refl [simp]: "same_on Z fs fs"
  by (simp add: same_on_def)

lemma same_on_trans: "same_on Z fs fs' \<Longrightarrow> same_on Z fs' fs'' \<Longrightarrow> same_on Z fs fs''"
  by (simp add: same_on_def)

lemma same_on_mono: "same_on Z fs fs' \<Longrightarrow> Y \<subseteq> Z \<Longrightarrow> same_on Y fs fs'"
  by (auto simp: same_on_def)

lemma same_on_look: "same_on Z fs fs' \<Longrightarrow> q \<in> Z \<Longrightarrow> look fs' q = look fs q"
  by (simp add: same_on_def)

lemma same_on_sub: "same_on Z fs fs' \<Longrightarrow> below p \<subseteq> Z \<Longrightarrow> sub fs' p = sub fs p"
  by (auto simp: same_on_def sub_def fun_eq_iff subset_iff)

lemma same_on_below_iff: "same_on (below p) fs fs' \<longleftrightarrow> sub fs' p = sub fs p"
  by (auto simp: same_on_def sub_def fun_eq_iff prefix_def)

lemma below_apart: "apart p q \<longleftrightarrow> below p \<inter> below q = {}"
proof
  assume "apart p q"
  then show "below p \<inter> below q = {}"
    by (auto simp: apart_def dest: prefix_same_cases)
next
  assume "below p \<inter> below q = {}"
  then show "apart p q"
    by (auto simp: apart_def disjoint_iff)
qed

lemma below_subset_Compl: "apart p q \<Longrightarrow> below q \<subseteq> - below p"
  by (auto simp: below_apart)

lemma below_mono: "prefix p q \<Longrightarrow> below q \<subseteq> below p"
  by auto

lemma look_sub_root: "look fs p = sub fs p []"
  by (simp add: sub_def)

lemma look_below: "prefix p q \<Longrightarrow> look fs q = sub fs p (drop (length p) q)"
  by (simp add: sub_def prefix_drop)

section \<open>Well-formed file systems\<close>

text \<open>
  The root is a directory and so is the parent of every entry. Every system call keeps this
  (\<open>Go_Os\<close>).
\<close>

definition wf_fs :: "fsys \<Rightarrow> bool" where
  "wf_fs fs \<longleftrightarrow> is_dir fs [] \<and> (\<forall>q c. look fs (q @ [c]) \<noteq> None \<longrightarrow> is_dir fs q)"

lemma wf_fs_code [code]:
  "wf_fs fs \<longleftrightarrow> is_dir fs [] \<and> list_all (\<lambda>e. fst e = [] \<or> is_dir fs (butlast (fst e))) fs"
proof -
  have "(\<forall>q c. look fs (q @ [c]) \<noteq> None \<longrightarrow> is_dir fs q) \<longleftrightarrow>
        (\<forall>p. p \<noteq> [] \<longrightarrow> look fs p \<noteq> None \<longrightarrow> is_dir fs (butlast p))"
    by (metis append_butlast_last_id butlast_snoc snoc_eq_iff_butlast)
  also have "\<dots> \<longleftrightarrow> list_all (\<lambda>e. fst e = [] \<or> is_dir fs (butlast (fst e))) fs"
    unfolding look_None_iff list_all_iff by blast
  finally show ?thesis by (simp add: wf_fs_def)
qed

lemma is_dir_look: "is_dir fs p \<longleftrightarrow> (\<exists>m. look fs p = Some (Dir m))"
  by (auto simp: is_dir_def split: option.splits node.splits)

lemma is_file_look: "is_file fs p \<longleftrightarrow> (\<exists>m b. look fs p = Some (File m b))"
  by (auto simp: is_file_def split: option.splits node.splits)

lemma wf_fs_prefix_dir:
  assumes "wf_fs fs" and "look fs p \<noteq> None" and "strict_prefix q p"
  shows "is_dir fs q"
  using assms(2,3)
proof (induction p rule: rev_induct)
  case Nil
  then show ?case by simp
next
  case (snoc c p)
  then have dir: "is_dir fs p" using assms(1) unfolding wf_fs_def by blast
  from snoc.prems(2) have "q = p \<or> strict_prefix q p"
    by (auto simp: strict_prefix_def)
  then show ?case
    using dir snoc.IH by (auto simp: is_dir_look)
qed

lemma wf_fs_absent_below:
  assumes "wf_fs fs" and "look fs p = None" and "prefix p q"
  shows "look fs q = None"
proof (rule ccontr)
  assume "look fs q \<noteq> None"
  moreover from this assms(2,3) have "strict_prefix p q" by (auto simp: strict_prefix_def)
  ultimately have "is_dir fs p" using assms(1) wf_fs_prefix_dir by blast
  with assms(2) show False by (simp add: is_dir_look)
qed

lemma wf_fs_absent_tree: "wf_fs fs \<Longrightarrow> look fs p = None \<Longrightarrow> sub fs p = no_tree"
  by (auto simp: sub_def no_tree_def fun_eq_iff wf_fs_absent_below)

lemma wf_fs_file_tree:
  assumes "wf_fs fs" and "look fs p = Some (File m b)"
  shows "sub fs p = file_tree m b"
proof
  fix q
  show "sub fs p q = file_tree m b q"
  proof (cases "q = []")
    case True
    then show ?thesis using assms by (simp add: sub_def file_tree_def)
  next
    case False
    have "look fs (p @ q) = None"
    proof (rule ccontr)
      assume "look fs (p @ q) \<noteq> None"
      moreover have "strict_prefix p (p @ q)" using False by (simp add: strict_prefix_def)
      ultimately have "is_dir fs p" using assms(1) wf_fs_prefix_dir by blast
      with assms(2) show False by (simp add: is_dir_look)
    qed
    then show ?thesis using False by (simp add: sub_def file_tree_def)
  qed
qed

end
