(* ===== verification/Go_Io.thy ===== *)
theory Go_Io
  imports Fs
begin

text \<open>
  Effects. picokube is imperative Go code over a file system, external commands and an API
  server; its functions return an error as a value and run deferred clean-up on the way out. This
  theory gives the state the code acts on (\<open>world\<close>), the type of an effectful computation
  (\<open>io\<close>), the control operators of the source (\<open>if err != nil \{ return ... \}\<close>, \<open>\%w\<close>
  wrapping, \<open>defer\<close>, \<open>for\<close> with an early return) and a weakest-precondition calculus over
  them.

  Nothing the environment decides is fixed: an \<open>ambient\<close> says for the \<open>i\<close>-th system call
  whether it runs, fails with a fault, or whether the power is lost at that moment; how long it
  takes; which number a temporary file gets; and when a termination signal arrives. A theorem
  about every world is a theorem about every such environment. After a power loss nothing runs
  any more, deferred clean-up included, and the state is what was on disk: the third
  postcondition of \<open>wp\<close> is therefore a statement about every intermediate state.
\<close>

section \<open>Errors\<close>

text \<open>Faults the environment may inject into any call; none of them says that a file is missing.\<close>

datatype fault = EACCES | EPERM | EROFS | EIO | ENOSPC | EBUSY | EXDEV | EMFILE

datatype errno = ENOENT | EEXIST | ENOTDIR | EISDIR | ENOTEMPTY | EINVAL | Fault fault

fun errno_text :: "errno \<Rightarrow> string" where
  "errno_text ENOENT = ''no such file or directory''"
| "errno_text EEXIST = ''file exists''"
| "errno_text ENOTDIR = ''not a directory''"
| "errno_text EISDIR = ''is a directory''"
| "errno_text ENOTEMPTY = ''directory not empty''"
| "errno_text EINVAL = ''invalid argument''"
| "errno_text (Fault EACCES) = ''permission denied''"
| "errno_text (Fault EPERM) = ''operation not permitted''"
| "errno_text (Fault EROFS) = ''read-only file system''"
| "errno_text (Fault EIO) = ''input/output error''"
| "errno_text (Fault ENOSPC) = ''no space left on device''"
| "errno_text (Fault EBUSY) = ''device or resource busy''"
| "errno_text (Fault EXDEV) = ''invalid cross-device link''"
| "errno_text (Fault EMFILE) = ''too many open files''"

text \<open>
  Go error values: \<open>*fs.PathError\<close>, \<open>*os.LinkError\<close>, the two context errors, a bare
  \<open>syscall.Errno\<close>, \<open>errors.New\<close> or an \<open>Errorf\<close> without \<open>\%w\<close>, an \<open>Errorf\<close> that wraps its last
  operand, one that goes on after it, and \<open>errors.Join\<close>.
\<close>

datatype gerr =
    PathError string path errno
  | LinkError string path path errno
  | SysErr errno
  | Canceled
  | DeadlineExceeded
  | Msg string
  | Wrapf string gerr
  | Suffixed gerr string
  | Joined "gerr list"

fun join_lines :: "string list \<Rightarrow> string" where
  "join_lines [] = []"
| "join_lines [s] = s"
| "join_lines (s # t # ts) = s @ [CHR 0x0A] @ join_lines (t # ts)"

fun Error :: "gerr \<Rightarrow> string" where
  "Error (PathError op p e) = op @ '' '' @ path_text p @ '': '' @ errno_text e"
| "Error (LinkError op a b e) =
     op @ '' '' @ path_text a @ '' '' @ path_text b @ '': '' @ errno_text e"
| "Error (SysErr e) = errno_text e"
| "Error Canceled = ''context canceled''"
| "Error DeadlineExceeded = ''context deadline exceeded''"
| "Error (Msg s) = s"
| "Error (Wrapf s e) = s @ '': '' @ Error e"
| "Error (Suffixed e s) = Error e @ s"
| "Error (Joined es) = join_lines (map Error es)"

text \<open>
  \<open>errors.Is(err, os.ErrNotExist)\<close> looks through wrapping; the older \<open>os.IsNotExist\<close> does not.
\<close>

fun ErrNotExist :: "gerr \<Rightarrow> bool" where
  "ErrNotExist (PathError _ _ e) = (e = ENOENT)"
| "ErrNotExist (LinkError _ _ _ e) = (e = ENOENT)"
| "ErrNotExist (SysErr e) = (e = ENOENT)"
| "ErrNotExist (Wrapf _ e) = ErrNotExist e"
| "ErrNotExist (Suffixed e _) = ErrNotExist e"
| "ErrNotExist (Joined es) = list_ex ErrNotExist es"
| "ErrNotExist _ = False"

fun IsNotExist :: "gerr \<Rightarrow> bool" where
  "IsNotExist (PathError _ _ e) = (e = ENOENT)"
| "IsNotExist (LinkError _ _ _ e) = (e = ENOENT)"
| "IsNotExist (SysErr e) = (e = ENOENT)"
| "IsNotExist _ = False"

section \<open>The world\<close>

datatype fate = Go | Fail fault | PowerLoss

text \<open>
  \<open>o_fate\<close>, \<open>o_lat\<close> and \<open>o_rnd\<close> are indexed by the number of calls made so far; \<open>o_lat\<close>
  is in nanoseconds. \<open>o_sig\<close> is the call from which on the process has been told to terminate.
\<close>

record ambient =
  o_fate :: "nat \<Rightarrow> fate"
  o_lat :: "nat \<Rightarrow> nat"
  o_rnd :: "nat \<Rightarrow> nat"
  o_sig :: "nat option"

text \<open>
  \<open>w_env\<close> is the state of everything that is not under the repository (systemd, the API
  server, kubeadm's own state), of a type the model does not fix. \<open>w_out\<close> is the log.
\<close>

record 'e world =
  w_fs :: fsys
  w_now :: int
  w_tick :: nat
  w_orc :: ambient
  w_out :: "string list"
  w_env :: 'e

datatype 'a outcome = Ok 'a | Err gerr | Crash

type_synonym ('e, 'a) io = "'e world \<Rightarrow> 'a outcome \<times> 'e world"

section \<open>Control\<close>

definition ret :: "'a \<Rightarrow> ('e, 'a) io" where
  "ret x w = (Ok x, w)"

definition throw :: "gerr \<Rightarrow> ('e, 'a) io" where
  "throw e w = (Err e, w)"

text \<open>\<open>x, err := m; if err != nil \{ return err \}; ...\<close>\<close>

definition bind :: "('e, 'a) io \<Rightarrow> ('a \<Rightarrow> ('e, 'b) io) \<Rightarrow> ('e, 'b) io" where
  "bind m f w = (case m w of
     (Ok x, w') \<Rightarrow> f x w'
   | (Err e, w') \<Rightarrow> (Err e, w')
   | (Crash, w') \<Rightarrow> (Crash, w'))"

definition seq :: "('e, 'a) io \<Rightarrow> ('e, 'b) io \<Rightarrow> ('e, 'b) io" where
  "seq m k = bind m (\<lambda>_. k)"

text \<open>\<open>x, err := m\<close>, with the error kept as a value.\<close>

definition attempt :: "('e, 'a) io \<Rightarrow> ('e, gerr + 'a) io" where
  "attempt m w = (case m w of
     (Ok x, w') \<Rightarrow> (Ok (Inr x), w')
   | (Err e, w') \<Rightarrow> (Ok (Inl e), w')
   | (Crash, w') \<Rightarrow> (Crash, w'))"

text \<open>\<open>if err := m; err != nil \{ h(err) \}\<close>, and \<open>_ = m\<close>.\<close>

definition on_err :: "('e, 'a) io \<Rightarrow> (gerr \<Rightarrow> ('e, 'a) io) \<Rightarrow> ('e, 'a) io" where
  "on_err m h w = (case m w of
     (Ok x, w') \<Rightarrow> (Ok x, w')
   | (Err e, w') \<Rightarrow> h e w'
   | (Crash, w') \<Rightarrow> (Crash, w'))"

definition ignore :: "('e, 'a) io \<Rightarrow> ('e, unit) io" where
  "ignore m = bind (attempt m) (\<lambda>_. ret ())"

text \<open>\<open>fmt.Errorf("s: \%w", err)\<close>\<close>

definition wrapf :: "string \<Rightarrow> ('e, 'a) io \<Rightarrow> ('e, 'a) io" where
  "wrapf s m = on_err m (\<lambda>e. throw (Wrapf s e))"

text \<open>
  \<open>defer c()\<close> around a body: the clean-up runs on a normal and on an error return and does not
  change what is returned. It does not run after a power loss.
\<close>

definition deferred :: "('e, unit) io \<Rightarrow> ('e, 'a) io \<Rightarrow> ('e, 'a) io" where
  "deferred c m = bind (attempt m) (\<lambda>r. seq (ignore c) (case r of Inl e \<Rightarrow> throw e | Inr x \<Rightarrow> ret x))"

text \<open>\<open>for _, x := range xs \{ if err := f(x); err != nil \{ return err \} \}\<close>\<close>

fun each :: "'a list \<Rightarrow> ('a \<Rightarrow> ('e, unit) io) \<Rightarrow> ('e, unit) io" where
  "each [] f = ret ()"
| "each (x # xs) f = seq (f x) (each xs f)"

definition logf :: "string \<Rightarrow> ('e, unit) io" where
  "logf s w = (Ok (), w\<lparr>w_out := w_out w @ [s]\<rparr>)"

section \<open>System calls\<close>

definition adv :: "'e world \<Rightarrow> 'e world" where
  "adv w = w\<lparr>w_tick := Suc (w_tick w),
             w_now := w_now w + int (o_lat (w_orc w) (w_tick w))\<rparr>"

text \<open>
  One atomic step on the file system: it looks at the file system and the time and gives an error
  number or a result with the new file system. \<open>mk\<close> builds the Go error.
\<close>

definition syscall ::
    "(errno \<Rightarrow> gerr) \<Rightarrow> (fsys \<Rightarrow> int \<Rightarrow> errno + 'a \<times> fsys) \<Rightarrow> ('e, 'a) io" where
  "syscall mk f w = (case o_fate (w_orc w) (w_tick w) of
     PowerLoss \<Rightarrow> (Crash, w)
   | Fail e \<Rightarrow> (Err (mk (Fault e)), adv w)
   | Go \<Rightarrow> (case f (w_fs w) (w_now (adv w)) of
         Inl e \<Rightarrow> (Err (mk e), adv w)
       | Inr (x, fs) \<Rightarrow> (Ok x, (adv w)\<lparr>w_fs := fs\<rparr>)))"

text \<open>\<open>time.Now()\<close> and a sleep of \<open>d\<close> nanoseconds; a sleep is interrupted by a power loss only.\<close>

definition time_Now :: "('e, int) io" where
  "time_Now w = (Ok (w_now w), w)"

definition sleep :: "nat \<Rightarrow> ('e, unit) io" where
  "sleep d w = (case o_fate (w_orc w) (w_tick w) of
     PowerLoss \<Rightarrow> (Crash, w)
   | _ \<Rightarrow> (Ok (), (adv w)\<lparr>w_now := w_now (adv w) + int d\<rparr>))"

text \<open>
  \<open>context.Context\<close>: a deadline, beside the cancellation the process-wide signal handler
  causes. \<open>ctx_Err\<close> is the value of \<open>ctx.Err()\<close> now.
\<close>

datatype ctx = Ctx (ctx_deadline: "int option")

definition Background :: ctx where
  "Background = Ctx None"

definition WithTimeout :: "ctx \<Rightarrow> int \<Rightarrow> int \<Rightarrow> ctx" where
  "WithTimeout c d now = Ctx (Some (case ctx_deadline c of
     None \<Rightarrow> now + d | Some t \<Rightarrow> min t (now + d)))"

definition ctx_Err :: "ctx \<Rightarrow> 'e world \<Rightarrow> gerr option" where
  "ctx_Err c w =
     (if (case o_sig (w_orc w) of None \<Rightarrow> False | Some n \<Rightarrow> n \<le> w_tick w) then Some Canceled
      else if (case ctx_deadline c of None \<Rightarrow> False | Some t \<Rightarrow> t \<le> w_now w) then Some DeadlineExceeded
      else None)"

definition check_ctx :: "ctx \<Rightarrow> ('e, unit) io" where
  "check_ctx c w = (case ctx_Err c w of None \<Rightarrow> (Ok (), w) | Some e \<Rightarrow> (Err e, w))"

section \<open>Weakest preconditions\<close>

text \<open>
  \<open>wp m Q E C w\<close>: run from \<open>w\<close>, a normal return satisfies \<open>Q\<close>, an error return \<open>E\<close>, and
  a power loss leaves a state in \<open>C\<close>.
\<close>

definition wp :: "('e, 'a) io \<Rightarrow> ('a \<Rightarrow> 'e world \<Rightarrow> bool) \<Rightarrow> (gerr \<Rightarrow> 'e world \<Rightarrow> bool) \<Rightarrow>
    ('e world \<Rightarrow> bool) \<Rightarrow> 'e world \<Rightarrow> bool" where
  "wp m Q E C w = (case m w of
     (Ok x, w') \<Rightarrow> Q x w'
   | (Err e, w') \<Rightarrow> E e w'
   | (Crash, w') \<Rightarrow> C w')"

named_theorems wp_simps \<open>the calculus, as rewrite rules\<close>
named_theorems wp_rules \<open>sufficient conditions for the system calls\<close>

lemma wp_ret [wp_simps]: "wp (ret x) Q E C = Q x"
  by (simp add: wp_def ret_def fun_eq_iff)

lemma wp_throw [wp_simps]: "wp (throw e) Q E C = E e"
  by (simp add: wp_def throw_def fun_eq_iff)

lemma wp_bind [wp_simps]: "wp (bind m f) Q E C = wp m (\<lambda>x. wp (f x) Q E C) E C"
  by (simp add: wp_def bind_def fun_eq_iff split: outcome.splits prod.splits)

lemma wp_seq [wp_simps]: "wp (seq m k) Q E C = wp m (\<lambda>_. wp k Q E C) E C"
  by (simp add: seq_def wp_bind)

lemma wp_attempt [wp_simps]: "wp (attempt m) Q E C = wp m (\<lambda>x. Q (Inr x)) (\<lambda>e. Q (Inl e)) C"
  by (simp add: wp_def attempt_def fun_eq_iff split: outcome.splits prod.splits)

lemma wp_on_err [wp_simps]: "wp (on_err m h) Q E C = wp m Q (\<lambda>e. wp (h e) Q E C) C"
  by (simp add: wp_def on_err_def fun_eq_iff split: outcome.splits prod.splits)

lemma wp_ignore [wp_simps]: "wp (ignore m) Q E C = wp m (\<lambda>_. Q ()) (\<lambda>_. Q ()) C"
  by (simp add: ignore_def wp_simps)

lemma wp_wrapf [wp_simps]: "wp (wrapf s m) Q E C = wp m Q (\<lambda>e. E (Wrapf s e)) C"
  by (simp add: wrapf_def wp_simps)

lemma wp_deferred [wp_simps]:
  "wp (deferred c m) Q E C =
     wp m (\<lambda>x. wp c (\<lambda>_. Q x) (\<lambda>_. Q x) C) (\<lambda>e. wp c (\<lambda>_. E e) (\<lambda>_. E e) C) C"
  by (simp add: deferred_def wp_simps)

lemma wp_logf [wp_simps]: "wp (logf s) Q E C = (\<lambda>w. Q () (w\<lparr>w_out := w_out w @ [s]\<rparr>))"
  by (simp add: wp_def logf_def fun_eq_iff)

lemma wp_time_Now [wp_simps]: "wp time_Now Q E C = (\<lambda>w. Q (w_now w) w)"
  by (simp add: wp_def time_Now_def fun_eq_iff)

lemma wp_check_ctx [wp_simps]:
  "wp (check_ctx c) Q E C = (\<lambda>w. case ctx_Err c w of None \<Rightarrow> Q () w | Some e \<Rightarrow> E e w)"
  by (simp add: wp_def check_ctx_def fun_eq_iff split: option.splits)

lemma wp_case_sum [wp_simps]:
  "wp (case r of Inl a \<Rightarrow> f a | Inr b \<Rightarrow> g b) Q E C =
     (case r of Inl a \<Rightarrow> wp (f a) Q E C | Inr b \<Rightarrow> wp (g b) Q E C)"
  by (cases r) auto

lemma wp_case_option [wp_simps]:
  "wp (case r of None \<Rightarrow> f | Some b \<Rightarrow> g b) Q E C =
     (case r of None \<Rightarrow> wp f Q E C | Some b \<Rightarrow> wp (g b) Q E C)"
  by (cases r) auto

lemma wp_if [wp_simps]:
  "wp (if b then m else k) Q E C = (if b then wp m Q E C else wp k Q E C)"
  by simp

lemma wp_mono:
  assumes "wp m Q E C w"
    and "\<And>x w'. Q x w' \<Longrightarrow> Q' x w'" and "\<And>e w'. E e w' \<Longrightarrow> E' e w'" and "\<And>w'. C w' \<Longrightarrow> C' w'"
  shows "wp m Q' E' C' w"
  using assms by (auto simp: wp_def split: outcome.splits prod.splits)

lemma wp_conj:
  "wp m Q E C w \<Longrightarrow> wp m Q' E' C' w \<Longrightarrow>
   wp m (\<lambda>x v. Q x v \<and> Q' x v) (\<lambda>e v. E e v \<and> E' e v) (\<lambda>v. C v \<and> C' v) w"
  by (auto simp: wp_def split: outcome.splits prod.splits)

lemma wpD:
  assumes "wp m Q E C w"
  shows "m w = (Ok x, w') \<Longrightarrow> Q x w'" "m w = (Err e, w') \<Longrightarrow> E e w'" "m w = (Crash, w') \<Longrightarrow> C w'"
  using assms by (auto simp: wp_def)

lemma wpI:
  assumes "\<And>x w'. m w = (Ok x, w') \<Longrightarrow> Q x w'" and "\<And>e w'. m w = (Err e, w') \<Longrightarrow> E e w'"
    and "\<And>w'. m w = (Crash, w') \<Longrightarrow> C w'"
  shows "wp m Q E C w"
  using assms by (auto simp: wp_def split: outcome.splits prod.splits)

lemma adv_simps [simp]:
  "w_fs (adv w) = w_fs w" "w_orc (adv w) = w_orc w" "w_out (adv w) = w_out w"
  "w_env (adv w) = w_env w" "w_tick (adv w) = Suc (w_tick w)" "w_now w \<le> w_now (adv w)"
  by (simp_all add: adv_def)

lemma wp_syscall:
  "wp (syscall mk f) Q E C w = (case o_fate (w_orc w) (w_tick w) of
     PowerLoss \<Rightarrow> C w
   | Fail e \<Rightarrow> E (mk (Fault e)) (adv w)
   | Go \<Rightarrow> (case f (w_fs w) (w_now (adv w)) of
         Inl e \<Rightarrow> E (mk e) (adv w)
       | Inr (x, fs) \<Rightarrow> Q x ((adv w)\<lparr>w_fs := fs\<rparr>)))"
  by (simp add: wp_def syscall_def split: fate.splits sum.splits prod.splits)

lemma wp_syscallI:
  assumes "C w" and "\<And>flt. E (mk (Fault flt)) (adv w)"
    and "case f (w_fs w) (w_now (adv w)) of
         Inl e \<Rightarrow> E (mk e) (adv w) | Inr (x, fs) \<Rightarrow> Q x ((adv w)\<lparr>w_fs := fs\<rparr>)"
  shows "wp (syscall mk f) Q E C w"
  using assms by (simp add: wp_syscall split: fate.splits sum.splits prod.splits)

lemma wp_sleep:
  "wp (sleep d) Q E C w = (case o_fate (w_orc w) (w_tick w) of
     PowerLoss \<Rightarrow> C w | _ \<Rightarrow> Q () ((adv w)\<lparr>w_now := w_now (adv w) + int d\<rparr>))"
  by (simp add: wp_def sleep_def split: fate.splits)

section \<open>Invariants\<close>

text \<open>
  \<open>keeps I m\<close>: the invariant \<open>I\<close> survives \<open>m\<close> on every way out, a power loss included.
  One rule per control operator lets an invariant of the system calls be lifted to any function
  built from them.
\<close>

definition keeps :: "('e world \<Rightarrow> bool) \<Rightarrow> ('e, 'a) io \<Rightarrow> bool" where
  "keeps I m \<longleftrightarrow> (\<forall>w. I w \<longrightarrow> wp m (\<lambda>_. I) (\<lambda>_. I) I w)"

named_theorems keeps_rules \<open>invariants through the control operators\<close>

lemma keepsI: "(\<And>w. I w \<Longrightarrow> wp m (\<lambda>_. I) (\<lambda>_. I) I w) \<Longrightarrow> keeps I m"
  by (simp add: keeps_def)

lemma keeps_wp: "keeps I m \<Longrightarrow> I w \<Longrightarrow> wp m (\<lambda>_. I) (\<lambda>_. I) I w"
  by (simp add: keeps_def)

lemma wp_const: "wp m (\<lambda>_. I) (\<lambda>_. I) I w \<longleftrightarrow> I (snd (m w))"
  by (cases "m w") (simp add: wp_def split: outcome.split)

lemma keeps_alt: "keeps I m \<longleftrightarrow> (\<forall>w. I w \<longrightarrow> I (snd (m w)))"
  by (simp add: keeps_def wp_const)

lemma keeps_ret [keeps_rules]: "keeps I (ret x)"
  by (simp add: keeps_def wp_simps)

lemma keeps_throw [keeps_rules]: "keeps I (throw e)"
  by (simp add: keeps_def wp_simps)

lemma keeps_bind [keeps_rules]: "keeps I m \<Longrightarrow> (\<And>x. keeps I (f x)) \<Longrightarrow> keeps I (bind m f)"
  unfolding keeps_def wp_bind by (blast intro: wp_mono)

lemma keeps_seq [keeps_rules]: "keeps I m \<Longrightarrow> keeps I k \<Longrightarrow> keeps I (seq m k)"
  by (simp add: seq_def keeps_bind)

lemma keeps_attempt [keeps_rules]: "keeps I m \<Longrightarrow> keeps I (attempt m)"
  by (simp add: keeps_def wp_attempt)

lemma keeps_on_err [keeps_rules]:
  "keeps I m \<Longrightarrow> (\<And>e. keeps I (h e)) \<Longrightarrow> keeps I (on_err m h)"
  unfolding keeps_def wp_on_err by (blast intro: wp_mono)

lemma keeps_ignore [keeps_rules]: "keeps I m \<Longrightarrow> keeps I (ignore m)"
  by (simp add: keeps_def wp_ignore)

lemma keeps_wrapf [keeps_rules]: "keeps I m \<Longrightarrow> keeps I (wrapf s m)"
  by (simp add: keeps_def wp_wrapf)

lemma keeps_deferred [keeps_rules]: "keeps I c \<Longrightarrow> keeps I m \<Longrightarrow> keeps I (deferred c m)"
  unfolding keeps_def wp_deferred by (blast intro: wp_mono)

lemma keeps_each [keeps_rules]: "(\<And>x. x \<in> set xs \<Longrightarrow> keeps I (f x)) \<Longrightarrow> keeps I (each xs f)"
  by (induction xs) (auto intro: keeps_rules)

lemma keeps_if [keeps_rules]:
  "(b \<Longrightarrow> keeps I m) \<Longrightarrow> (\<not> b \<Longrightarrow> keeps I k) \<Longrightarrow> keeps I (if b then m else k)"
  by simp

lemma keeps_case_sum [keeps_rules]:
  "(\<And>a. r = Inl a \<Longrightarrow> keeps I (f a)) \<Longrightarrow> (\<And>b. r = Inr b \<Longrightarrow> keeps I (g b)) \<Longrightarrow>
   keeps I (case r of Inl a \<Rightarrow> f a | Inr b \<Rightarrow> g b)"
  by (cases r) auto

lemma keeps_case_option [keeps_rules]:
  "(r = None \<Longrightarrow> keeps I f) \<Longrightarrow> (\<And>b. r = Some b \<Longrightarrow> keeps I (g b)) \<Longrightarrow>
   keeps I (case r of None \<Rightarrow> f | Some b \<Rightarrow> g b)"
  by (cases r) auto

lemma keeps_check_ctx [keeps_rules]: "keeps I (check_ctx c)"
  by (simp add: keeps_def wp_simps split: option.splits)

lemma keeps_time_Now [keeps_rules]: "keeps I time_Now"
  by (simp add: keeps_def wp_simps)

text \<open>An invariant about the file system and the outside state only.\<close>

definition on_fs :: "(fsys \<Rightarrow> bool) \<Rightarrow> 'e world \<Rightarrow> bool" where
  "on_fs P w \<longleftrightarrow> P (w_fs w)"

lemma on_fs_eq: "on_fs P = (\<lambda>w. P (w_fs w))"
  by (simp add: on_fs_def fun_eq_iff)

lemma keeps_logf [keeps_rules]: "keeps (on_fs P) (logf s)"
  by (simp add: keeps_def wp_simps on_fs_def)

lemma keeps_syscall:
  assumes "\<And>fs t x fs'. P fs \<Longrightarrow> f fs t = Inr (x, fs') \<Longrightarrow> P fs'"
  shows "keeps (on_fs P) (syscall mk f)"
  using assms unfolding keeps_def wp_syscall on_fs_def
  by (auto split: fate.splits sum.splits prod.splits)

lemma keeps_sleep [keeps_rules]: "keeps (on_fs P) (sleep d)"
  by (auto simp: keeps_def wp_sleep on_fs_def split: fate.splits)

text \<open>An invariant of a loop, with the elements still to come.\<close>

lemma wp_each:
  assumes "I [] w"
    and "\<And>dn x rest w. xs = dn @ x # rest \<Longrightarrow> I dn w \<Longrightarrow>
           wp (f x) (\<lambda>_. I (dn @ [x])) E C w"
    and "\<And>w. I xs w \<Longrightarrow> Q () w"
  shows "wp (each xs f) Q E C w"
proof -
  have "wp (each rest f) Q E C w" if "xs = dn @ rest" and "I dn w" for dn rest w
    using that
  proof (induction rest arbitrary: dn w)
    case Nil
    then show ?case using assms(3) by (simp add: wp_simps)
  next
    case (Cons x rest)
    have "wp (f x) (\<lambda>_. I (dn @ [x])) E C w" using Cons.prems by (intro assms(2))
    then have "wp (f x) (\<lambda>_. wp (each rest f) Q E C) E C w"
      by (rule wp_mono) (use Cons.prems(1) Cons.IH [of "dn @ [x]"] in simp_all)
    then show ?case by (simp add: wp_seq)
  qed
  then show ?thesis using assms(1) by simp
qed

section \<open>File-system preconditions\<close>

text \<open>
  Most of picokube's functions touch nothing but the file system, and most of what is claimed of
  them is about it alone. \<open>fwp m Q E C fs\<close> says it for every world with this file system,
  whatever the environment does; its rules are applied backwards through a function's text.
\<close>

definition fwp :: "('e, 'a) io \<Rightarrow> ('a \<Rightarrow> fsys \<Rightarrow> bool) \<Rightarrow> (gerr \<Rightarrow> fsys \<Rightarrow> bool) \<Rightarrow>
    (fsys \<Rightarrow> bool) \<Rightarrow> fsys \<Rightarrow> bool" where
  "fwp m Q E C fs \<longleftrightarrow>
     (\<forall>w. w_fs w = fs \<longrightarrow> wp m (\<lambda>x w'. Q x (w_fs w')) (\<lambda>e w'. E e (w_fs w')) (\<lambda>w'. C (w_fs w')) w)"

named_theorems fwp_rules \<open>the file-system calculus, as introduction rules\<close>

lemma fwp_mono:
  assumes "fwp m Q E C fs"
    and "\<And>x fs'. Q x fs' \<Longrightarrow> Q' x fs'" and "\<And>e fs'. E e fs' \<Longrightarrow> E' e fs'"
    and "\<And>fs'. C fs' \<Longrightarrow> C' fs'"
  shows "fwp m Q' E' C' fs"
  unfolding fwp_def
proof (intro allI impI)
  fix w :: "'a world"
  assume "w_fs w = fs"
  with assms(1) have "wp m (\<lambda>x w'. Q x (w_fs w')) (\<lambda>e w'. E e (w_fs w')) (\<lambda>w'. C (w_fs w')) w"
    by (simp add: fwp_def)
  then show "wp m (\<lambda>x w'. Q' x (w_fs w')) (\<lambda>e w'. E' e (w_fs w')) (\<lambda>w'. C' (w_fs w')) w"
    by (rule wp_mono) (use assms(2-4) in auto)
qed

lemma fwp_conj:
  "fwp m Q E C fs \<Longrightarrow> fwp m Q' E' C' fs \<Longrightarrow>
   fwp m (\<lambda>x v. Q x v \<and> Q' x v) (\<lambda>e v. E e v \<and> E' e v) (\<lambda>v. C v \<and> C' v) fs"
  unfolding fwp_def by (simp add: wp_conj)

lemma fwp_wp:
  "fwp m Q E C (w_fs w) \<Longrightarrow>
   wp m (\<lambda>x w'. Q x (w_fs w')) (\<lambda>e w'. E e (w_fs w')) (\<lambda>w'. C (w_fs w')) w"
  by (simp add: fwp_def)

lemma fwpD:
  assumes "fwp m Q E C (w_fs w)"
  shows "m w = (Ok x, w') \<Longrightarrow> Q x (w_fs w')" "m w = (Err e, w') \<Longrightarrow> E e (w_fs w')"
    "m w = (Crash, w') \<Longrightarrow> C (w_fs w')"
  using fwp_wp [OF assms] by (auto dest: wpD)

lemma fwp_Ok:
  "fwp m Q E C fs \<Longrightarrow> w_fs w = fs \<Longrightarrow> m w = (Ok x, w') \<Longrightarrow> Q x (w_fs w')"
  using fwpD(1) [of m Q E C w] by simp

lemma fwp_Err:
  "fwp m Q E C fs \<Longrightarrow> w_fs w = fs \<Longrightarrow> m w = (Err e, w') \<Longrightarrow> E e (w_fs w')"
  using fwpD(2) [of m Q E C w] by simp

text \<open>Every outcome at once: the state left behind, whichever way the run ended.\<close>

lemma fwp_every_outcome:
  assumes "fwp m (\<lambda>_. P) (\<lambda>_. P) P (w_fs w)"
  shows "P (w_fs (snd (m w)))"
  using fwp_wp [OF assms] wp_const [where I = "\<lambda>w. P (w_fs w)"] by blast

lemma fwp_ret [fwp_rules]: "Q x fs \<Longrightarrow> fwp (ret x) Q E C fs"
  by (simp add: fwp_def wp_simps)

lemma fwp_throw [fwp_rules]: "E e fs \<Longrightarrow> fwp (throw e) Q E C fs"
  by (simp add: fwp_def wp_simps)

lemma fwp_bind [fwp_rules]: "fwp m (\<lambda>x. fwp (f x) Q E C) E C fs \<Longrightarrow> fwp (bind m f) Q E C fs"
  unfolding fwp_def wp_bind by (intro allI impI, drule spec, drule (1) mp, erule wp_mono) simp_all

lemma fwp_seq [fwp_rules]: "fwp m (\<lambda>_. fwp k Q E C) E C fs \<Longrightarrow> fwp (seq m k) Q E C fs"
  unfolding seq_def by (rule fwp_bind)

lemma fwp_attempt [fwp_rules]:
  "fwp m (\<lambda>x. Q (Inr x)) (\<lambda>e. Q (Inl e)) C fs \<Longrightarrow> fwp (attempt m) Q E C fs"
  by (simp add: fwp_def wp_attempt)

lemma fwp_on_err [fwp_rules]: "fwp m Q (\<lambda>e. fwp (h e) Q E C) C fs \<Longrightarrow> fwp (on_err m h) Q E C fs"
  unfolding fwp_def wp_on_err by (intro allI impI, drule spec, drule (1) mp, erule wp_mono) simp_all

lemma fwp_ignore [fwp_rules]:
  "fwp m (\<lambda>_. Q ()) (\<lambda>_. Q ()) C fs \<Longrightarrow> fwp (ignore m) Q E C fs"
  by (simp add: fwp_def wp_ignore)

lemma fwp_wrapf [fwp_rules]: "fwp m Q (\<lambda>e. E (Wrapf s e)) C fs \<Longrightarrow> fwp (wrapf s m) Q E C fs"
  by (simp add: fwp_def wp_wrapf)

lemma fwp_deferred [fwp_rules]:
  "fwp m (\<lambda>x. fwp c (\<lambda>_. Q x) (\<lambda>_. Q x) C) (\<lambda>e. fwp c (\<lambda>_. E e) (\<lambda>_. E e) C) C fs \<Longrightarrow>
   fwp (deferred c m) Q E C fs"
  unfolding fwp_def wp_deferred by (intro allI impI, drule spec, drule (1) mp, erule wp_mono) simp_all

lemma fwp_logf [fwp_rules]: "Q () fs \<Longrightarrow> fwp (logf s) Q E C fs"
  by (simp add: fwp_def wp_simps)

lemma fwp_time_Now [fwp_rules]: "(\<And>t. Q t fs) \<Longrightarrow> fwp time_Now Q E C fs"
  by (simp add: fwp_def wp_simps)

lemma fwp_sleep [fwp_rules]: "C fs \<Longrightarrow> Q () fs \<Longrightarrow> fwp (sleep d) Q E C fs"
  by (simp add: fwp_def wp_sleep split: fate.split)

lemma fwp_check_ctx [fwp_rules]:
  "Q () fs \<Longrightarrow> E Canceled fs \<Longrightarrow> E DeadlineExceeded fs \<Longrightarrow> fwp (check_ctx c) Q E C fs"
  by (auto simp: fwp_def wp_simps ctx_Err_def split: option.split)

lemma fwp_if [fwp_rules]:
  "(b \<Longrightarrow> fwp m Q E C fs) \<Longrightarrow> (\<not> b \<Longrightarrow> fwp k Q E C fs) \<Longrightarrow> fwp (if b then m else k) Q E C fs"
  by simp

lemma fwp_case_sum [fwp_rules]:
  "(\<And>a. r = Inl a \<Longrightarrow> fwp (f a) Q E C fs) \<Longrightarrow> (\<And>b. r = Inr b \<Longrightarrow> fwp (g b) Q E C fs) \<Longrightarrow>
   fwp (case r of Inl a \<Rightarrow> f a | Inr b \<Rightarrow> g b) Q E C fs"
  by (cases r) auto

lemma fwp_case_option [fwp_rules]:
  "(r = None \<Longrightarrow> fwp f Q E C fs) \<Longrightarrow> (\<And>b. r = Some b \<Longrightarrow> fwp (g b) Q E C fs) \<Longrightarrow>
   fwp (case r of None \<Rightarrow> f | Some b \<Rightarrow> g b) Q E C fs"
  by (cases r) auto

lemma fwp_syscall:
  assumes "C fs" and "\<And>flt. E (mk (Fault flt)) fs"
    and "\<And>t e. f fs t = Inl e \<Longrightarrow> E (mk e) fs"
    and "\<And>t x fs'. f fs t = Inr (x, fs') \<Longrightarrow> Q x fs'"
  shows "fwp (syscall mk f) Q E C fs"
  using assms unfolding fwp_def by (auto simp: wp_syscall split: fate.split sum.split)

text \<open>A value read off the world, such as a random number, may be anything.\<close>

lemma fwp_peek: "(\<And>n. fwp (f n) Q E C fs) \<Longrightarrow> fwp (\<lambda>w. f (g w) w) Q E C fs"
  unfolding fwp_def by (simp add: wp_def)

lemma keeps_peek: "(\<And>n. keeps I (f n)) \<Longrightarrow> keeps I (\<lambda>w. f (g w) w)"
  unfolding keeps_def by (simp add: wp_def)

lemma fwp_each:
  assumes "I [] fs"
    and "\<And>dn x rest fs. xs = dn @ x # rest \<Longrightarrow> I dn fs \<Longrightarrow> fwp (f x) (\<lambda>_. I (dn @ [x])) E C fs"
    and "\<And>fs. I xs fs \<Longrightarrow> Q () fs"
  shows "fwp (each xs f) Q E C fs"
  unfolding fwp_def
proof (intro allI impI)
  fix w :: "'b world"
  assume w: "w_fs w = fs"
  show "wp (each xs f) (\<lambda>x w'. Q x (w_fs w')) (\<lambda>e w'. E e (w_fs w')) (\<lambda>w'. C (w_fs w')) w"
    by (rule wp_each [where I = "\<lambda>dn w. I dn (w_fs w)"])
      (use assms w in \<open>auto simp: fwp_def\<close>)
qed

lemma fwp_keeps: "keeps (on_fs P) m \<Longrightarrow> P fs \<Longrightarrow> fwp m (\<lambda>_. P) (\<lambda>_. P) P fs"
  by (simp add: keeps_def fwp_def on_fs_eq)

lemma keeps_fwp: "(\<And>fs. P fs \<Longrightarrow> fwp m (\<lambda>_. P) (\<lambda>_. P) P fs) \<Longrightarrow> keeps (on_fs P) m"
  by (simp add: keeps_def fwp_def on_fs_eq)

text \<open>What a computation promises can be strengthened by an invariant it keeps.\<close>

lemma fwp_with_invariant:
  assumes "keeps (on_fs P) m" and "P fs" and "fwp m Q E C fs"
  shows "fwp m (\<lambda>x v. P v \<and> Q x v) (\<lambda>e v. P v \<and> E e v) (\<lambda>v. P v \<and> C v) fs"
  by (rule fwp_conj [OF fwp_keeps [OF assms(1,2)] assms(3)])

lemma fwp_assuming:
  assumes "keeps (on_fs P) m" and "P fs"
    and "fwp m (\<lambda>x v. P v \<longrightarrow> Q x v) (\<lambda>e v. P v \<longrightarrow> E e v) (\<lambda>v. P v \<longrightarrow> C v) fs"
  shows "fwp m Q E C fs"
  by (rule fwp_mono [OF fwp_with_invariant [OF assms]]) auto

text \<open>The state outside the file system, which only external calls change.\<close>

definition on_env :: "('e \<Rightarrow> bool) \<Rightarrow> 'e world \<Rightarrow> bool" where
  "on_env P w \<longleftrightarrow> P (w_env w)"

lemma keeps_logf_env [keeps_rules]: "keeps (on_env P) (logf s)"
  by (simp add: keeps_def wp_simps on_env_def)

lemma keeps_syscall_env [keeps_rules]: "keeps (on_env P) (syscall mk f)"
  unfolding keeps_def wp_syscall on_env_def
  by (auto split: fate.splits sum.splits prod.splits)

lemma keeps_sleep_env [keeps_rules]: "keeps (on_env P) (sleep d)"
  by (auto simp: keeps_def wp_sleep on_env_def split: fate.splits)

text \<open>An environment in which no call fails and the power stays on.\<close>

definition calm :: "'e world \<Rightarrow> bool" where
  "calm w \<longleftrightarrow> (\<forall>n. o_fate (w_orc w) n = Go)"

lemma calm_adv [simp]: "calm (adv w) = calm w"
  by (simp add: calm_def)

lemma calm_update [simp]:
  "calm (w\<lparr>w_fs := x\<rparr>) = calm w" "calm (w\<lparr>w_out := y\<rparr>) = calm w" "calm (w\<lparr>w_now := z\<rparr>) = calm w"
  by (simp_all add: calm_def)

lemma wp_syscall_calm:
  "calm w \<Longrightarrow> wp (syscall mk f) Q E C w = (case f (w_fs w) (w_now (adv w)) of
         Inl e \<Rightarrow> E (mk e) (adv w)
       | Inr (x, fs) \<Rightarrow> Q x ((adv w)\<lparr>w_fs := fs\<rparr>))"
  by (simp add: wp_syscall calm_def)

section \<open>Sample environments\<close>

text \<open>Concrete environments on which the properties are instantiated.\<close>

definition calm_orc :: ambient where
  "calm_orc = \<lparr>o_fate = (\<lambda>_. Go), o_lat = (\<lambda>_. 1), o_rnd = (\<lambda>n. n), o_sig = None\<rparr>"

text \<open>The power is lost at the \<open>n\<close>-th call.\<close>

definition crash_orc :: "nat \<Rightarrow> ambient" where
  "crash_orc n = \<lparr>o_fate = (\<lambda>i. if i = n then PowerLoss else Go), o_lat = (\<lambda>_. 1),
                 o_rnd = (\<lambda>n. n), o_sig = None\<rparr>"

definition world_at :: "ambient \<Rightarrow> fsys \<Rightarrow> unit world" where
  "world_at orc fs = \<lparr>w_fs = fs, w_now = 100, w_tick = 0, w_orc = orc, w_out = [], w_env = ()\<rparr>"

lemma world_at_simps [simp]:
  "w_fs (world_at orc fs) = fs" "w_orc (world_at orc fs) = orc" "w_tick (world_at orc fs) = 0"
  by (simp_all add: world_at_def)

lemma calm_world_at [simp]: "calm (world_at calm_orc fs)"
  by (simp add: calm_def calm_orc_def)

end
