(* ===== verification/Go_Os.thy ===== *)
theory Go_Os
  imports Go_Io
begin

text \<open>
  The calls of Go's \<open>os\<close> package (and \<open>renameat2\<close>) that picokube makes, on the file system
  of \<open>Fs\<close>, each with the errors Go reports. A call that the kernel does in one go is one
  \<open>syscall\<close>; \<open>os.RemoveAll\<close>, \<open>os.MkdirAll\<close>, \<open>os.WriteFile\<close> and \<open>os.CreateTemp\<close> are
  sequences of them and can stop half-way.

  For every call: its footprint (what it may change at all, whatever happens), and what holds
  after it returned normally.
\<close>

section \<open>Path resolution\<close>

text \<open>Why a path does not resolve: a component above it is a file, or something is missing.\<close>

definition miss :: "fsys \<Rightarrow> path \<Rightarrow> errno" where
  "miss fs p = (if list_ex (is_file fs) (prefixes p) then ENOTDIR else ENOENT)"

definition parent_ok :: "fsys \<Rightarrow> path \<Rightarrow> errno option" where
  "parent_ok fs p =
     (if p = [] then Some EEXIST
      else case look fs (butlast p) of
             Some (Dir _) \<Rightarrow> None
           | Some (File _ _) \<Rightarrow> Some ENOTDIR
           | None \<Rightarrow> Some (miss fs (butlast p)))"

lemma miss_wf:
  assumes "wf_fs fs" and "look fs p = None" and "is_dir fs q" and "prefix q p"
    and "\<And>r. strict_prefix q r \<Longrightarrow> prefix r p \<Longrightarrow> look fs r = None"
  shows "miss fs p = ENOENT"
proof -
  have "\<not> is_file fs r" if "prefix r p" for r
  proof (cases "prefix r q")
    case True
    then have "r = q \<or> strict_prefix r q" by (auto simp: strict_prefix_def)
    then have "is_dir fs r"
      using assms(1,3) wf_fs_prefix_dir [of fs q r] by (auto simp: is_dir_look)
    then show ?thesis by (auto simp: is_dir_look is_file_look)
  next
    case False
    with that assms(4) have "strict_prefix q r"
      using prefix_same_cases by (auto simp: strict_prefix_def)
    then show ?thesis using assms(5) that by (simp add: is_file_look)
  qed
  then show ?thesis by (auto simp: miss_def list_ex_iff in_set_prefixes)
qed

lemma miss_parent_dir:
  "wf_fs fs \<Longrightarrow> look fs (p @ [c]) = None \<Longrightarrow> is_dir fs p \<Longrightarrow> miss fs (p @ [c]) = ENOENT"
  by (rule miss_wf [where q = p]) (auto simp: strict_prefix_def prefix_order.less_le_not_le)

section \<open>Reading\<close>

definition os_Stat :: "path \<Rightarrow> ('e, node \<times> int) io" where
  "os_Stat p = syscall (PathError ''stat'' p) (\<lambda>fs t.
     case map_of fs p of Some e \<Rightarrow> Inr (e, fs) | None \<Rightarrow> Inl (miss fs p))"

definition os_ReadFile :: "path \<Rightarrow> ('e, string) io" where
  "os_ReadFile p = syscall (PathError ''open'' p) (\<lambda>fs t.
     case look fs p of
       Some (File _ b) \<Rightarrow> Inr (b, fs)
     | Some (Dir _) \<Rightarrow> Inl EISDIR
     | None \<Rightarrow> Inl (miss fs p))"

text \<open>\<open>os.ReadDir\<close>: the entries by name, with whether each is a directory.\<close>

definition os_ReadDir :: "path \<Rightarrow> ('e, (string \<times> bool) list) io" where
  "os_ReadDir p = syscall (PathError ''open'' p) (\<lambda>fs t.
     case look fs p of
       Some (Dir _) \<Rightarrow> Inr (map (\<lambda>c. (c, is_dir fs (p @ [c]))) (children fs p), fs)
     | Some (File _ _) \<Rightarrow> Inl ENOTDIR
     | None \<Rightarrow> Inl (miss fs p))"

section \<open>Removing\<close>

definition os_Remove :: "path \<Rightarrow> ('e, unit) io" where
  "os_Remove p = syscall (PathError ''remove'' p) (\<lambda>fs t.
     case look fs p of
       None \<Rightarrow> Inl (miss fs p)
     | Some (File _ _) \<Rightarrow> Inr ((), touch (butlast p) t (remove_at p fs))
     | Some (Dir _) \<Rightarrow>
         (if p = [] then Inl (Fault EBUSY)
          else if children fs p \<noteq> [] then Inl ENOTEMPTY
          else Inr ((), touch (butlast p) t (remove_at p fs))))"

text \<open>
  \<open>os.RemoveAll\<close> removes what it can, children before their directory, and returns the first
  error; a path that is not there is no error. The order among siblings is the directory's, here
  the reverse of the order by name. The kernel never removes the root.
\<close>

definition unlinkat :: "path \<Rightarrow> ('e, unit) io" where
  "unlinkat p = syscall (PathError ''unlinkat'' p) (\<lambda>fs t.
     case look fs p of
       None \<Rightarrow> Inr ((), fs)
     | Some (File _ _) \<Rightarrow> Inr ((), touch (butlast p) t (remove_at p fs))
     | Some (Dir _) \<Rightarrow>
         (if p = [] then Inl (Fault EBUSY)
          else if children fs p \<noteq> [] then Inl ENOTEMPTY
          else Inr ((), touch (butlast p) t (remove_at p fs))))"

fun unlink_list :: "path list \<Rightarrow> gerr option \<Rightarrow> ('e, unit) io" where
  "unlink_list [] err = (case err of None \<Rightarrow> ret () | Some e \<Rightarrow> throw e)"
| "unlink_list (p # ps) err =
     bind (attempt (unlinkat p)) (\<lambda>r.
       unlink_list ps (case (err, r) of (None, Inl e) \<Rightarrow> Some e | _ \<Rightarrow> err))"

definition os_RemoveAll :: "path \<Rightarrow> ('e, unit) io" where
  "os_RemoveAll p w =
     (if paths_under (w_fs w) p = []
      then syscall (PathError ''unlinkat'' p) (\<lambda>fs t.
             if miss fs p = ENOENT then Inr ((), fs) else Inl (miss fs p)) w
      else unlink_list (rev (paths_under (w_fs w) p)) None w)"

section \<open>Creating\<close>

definition os_Mkdir :: "path \<Rightarrow> nat \<Rightarrow> ('e, unit) io" where
  "os_Mkdir p m = syscall (PathError ''mkdir'' p) (\<lambda>fs t.
     case look fs p of
       Some _ \<Rightarrow> Inl EEXIST
     | None \<Rightarrow> (case parent_ok fs p of
           Some e \<Rightarrow> Inl e
         | None \<Rightarrow> Inr ((), touch (butlast p) t (put p (Dir m) t fs))))"

text \<open>
  \<open>os.MkdirAll\<close>: missing directories from the top down; an existing directory is left as it is,
  its mode included; a file in the way is an error.
\<close>

fun mkdir_from :: "path \<Rightarrow> string list \<Rightarrow> nat \<Rightarrow> ('e, unit) io" where
  "mkdir_from p [] m = ret ()"
| "mkdir_from p (c # cs) m = (\<lambda>w.
     (case look (w_fs w) (p @ [c]) of
        Some (Dir _) \<Rightarrow> mkdir_from (p @ [c]) cs m w
      | Some (File _ _) \<Rightarrow> throw (PathError ''mkdir'' (p @ [c]) ENOTDIR) w
      | None \<Rightarrow> seq (os_Mkdir (p @ [c]) m) (mkdir_from (p @ [c]) cs m) w))"

definition os_MkdirAll :: "path \<Rightarrow> nat \<Rightarrow> ('e, unit) io" where
  "os_MkdirAll p m =
     bind (attempt (os_Stat p)) (\<lambda>r. case r of
       Inr (Dir _, _) \<Rightarrow> ret ()
     | Inr (File _ _, _) \<Rightarrow> throw (PathError ''mkdir'' p ENOTDIR)
     | Inl _ \<Rightarrow> mkdir_from [] p m)"

text \<open>\<open>os.WriteFile\<close>: open with truncation (or creation), then the write.\<close>

definition open_trunc :: "path \<Rightarrow> nat \<Rightarrow> ('e, unit) io" where
  "open_trunc p m = syscall (PathError ''open'' p) (\<lambda>fs t.
     case look fs p of
       Some (File m' _) \<Rightarrow> Inr ((), put p (File m' []) t fs)
     | Some (Dir _) \<Rightarrow> Inl EISDIR
     | None \<Rightarrow> (case parent_ok fs p of
           Some e \<Rightarrow> Inl e
         | None \<Rightarrow> Inr ((), touch (butlast p) t (put p (File m []) t fs))))"

text \<open>
  \<open>File.Write\<close> repeats the system call until everything is written; the kernel may take a part
  of the bytes first, so a fault or a power loss can leave a file that is written half.
\<close>

definition write_chunk :: "path \<Rightarrow> string \<Rightarrow> ('e, unit) io" where
  "write_chunk p b = syscall (PathError ''write'' p) (\<lambda>fs t.
     case look fs p of
       Some (File m c) \<Rightarrow> Inr ((), put p (File m (c @ b)) t fs)
     | _ \<Rightarrow> Inr ((), fs))"

definition file_Write :: "path \<Rightarrow> string \<Rightarrow> ('e, unit) io" where
  "file_Write p b w =
     (let n = o_rnd (w_orc w) (w_tick w) in
      seq (write_chunk p (take n b)) (write_chunk p (drop n b)) w)"

definition file_Sync :: "path \<Rightarrow> ('e, unit) io" where
  "file_Sync p = syscall (PathError ''sync'' p) (\<lambda>fs t. Inr ((), fs))"

definition file_Close :: "path \<Rightarrow> ('e, unit) io" where
  "file_Close p = syscall (PathError ''close'' p) (\<lambda>fs t. Inr ((), fs))"

definition os_WriteFile :: "path \<Rightarrow> string \<Rightarrow> nat \<Rightarrow> ('e, unit) io" where
  "os_WriteFile p b m = seq (open_trunc p m) (file_Write p b)"

definition os_Open :: "path \<Rightarrow> ('e, unit) io" where
  "os_Open p = syscall (PathError ''open'' p) (\<lambda>fs t.
     case look fs p of Some _ \<Rightarrow> Inr ((), fs) | None \<Rightarrow> Inl (miss fs p))"

text \<open>
  \<open>os.CreateTemp(dir, pre*)\<close> and \<open>os.MkdirTemp\<close>: a random number is appended to the
  pattern's prefix; a name that is taken is tried again, 10000 times at most. The result is the
  path.
\<close>

definition create_excl :: "path \<Rightarrow> node \<Rightarrow> ('e, unit) io" where
  "create_excl p n = syscall (PathError ''open'' p) (\<lambda>fs t.
     case look fs p of
       Some _ \<Rightarrow> Inl EEXIST
     | None \<Rightarrow> (case parent_ok fs p of
           Some e \<Rightarrow> Inl e
         | None \<Rightarrow> Inr ((), touch (butlast p) t (put p n t fs))))"

fun create_temp :: "nat \<Rightarrow> path \<Rightarrow> string \<Rightarrow> node \<Rightarrow> ('e, path) io" where
  "create_temp 0 d pre n = throw (PathError ''createtemp'' (d @ [pre @ ''*'']) EEXIST)"
| "create_temp (Suc k) d pre n = (\<lambda>w.
     let p = d @ [pre @ itoa (o_rnd (w_orc w) (w_tick w))] in
     on_err (seq (create_excl p n) (ret p))
       (\<lambda>e. if e = PathError ''open'' p EEXIST then create_temp k d pre n else throw e) w)"

definition os_CreateTemp :: "path \<Rightarrow> string \<Rightarrow> ('e, path) io" where
  "os_CreateTemp d pre = create_temp 10000 d pre (File 0x180 [])"

definition os_MkdirTemp :: "path \<Rightarrow> string \<Rightarrow> ('e, path) io" where
  "os_MkdirTemp d pre = create_temp 10000 d pre (Dir 0x1C0)"

section \<open>Renaming\<close>

text \<open>
  \<open>os.Rename\<close>: Go refuses to replace an existing directory; the kernel refuses to move a
  directory over a file or into itself. A file may replace a file.
\<close>

definition os_Rename :: "path \<Rightarrow> path \<Rightarrow> ('e, unit) io" where
  "os_Rename a b = syscall (LinkError ''rename'' a b) (\<lambda>fs t.
     case look fs a of
       None \<Rightarrow> Inl (miss fs a)
     | Some n \<Rightarrow>
         (if is_dir fs b then Inl EEXIST
          else if strict_prefix a b then Inl EINVAL
          else case parent_ok fs b of
            Some e \<Rightarrow> Inl e
          | None \<Rightarrow>
              (case (n, look fs b) of
                 (Dir _, Some (File _ _)) \<Rightarrow> Inl ENOTDIR
               | _ \<Rightarrow> if a = b then Inr ((), fs)
                      else Inr ((), touch (butlast b) t (touch (butlast a) t (rename_tree a b fs))))))"

text \<open>\<open>renameat2(a, b, RENAME_EXCHANGE)\<close>: one atomic swap of two existing trees.\<close>

definition renameat2_exchange :: "path \<Rightarrow> path \<Rightarrow> ('e, unit) io" where
  "renameat2_exchange a b = syscall SysErr (\<lambda>fs t.
     if look fs a = None then Inl (miss fs a)
     else if look fs b = None then Inl (miss fs b)
     else if prefix a b \<or> prefix b a then Inl EINVAL
     else Inr ((), touch (butlast b) t (touch (butlast a) t (exchange_trees a b fs))))"

section \<open>What each call may do\<close>

subsection \<open>Reading\<close>

lemma look_map_of: "map_of fs p = Some (n, t) \<Longrightarrow> look fs p = Some n"
  by (simp add: look_def)

lemma fwp_Stat:
  assumes "C fs" and "\<And>flt. E (PathError ''stat'' p (Fault flt)) fs"
    and "look fs p = None \<Longrightarrow> E (PathError ''stat'' p (miss fs p)) fs"
    and "\<And>n t. map_of fs p = Some (n, t) \<Longrightarrow> Q (n, t) fs"
  shows "fwp (os_Stat p) Q E C fs"
  unfolding os_Stat_def
  by (rule fwp_syscall) (use assms in \<open>auto simp: look_def split: option.splits\<close>)

lemma fwp_ReadFile:
  assumes "C fs" and "\<And>flt. E (PathError ''open'' p (Fault flt)) fs"
    and "look fs p = None \<Longrightarrow> E (PathError ''open'' p (miss fs p)) fs"
    and "\<And>m. look fs p = Some (Dir m) \<Longrightarrow> E (PathError ''open'' p EISDIR) fs"
    and "\<And>m b. look fs p = Some (File m b) \<Longrightarrow> Q b fs"
  shows "fwp (os_ReadFile p) Q E C fs"
  unfolding os_ReadFile_def
  by (rule fwp_syscall) (use assms in \<open>auto split: option.splits node.splits\<close>)

lemma fwp_ReadDir:
  assumes "C fs" and "\<And>flt. E (PathError ''open'' p (Fault flt)) fs"
    and "look fs p = None \<Longrightarrow> E (PathError ''open'' p (miss fs p)) fs"
    and "is_file fs p \<Longrightarrow> E (PathError ''open'' p ENOTDIR) fs"
    and "is_dir fs p \<Longrightarrow> Q (map (\<lambda>c. (c, is_dir fs (p @ [c]))) (children fs p)) fs"
  shows "fwp (os_ReadDir p) Q E C fs"
  unfolding os_ReadDir_def
  by (rule fwp_syscall)
    (use assms in \<open>auto simp: is_dir_look is_file_look split: option.splits node.splits\<close>)

lemma fwp_Open:
  assumes "C fs" and "\<And>e. E e fs" and "look fs p \<noteq> None \<Longrightarrow> Q () fs"
  shows "fwp (os_Open p) Q E C fs"
  unfolding os_Open_def by (rule fwp_syscall) (use assms in \<open>auto split: option.splits\<close>)

lemma fwp_Sync:
  assumes "C fs" and "\<And>e. E e fs" and "Q () fs"
  shows "fwp (file_Sync p) Q E C fs"
  unfolding file_Sync_def by (rule fwp_syscall) (use assms in auto)

lemma fwp_Close:
  assumes "C fs" and "\<And>e. E e fs" and "Q () fs"
  shows "fwp (file_Close p) Q E C fs"
  unfolding file_Close_def by (rule fwp_syscall) (use assms in auto)

lemma keeps_Stat [keeps_rules]: "keeps (on_fs P) (os_Stat p)"
  by (rule keeps_fwp) (rule fwp_Stat)

lemma keeps_ReadFile [keeps_rules]: "keeps (on_fs P) (os_ReadFile p)"
  by (rule keeps_fwp) (rule fwp_ReadFile)

lemma keeps_ReadDir [keeps_rules]: "keeps (on_fs P) (os_ReadDir p)"
  by (rule keeps_fwp) (rule fwp_ReadDir)

lemma keeps_Open [keeps_rules]: "keeps (on_fs P) (os_Open p)"
  by (rule keeps_fwp) (rule fwp_Open)

lemma keeps_Sync [keeps_rules]: "keeps (on_fs P) (file_Sync p)"
  by (rule keeps_fwp) (rule fwp_Sync)

lemma keeps_Close [keeps_rules]: "keeps (on_fs P) (file_Close p)"
  by (rule keeps_fwp) (rule fwp_Close)

subsection \<open>Removing\<close>

text \<open>What a removal leaves: nothing new below \<open>p\<close>, and everything else as it was.\<close>

definition shrunk :: "path \<Rightarrow> fsys \<Rightarrow> fsys \<Rightarrow> bool" where
  "shrunk p fs fs' \<longleftrightarrow>
     same_on (- below p) fs fs' \<and> (\<forall>q. look fs' q = look fs q \<or> look fs' q = None)"

lemma shrunk_refl [simp]: "shrunk p fs fs"
  by (simp add: shrunk_def)

lemma shrunk_trans: "shrunk p fs fs' \<Longrightarrow> shrunk p fs' fs'' \<Longrightarrow> shrunk p fs fs''"
  unfolding shrunk_def by (metis same_on_trans)

lemma shrunk_same_on: "shrunk p fs fs' \<Longrightarrow> Z \<inter> below p = {} \<Longrightarrow> same_on Z fs fs'"
  by (auto simp: shrunk_def same_on_def)

lemma shrunk_remove_at: "prefix p q \<Longrightarrow> shrunk p fs (touch r t (remove_at q fs))"
  by (auto simp: shrunk_def same_on_def)

lemma shrunk_no_tree: "shrunk p fs fs' \<Longrightarrow> sub fs p = no_tree \<Longrightarrow> sub fs' p = no_tree"
  unfolding shrunk_def sub_def no_tree_def by (metis (no_types))

lemma fwp_Remove:
  assumes "C fs" and "\<And>flt. E (PathError ''remove'' p (Fault flt)) fs"
    and "look fs p = None \<Longrightarrow> E (PathError ''remove'' p (miss fs p)) fs"
    and "is_dir fs p \<Longrightarrow> E (PathError ''remove'' p ENOTEMPTY) fs"
    and "\<And>fs'. look fs p \<noteq> None \<Longrightarrow> (is_dir fs p \<Longrightarrow> children fs p = []) \<Longrightarrow> shrunk p fs fs' \<Longrightarrow>
           (\<forall>q. look fs' q = (if q = p then None else look fs q)) \<Longrightarrow> Q () fs'"
  shows "fwp (os_Remove p) Q E C fs"
  unfolding os_Remove_def
  by (rule fwp_syscall)
    (use assms in \<open>auto simp: is_dir_look intro!: assms(5) shrunk_remove_at split: option.splits node.splits if_splits\<close>)

lemma fwp_unlinkat:
  assumes "C fs" and "\<And>flt. E (PathError ''unlinkat'' p (Fault flt)) fs"
    and "is_dir fs p \<Longrightarrow> children fs p \<noteq> [] \<Longrightarrow> E (PathError ''unlinkat'' p ENOTEMPTY) fs"
    and "\<And>fs'. shrunk p fs fs' \<Longrightarrow> look fs' p = None \<Longrightarrow> Q () fs'"
  shows "fwp (unlinkat p) Q E C fs"
  unfolding unlinkat_def
  by (rule fwp_syscall)
    (use assms in \<open>auto simp: is_dir_look intro!: assms(4) shrunk_remove_at split: option.splits node.splits if_splits\<close>)

lemma shrunk_prefix: "shrunk q fs fs' \<Longrightarrow> prefix p q \<Longrightarrow> shrunk p fs fs'"
  unfolding shrunk_def using below_mono [of p q] by (auto simp: same_on_def)

lemma fwp_unlink_list:
  assumes "\<forall>q\<in>set ps. prefix p q"
    and "\<And>fs'. shrunk p fs fs' \<Longrightarrow> C fs'"
    and "\<And>e fs'. shrunk p fs fs' \<Longrightarrow> E e fs'"
    and "\<And>fs'. shrunk p fs fs' \<Longrightarrow> err = None \<Longrightarrow> (\<forall>q\<in>set ps. look fs' q = None) \<Longrightarrow> Q () fs'"
  shows "fwp (unlink_list ps err :: ('e, unit) io) Q E C fs"
  using assms
proof (induction ps arbitrary: err fs Q)
  case Nil
  then show ?case by (cases err) (auto intro!: fwp_ret fwp_throw)
next
  case (Cons q qs)
  have p: "prefix p q" using Cons.prems(1) by simp
  have step: "fwp (unlink_list qs err' :: ('e, unit) io) Q E C fs'"
    if fs': "shrunk p fs fs'" and gone: "err' = None \<Longrightarrow> err = None \<and> look fs' q = None" for err' fs'
  proof (rule Cons.IH)
    show "\<forall>q\<in>set qs. prefix p q" using Cons.prems(1) by simp
    show "C fs''" if "shrunk p fs' fs''" for fs''
      using Cons.prems(2) shrunk_trans [OF fs' that] .
    show "E e fs''" if "shrunk p fs' fs''" for e fs''
      using Cons.prems(3) shrunk_trans [OF fs' that] .
    show "Q () fs''" if s: "shrunk p fs' fs''" and "err' = None" and "\<forall>q\<in>set qs. look fs'' q = None" for fs''
    proof (rule Cons.prems(4) [OF shrunk_trans [OF fs' s]])
      show "err = None" using gone that by simp
      have "look fs'' q = None" using gone that s unfolding shrunk_def by metis
      then show "\<forall>q\<in>set (q # qs). look fs'' q = None" using that by simp
    qed
  qed
  show ?case
    unfolding unlink_list.simps
    by (intro fwp_bind fwp_attempt fwp_unlinkat)
      (auto intro!: step Cons.prems(2) dest: shrunk_prefix [OF _ p] split: option.splits)
qed

lemma fwp_RemoveAll:
  assumes "\<And>fs'. shrunk p fs fs' \<Longrightarrow> C fs'"
    and "\<And>e fs'. shrunk p fs fs' \<Longrightarrow> E e fs'"
    and "\<And>fs'. shrunk p fs fs' \<Longrightarrow> sub fs' p = no_tree \<Longrightarrow> Q () fs'"
  shows "fwp (os_RemoveAll p :: ('e, unit) io) Q E C fs"
proof (cases "paths_under fs p = []")
  case True
  have "fwp (syscall (PathError ''unlinkat'' p) (\<lambda>fs t.
      if miss fs p = ENOENT then Inr ((), fs) else Inl (miss fs p)) :: ('e, unit) io) Q E C fs"
    by (rule fwp_syscall) (use assms True in \<open>auto simp: paths_under_empty split: if_splits\<close>)
  then show ?thesis by (simp add: fwp_def os_RemoveAll_def wp_def True)
next
  case False
  have none: "sub fs' p = no_tree"
    if "shrunk p fs fs'" and "\<forall>q\<in>set (paths_under fs p). look fs' q = None" for fs'
  proof
    fix q
    show "sub fs' p q = no_tree q"
    proof (cases "look fs (p @ q) = None")
      case True
      then show ?thesis using that(1) unfolding shrunk_def sub_def no_tree_def by metis
    next
      case False
      then show ?thesis using that(2) by (auto simp: in_paths_under sub_def no_tree_def)
    qed
  qed
  have "fwp (unlink_list (rev (paths_under fs p)) None :: ('e, unit) io) Q E C fs"
    by (rule fwp_unlink_list [where p = p]) (auto simp: in_paths_under intro: assms none)
  then show ?thesis using False by (simp add: fwp_def os_RemoveAll_def wp_def)
qed

subsection \<open>Creating\<close>

text \<open>What making directories leaves: missing directories on the way to \<open>p\<close>, nothing else.\<close>

definition grown :: "path \<Rightarrow> nat \<Rightarrow> fsys \<Rightarrow> fsys \<Rightarrow> bool" where
  "grown p m fs fs' \<longleftrightarrow>
     (\<forall>q. look fs' q = look fs q \<or>
          (look fs q = None \<and> prefix q p \<and> look fs' q = Some (Dir m)))"

lemma grown_refl [simp]: "grown p m fs fs"
  by (simp add: grown_def)

lemma grown_trans: "grown p m fs fs' \<Longrightarrow> grown p m fs' fs'' \<Longrightarrow> grown p m fs fs''"
  unfolding grown_def by metis

lemma grown_same_on: "grown p m fs fs' \<Longrightarrow> Z \<inter> above p = {} \<Longrightarrow> same_on Z fs fs'"
  unfolding grown_def same_on_def by (metis disjoint_iff in_above)

lemma grown_keeps_present: "grown p m fs fs' \<Longrightarrow> look fs q = Some n \<Longrightarrow> look fs' q = Some n"
  unfolding grown_def by (metis option.distinct(1))

lemma grown_dir_noop:
  assumes "wf_fs fs" and "grown p m fs fs'" and "is_dir fs p"
  shows "look fs' q = look fs q"
proof (cases "look fs q")
  case None
  then have "\<not> prefix q p"
    using assms(1,3) wf_fs_absent_below [of fs q p] by (auto simp: is_dir_look)
  then show ?thesis using assms(2) None unfolding grown_def by metis
next
  case (Some n)
  then show ?thesis using assms(2) by (simp add: grown_keeps_present)
qed

lemma parent_ok_None:
  "parent_ok fs p = None \<longleftrightarrow> p \<noteq> [] \<and> is_dir fs (butlast p)"
  by (auto simp: parent_ok_def is_dir_look split: option.splits node.splits)

lemma fwp_Mkdir:
  assumes "C fs" and "\<And>e. E (PathError ''mkdir'' p e) fs"
    and "\<And>fs'. grown p m fs fs' \<Longrightarrow> is_dir fs' p \<Longrightarrow> look fs p = None \<Longrightarrow> Q () fs'"
  shows "fwp (os_Mkdir p m) Q E C fs"
  unfolding os_Mkdir_def
  by (rule fwp_syscall)
    (use assms in \<open>auto simp: grown_def is_dir_look intro!: assms(3) split: option.splits\<close>)

lemma fwp_mkdir_from:
  assumes "\<And>fs'. grown (p @ cs) m fs fs' \<Longrightarrow> C fs'"
    and "\<And>e fs'. grown (p @ cs) m fs fs' \<Longrightarrow> E e fs'"
    and "\<And>fs'. grown (p @ cs) m fs fs' \<Longrightarrow> cs = [] \<or> is_dir fs' (p @ cs) \<Longrightarrow> Q () fs'"
  shows "fwp (mkdir_from p cs m :: ('e, unit) io) Q E C fs"
  using assms
proof (induction cs arbitrary: p fs)
  case Nil
  then show ?case by (auto intro!: fwp_ret)
next
  case (Cons c cs)
  have rest: "fwp (mkdir_from (p @ [c]) cs m :: ('e, unit) io) Q E C fs'"
    if fs': "grown (p @ c # cs) m fs fs'" and dir: "is_dir fs' (p @ [c])" for fs'
  proof (rule Cons.IH)
    show "C fs''" if "grown ((p @ [c]) @ cs) m fs' fs''" for fs''
      using that Cons.prems(1) grown_trans [OF fs'] by simp
    show "E e fs''" if "grown ((p @ [c]) @ cs) m fs' fs''" for e fs''
      using that Cons.prems(2) grown_trans [OF fs'] by simp
    show "Q () fs''" if g: "grown ((p @ [c]) @ cs) m fs' fs''" and "cs = [] \<or> is_dir fs'' ((p @ [c]) @ cs)" for fs''
    proof (rule Cons.prems(3))
      show "grown (p @ c # cs) m fs fs''" using g grown_trans [OF fs'] by simp
      show "c # cs = [] \<or> is_dir fs'' (p @ c # cs)"
        using that(2) dir grown_keeps_present [OF g] by (auto simp: is_dir_look)
    qed
  qed
  have Mkdir: "fwp (seq (os_Mkdir (p @ [c]) m) (mkdir_from (p @ [c]) cs m) :: ('e, unit) io) Q E C fs"
    by (intro fwp_seq fwp_Mkdir)
      (auto intro!: Cons.prems rest simp: grown_def, (metis prefix_order.trans prefixI append_Cons append_Nil append_assoc)+)
  have here: "fwp (mkdir_from (p @ [c]) cs m :: ('e, unit) io) Q E C fs" if "look fs (p @ [c]) = Some (Dir k)" for k
    using that by (intro rest) (auto simp: is_dir_look)
  have in_way: "fwp (throw (PathError ''mkdir'' (p @ [c]) ENOTDIR) :: ('e, unit) io) Q E C fs"
    by (rule fwp_throw) (simp add: Cons.prems)
  show ?case
    using Mkdir here in_way by (auto simp: fwp_def wp_def split: option.split node.split)
qed

lemma fwp_MkdirAll:
  assumes "p \<noteq> []"
    and "\<And>fs'. grown p m fs fs' \<Longrightarrow> C fs'"
    and "\<And>e fs'. grown p m fs fs' \<Longrightarrow> E e fs'"
    and "\<And>fs'. grown p m fs fs' \<Longrightarrow> is_dir fs' p \<Longrightarrow> Q () fs'"
  shows "fwp (os_MkdirAll p m :: ('e, unit) io) Q E C fs"
proof -
  have from_root: "fwp (mkdir_from [] p m :: ('e, unit) io) Q E C fs"
    by (rule fwp_mkdir_from) (use assms in auto)
  show ?thesis
    unfolding os_MkdirAll_def
    by (intro fwp_bind fwp_attempt fwp_Stat)
      (auto intro!: fwp_ret fwp_throw from_root assms(2-4) simp: is_dir_look look_def split: node.split)
qed

lemma fwp_open_trunc:
  assumes "C fs" and "\<And>e. E (PathError ''open'' p e) fs"
    and "\<And>fs' m'. same_on (- {p}) fs fs' \<Longrightarrow> look fs' p = Some (File m' []) \<Longrightarrow>
           (look fs p = None \<Longrightarrow> m' = m) \<Longrightarrow> Q () fs'"
  shows "fwp (open_trunc p m) Q E C fs"
  unfolding open_trunc_def
  by (rule fwp_syscall)
    (use assms in \<open>auto simp: same_on_def intro!: assms(3) split: option.splits node.splits\<close>)

lemma fwp_write_chunk:
  assumes "C fs" and "\<And>e. E (PathError ''write'' p e) fs"
    and "\<And>fs'. same_on (- {p}) fs fs' \<Longrightarrow>
           (\<And>m c. look fs p = Some (File m c) \<Longrightarrow> look fs' p = Some (File m (c @ b))) \<Longrightarrow>
           (\<not> is_file fs p \<Longrightarrow> fs' = fs) \<Longrightarrow> Q () fs'"
  shows "fwp (write_chunk p b) Q E C fs"
  unfolding write_chunk_def
  by (rule fwp_syscall)
    (use assms in \<open>auto simp: same_on_def is_file_look intro!: assms(3) split: option.splits node.splits\<close>)

lemma fwp_Write:
  assumes "\<And>fs'. same_on (- {p}) fs fs' \<Longrightarrow> C fs'"
    and "\<And>e fs'. same_on (- {p}) fs fs' \<Longrightarrow> E (PathError ''write'' p e) fs'"
    and "\<And>fs'. same_on (- {p}) fs fs' \<Longrightarrow>
           (\<And>m c. look fs p = Some (File m c) \<Longrightarrow> look fs' p = Some (File m (c @ b))) \<Longrightarrow> Q () fs'"
  shows "fwp (file_Write p b) Q E C fs"
proof -
  have "fwp (seq (write_chunk p (take n b)) (write_chunk p (drop n b))) Q E C fs" for n
  proof (intro fwp_seq fwp_write_chunk)
    fix fs1 fs2
    assume s1: "same_on (- {p}) fs fs1" and s2: "same_on (- {p}) fs1 fs2"
      and c1: "\<And>m c. look fs p = Some (File m c) \<Longrightarrow> look fs1 p = Some (File m (c @ take n b))"
      and c2: "\<And>m c. look fs1 p = Some (File m c) \<Longrightarrow> look fs2 p = Some (File m (c @ drop n b))"
    show "Q () fs2"
    proof (rule assms(3) [OF same_on_trans [OF s1 s2]])
      fix m c
      assume "look fs p = Some (File m c)"
      from c2 [OF c1 [OF this]] show "look fs2 p = Some (File m (c @ b))" by simp
    qed
  qed (use assms in auto)
  then show ?thesis
    by (subst file_Write_def [abs_def]) (simp only: Let_def, rule fwp_peek)
qed

lemma fwp_WriteFile:
  assumes "\<And>fs'. same_on (- {p}) fs fs' \<Longrightarrow> C fs'"
    and "\<And>e fs'. same_on (- {p}) fs fs' \<Longrightarrow> E e fs'"
    and "\<And>fs' m'. same_on (- {p}) fs fs' \<Longrightarrow> look fs' p = Some (File m' b) \<Longrightarrow>
           (look fs p = None \<Longrightarrow> m' = m) \<Longrightarrow> Q () fs'"
  shows "fwp (os_WriteFile p b m) Q E C fs"
  unfolding os_WriteFile_def
  by (intro fwp_seq fwp_open_trunc fwp_Write)
    (auto intro!: assms elim: same_on_trans)

lemma fwp_create_excl:
  assumes "C fs" and "\<And>e. E (PathError ''open'' p e) fs"
    and "\<And>fs'. look fs p = None \<Longrightarrow> same_on (- {p}) fs fs' \<Longrightarrow> look fs' p = Some n \<Longrightarrow> Q () fs'"
  shows "fwp (create_excl p n) Q E C fs"
  unfolding create_excl_def
  by (rule fwp_syscall)
    (use assms in \<open>auto simp: same_on_def intro!: assms(3) split: option.splits\<close>)

text \<open>The names a temporary file may get.\<close>

definition temp_names :: "path \<Rightarrow> string \<Rightarrow> path set" where
  "temp_names d pre = {d @ [pre @ itoa n] | n. True}"

lemma fwp_create_temp:
  assumes "C fs" and "\<And>e. E e fs"
    and "\<And>p fs'. p \<in> temp_names d pre \<Longrightarrow> look fs p = None \<Longrightarrow> same_on (- {p}) fs fs' \<Longrightarrow>
           look fs' p = Some n \<Longrightarrow> Q p fs'"
  shows "fwp (create_temp k d pre n :: ('e, path) io) Q E C fs"
proof (induction k)
  case 0
  then show ?case by (auto intro!: fwp_throw assms)
next
  case (Suc k)
  have "fwp (on_err (seq (create_excl (d @ [pre @ itoa r]) n) (ret (d @ [pre @ itoa r])))
       (\<lambda>e. if e = PathError ''open'' (d @ [pre @ itoa r]) EEXIST then create_temp k d pre n
            else throw e) :: ('e, path) io) Q E C fs" for r
    by (intro fwp_on_err fwp_seq fwp_create_excl fwp_if fwp_ret fwp_throw Suc assms(1,2))
      (auto intro!: assms(3) simp: temp_names_def)
  then show ?case by (auto simp: fwp_def wp_def Let_def)
qed

lemmas fwp_CreateTemp = fwp_create_temp [where k = 10000 and n = "File 0x180 []", folded os_CreateTemp_def]
lemmas fwp_MkdirTemp = fwp_create_temp [where k = 10000 and n = "Dir 0x1C0", folded os_MkdirTemp_def]

subsection \<open>Renaming\<close>

lemma fwp_Rename:
  assumes "C fs" and "\<And>e. E (LinkError ''rename'' a b e) fs"
    and "\<And>fs'. look fs a \<noteq> None \<Longrightarrow> \<not> is_dir fs b \<Longrightarrow> \<not> strict_prefix a b \<Longrightarrow>
           is_dir fs (butlast b) \<Longrightarrow> (is_dir fs a \<Longrightarrow> look fs b = None) \<Longrightarrow>
           (\<forall>q. look fs' q = look (if a = b then fs else rename_tree a b fs) q) \<Longrightarrow> Q () fs'"
  shows "fwp (os_Rename a b) Q E C fs"
  unfolding os_Rename_def
  by (rule fwp_syscall)
    (use assms in \<open>auto simp: parent_ok_None is_dir_look split: option.splits node.splits if_splits\<close>)

lemma fwp_exchange:
  assumes "C fs" and "\<And>e. E (SysErr e) fs"
    and "\<And>fs'. look fs a \<noteq> None \<Longrightarrow> look fs b \<noteq> None \<Longrightarrow> apart a b \<Longrightarrow>
           (\<forall>q. look fs' q = look (exchange_trees a b fs) q) \<Longrightarrow> Q () fs'"
  shows "fwp (renameat2_exchange a b) Q E C fs"
  unfolding renameat2_exchange_def
  by (rule fwp_syscall) (use assms in \<open>auto simp: apart_def split: if_splits\<close>)

section \<open>Footprints of the calls\<close>

text \<open>
  A call leaves every set of paths alone that its footprint does not meet. Together with the
  \<open>keeps\<close> rules of \<open>Go_Io\<close> this gives the footprint of any function built from them.
\<close>

lemma keeps_footprint:
  assumes "\<And>fs. fwp m (\<lambda>_ fs'. same_on Z fs fs') (\<lambda>_ fs'. same_on Z fs fs') (same_on Z fs) fs"
  shows "keeps (on_fs (same_on Z fs0)) m"
  by (rule keeps_fwp, rule fwp_mono [OF assms]) (auto elim: same_on_trans)

lemma keeps_Remove [keeps_rules]:
  "p \<notin> Z \<Longrightarrow> keeps (on_fs (same_on Z fs0)) (os_Remove p)"
  by (rule keeps_footprint, rule fwp_Remove) (auto simp: same_on_def)

lemma keeps_RemoveAll [keeps_rules]:
  "Z \<inter> below p = {} \<Longrightarrow> keeps (on_fs (same_on Z fs0)) (os_RemoveAll p)"
  by (rule keeps_footprint, rule fwp_RemoveAll) (auto dest: shrunk_same_on)

lemma keeps_MkdirAll [keeps_rules]:
  "p \<noteq> [] \<Longrightarrow> Z \<inter> above p = {} \<Longrightarrow> keeps (on_fs (same_on Z fs0)) (os_MkdirAll p m)"
  by (rule keeps_footprint, rule fwp_MkdirAll) (auto dest: grown_same_on)

lemma keeps_WriteFile [keeps_rules]:
  "p \<notin> Z \<Longrightarrow> keeps (on_fs (same_on Z fs0)) (os_WriteFile p b m)"
  by (rule keeps_footprint, rule fwp_WriteFile) (auto simp: same_on_def)

lemma keeps_Write [keeps_rules]:
  "p \<notin> Z \<Longrightarrow> keeps (on_fs (same_on Z fs0)) (file_Write p b)"
  by (rule keeps_footprint, rule fwp_Write) (auto simp: same_on_def)

lemma keeps_CreateTemp [keeps_rules]:
  "Z \<inter> temp_names d pre = {} \<Longrightarrow> keeps (on_fs (same_on Z fs0)) (os_CreateTemp d pre)"
  by (rule keeps_footprint, rule fwp_CreateTemp) (auto simp: same_on_def)

lemma keeps_MkdirTemp [keeps_rules]:
  "Z \<inter> temp_names d pre = {} \<Longrightarrow> keeps (on_fs (same_on Z fs0)) (os_MkdirTemp d pre)"
  by (rule keeps_footprint, rule fwp_MkdirTemp) (auto simp: same_on_def)

lemma keeps_Rename [keeps_rules]:
  "Z \<inter> below a = {} \<Longrightarrow> Z \<inter> below b = {} \<Longrightarrow> keeps (on_fs (same_on Z fs0)) (os_Rename a b)"
  by (rule keeps_footprint, rule fwp_Rename)
    (auto simp: same_on_def look_rename_tree strict_prefix_def disjoint_iff)

lemma keeps_exchange [keeps_rules]:
  "Z \<inter> below a = {} \<Longrightarrow> Z \<inter> below b = {} \<Longrightarrow>
   keeps (on_fs (same_on Z fs0)) (renameat2_exchange a b)"
  by (rule keeps_footprint, rule fwp_exchange)
    (auto simp: same_on_def look_exchange_trees_outside disjoint_iff)

section \<open>Well-formedness is an invariant\<close>

lemma wf_fs_cong: "(\<And>q. look fs' q = look fs q) \<Longrightarrow> wf_fs fs' = wf_fs fs"
  by (simp add: wf_fs_def is_dir_look)

lemma wf_fs_child: "wf_fs fs \<Longrightarrow> look fs (q @ [c]) = Some n \<Longrightarrow> is_dir fs q"
  unfolding wf_fs_def by blast

lemma wf_fs_remove_at:
  assumes "wf_fs fs" and "p \<noteq> []" and "is_dir fs p \<Longrightarrow> children fs p = []"
  shows "wf_fs (remove_at p fs)"
proof -
  have "is_dir (remove_at p fs) q" if c: "look (remove_at p fs) (q @ [c]) \<noteq> None" for q c
  proof -
    from c have c': "look fs (q @ [c]) \<noteq> None" by (auto split: if_splits)
    then have dir: "is_dir fs q" using wf_fs_child [OF assms(1)] by blast
    have "q \<noteq> p"
    proof
      assume "q = p"
      then have "c \<in> set (children fs p)" using c' by (simp add: in_children)
      with dir assms(3) \<open>q = p\<close> show False by simp
    qed
    then show ?thesis using dir by (simp add: is_dir_look)
  qed
  then show ?thesis using assms(1,2) by (simp add: wf_fs_def is_dir_look)
qed

lemma wf_fs_put:
  assumes "wf_fs fs" and "p \<noteq> []" and "is_dir fs (butlast p)" and "is_dir fs p \<Longrightarrow> \<exists>m. n = Dir m"
  shows "wf_fs (put p n t fs)"
proof -
  have "is_dir (put p n t fs) q" if c: "look (put p n t fs) (q @ [c]) \<noteq> None" for q c
  proof -
    have dir: "is_dir fs q"
    proof (cases "q @ [c] = p")
      case True
      then show ?thesis using assms(3) by auto
    next
      case False
      then show ?thesis using c wf_fs_child [OF assms(1)] by auto
    qed
    then show ?thesis using assms(4) by (auto simp: is_dir_look)
  qed
  then show ?thesis using assms(1,2) by (simp add: wf_fs_def is_dir_look)
qed

lemma rebase_snoc: "prefix b q \<Longrightarrow> rebase b a (q @ [c]) = rebase b a q @ [c]"
  by (auto simp: rebase_def prefix_def)

lemma wf_fs_rename_tree:
  assumes "wf_fs fs" and "b \<noteq> []" and "\<not> prefix a b" and "is_dir fs (butlast b)"
  shows "wf_fs (rename_tree a b fs)"
proof -
  note look = look_rename_tree [OF assms(3), of fs]
  have above: "\<not> prefix a (butlast b)" using assms(3) by (metis prefix_order.trans prefixeq_butlast)
  have dir: "is_dir (rename_tree a b fs) q" if c: "look (rename_tree a b fs) (q @ [c]) \<noteq> None" for q c
  proof (cases "prefix b q")
    case True
    then have "look fs (rebase b a q @ [c]) \<noteq> None"
      using c by (simp add: look prefix_appendI rebase_snoc)
    then have "is_dir fs (rebase b a q)" using wf_fs_child [OF assms(1)] by blast
    then show ?thesis using True by (simp add: look is_dir_look)
  next
    case False
    show ?thesis
    proof (cases "q @ [c] = b")
      case True
      then have "q = butlast b" by auto
      then show ?thesis using assms(2,4) above not_prefix_butlast [of b] by (simp add: look is_dir_look)
    next
      case nb: False
      then have "\<not> prefix b (q @ [c])" using False by simp
      then have "\<not> prefix a (q @ [c])" and "look fs (q @ [c]) \<noteq> None"
        using c by (auto simp: look split: if_splits)
      then have "is_dir fs q" and "\<not> prefix a q"
        using wf_fs_child [OF assms(1)] by auto
      then show ?thesis using False by (simp add: look is_dir_look)
    qed
  qed
  have "a \<noteq> []" using assms(3) by auto
  then have "is_dir (rename_tree a b fs) []"
    using assms(1,2) by (simp add: look is_dir_look wf_fs_def)
  with dir show ?thesis unfolding wf_fs_def by blast
qed

lemma exchange_path_butlast:
  assumes "apart a b" and "q @ [c] \<noteq> a" and "q @ [c] \<noteq> b"
  shows "exchange_path a b (q @ [c]) = exchange_path a b q @ [c]"
  using assms by (auto simp: exchange_path_def rebase_snoc)

lemma wf_fs_exchange_trees:
  assumes "wf_fs fs" and "apart a b" and "look fs a \<noteq> None" and "look fs b \<noteq> None"
  shows "wf_fs (exchange_trees a b fs)"
proof -
  note look = look_exchange_trees [OF assms(2), of fs]
  have ne: "a \<noteq> []" "b \<noteq> []" using assms(2) by (auto simp: apart_def)
  have root: "exchange_path a b [] = []" using ne by (simp add: exchange_path_def)
  have parent: "is_dir (exchange_trees a b fs) (butlast p)" if "p = a \<or> p = b" for p
  proof -
    have p: "p \<noteq> []" "look fs p \<noteq> None" using that assms(3,4) ne by auto
    then have dir: "is_dir fs (butlast p)"
      using wf_fs_child [OF assms(1), of "butlast p" "last p"] by auto
    have "\<not> prefix a (butlast p)" "\<not> prefix b (butlast p)"
      using that assms(2) ne not_prefix_butlast [of a] not_prefix_butlast [of b]
      by (auto simp: apart_def dest: prefix_order.trans [OF _ prefixeq_butlast])
    then show ?thesis using dir by (simp add: look is_dir_look exchange_path_def)
  qed
  have dir: "is_dir (exchange_trees a b fs) q"
    if c: "look (exchange_trees a b fs) (q @ [c]) \<noteq> None" for q c
  proof (cases "q @ [c] = a \<or> q @ [c] = b")
    case True
    then show ?thesis using parent [of "q @ [c]"] by auto
  next
    case False
    then have "look fs (exchange_path a b q @ [c]) \<noteq> None"
      using c exchange_path_butlast [OF assms(2)] by (auto simp: look)
    then have "is_dir fs (exchange_path a b q)" using wf_fs_child [OF assms(1)] by blast
    then show ?thesis by (simp add: look is_dir_look)
  qed
  have "is_dir (exchange_trees a b fs) []"
    using assms(1) root by (simp add: look is_dir_look wf_fs_def)
  with dir show ?thesis unfolding wf_fs_def by blast
qed

lemma keeps_wf_fwp:
  assumes "\<And>fs. wf_fs fs \<Longrightarrow> fwp m (\<lambda>_. wf_fs) (\<lambda>_. wf_fs) wf_fs fs"
  shows "keeps (on_fs wf_fs) m"
  using assms by (rule keeps_fwp)

lemma wf_fs_touch [simp]: "wf_fs (touch p t fs) = wf_fs fs"
  by (rule wf_fs_cong) simp

lemma wf_Remove [keeps_rules]: "keeps (on_fs wf_fs) (os_Remove p)"
proof (rule keeps_fwp)
  fix fs :: fsys
  assume wf: "wf_fs fs"
  then have root: "\<forall>m b. look fs [] \<noteq> Some (File m b)" by (auto simp: wf_fs_def is_dir_look)
  show "fwp (os_Remove p) (\<lambda>_. wf_fs) (\<lambda>_. wf_fs) wf_fs fs"
    unfolding os_Remove_def
    by (rule fwp_syscall)
      (use wf root in \<open>auto simp: is_dir_look intro!: wf_fs_remove_at split: option.splits node.splits if_splits\<close>)
qed

lemma wf_unlinkat [keeps_rules]: "keeps (on_fs wf_fs) (unlinkat p)"
proof (rule keeps_fwp)
  fix fs :: fsys
  assume wf: "wf_fs fs"
  then have root: "\<forall>m b. look fs [] \<noteq> Some (File m b)" by (auto simp: wf_fs_def is_dir_look)
  show "fwp (unlinkat p) (\<lambda>_. wf_fs) (\<lambda>_. wf_fs) wf_fs fs"
    unfolding unlinkat_def
    by (rule fwp_syscall)
      (use wf root in \<open>auto simp: is_dir_look intro!: wf_fs_remove_at split: option.splits node.splits if_splits\<close>)
qed

lemma keeps_unlink_list: "(\<And>p. keeps I (unlinkat p)) \<Longrightarrow> keeps I (unlink_list ps err)"
  by (induction ps arbitrary: err) (auto intro!: keeps_rules split: option.split)

lemma keeps_RemoveAll_inv:
  assumes "\<And>p. keeps I (unlinkat p)"
    and "\<And>mk b. keeps I (syscall mk (\<lambda>fs t. if miss fs p = ENOENT then Inr ((), fs) else Inl (miss fs p)) :: ('e, unit) io)"
  shows "keeps I (os_RemoveAll p :: ('e, unit) io)"
  using keeps_unlink_list [of I, OF assms(1)] assms(2)
  by (auto simp: keeps_def os_RemoveAll_def wp_def)

lemma wf_RemoveAll [keeps_rules]: "keeps (on_fs wf_fs) (os_RemoveAll p)"
  by (rule keeps_RemoveAll_inv, rule wf_unlinkat, rule keeps_syscall) (auto split: if_splits)

lemma wf_Mkdir [keeps_rules]: "keeps (on_fs wf_fs) (os_Mkdir p m)"
  unfolding os_Mkdir_def
  by (rule keeps_syscall)
    (auto intro!: wf_fs_put simp: parent_ok_None split: option.splits node.splits)

lemma keeps_mkdir_from: "(\<And>p. keeps I (os_Mkdir p m)) \<Longrightarrow> keeps I (mkdir_from p cs m)"
proof (induction cs arbitrary: p)
  case Nil
  then show ?case by (simp add: keeps_ret)
next
  case (Cons c cs)
  have "keeps I (seq (os_Mkdir (p @ [c]) m) (mkdir_from (p @ [c]) cs m))"
    and "keeps I (mkdir_from (p @ [c]) cs m)"
    by (intro keeps_rules Cons)+
  then show ?case
    by (auto simp: keeps_def wp_def throw_def split: option.split node.split)
qed

lemma keeps_MkdirAll_inv:
  assumes "\<And>p. keeps I (os_Mkdir p m)" and "keeps I (os_Stat p)"
  shows "keeps I (os_MkdirAll p m)"
  unfolding os_MkdirAll_def
  by (intro keeps_rules keeps_mkdir_from assms)
    (auto intro!: keeps_rules keeps_mkdir_from assms split: sum.split prod.split node.split)

lemma wf_MkdirAll [keeps_rules]: "keeps (on_fs wf_fs) (os_MkdirAll p m)"
  by (rule keeps_MkdirAll_inv) (rule keeps_rules)+

lemma wf_open_trunc [keeps_rules]: "keeps (on_fs wf_fs) (open_trunc p m)"
proof (rule keeps_fwp)
  fix fs :: fsys
  assume wf: "wf_fs fs"
  have "p \<noteq> [] \<and> is_dir fs (butlast p)" if "look fs p = Some (File k b)" for k b
  proof -
    have "p \<noteq> []" using that wf by (auto simp: wf_fs_def is_dir_look)
    then show ?thesis using that wf_fs_child [OF wf, of "butlast p" "last p"] by auto
  qed
  then show "fwp (open_trunc p m) (\<lambda>_. wf_fs) (\<lambda>_. wf_fs) wf_fs fs"
    unfolding open_trunc_def
    by (intro fwp_syscall)
      (use wf in \<open>auto intro!: wf_fs_put simp: parent_ok_None is_dir_look split: option.splits node.splits\<close>)
qed

lemma wf_write_chunk [keeps_rules]: "keeps (on_fs wf_fs) (write_chunk p b)"
proof (rule keeps_fwp)
  fix fs :: fsys
  assume wf: "wf_fs fs"
  have "p \<noteq> [] \<and> is_dir fs (butlast p)" if "look fs p = Some (File k b)" for k b
  proof -
    have "p \<noteq> []" using that wf by (auto simp: wf_fs_def is_dir_look)
    then show ?thesis using that wf_fs_child [OF wf, of "butlast p" "last p"] by auto
  qed
  then show "fwp (write_chunk p b) (\<lambda>_. wf_fs) (\<lambda>_. wf_fs) wf_fs fs"
    unfolding write_chunk_def
    by (intro fwp_syscall)
      (use wf in \<open>auto intro!: wf_fs_put simp: is_dir_look split: option.splits node.splits\<close>)
qed

lemma wf_Write [keeps_rules]: "keeps (on_fs wf_fs) (file_Write p b)"
proof -
  have "keeps (on_fs wf_fs) (seq (write_chunk p (take n b)) (write_chunk p (drop n b)))" for n
    by (intro keeps_rules)
  then show ?thesis
    by (subst file_Write_def [abs_def]) (simp only: Let_def, rule keeps_peek)
qed

lemma wf_WriteFile [keeps_rules]: "keeps (on_fs wf_fs) (os_WriteFile p b m)"
  unfolding os_WriteFile_def by (intro keeps_rules)

lemma wf_create_temp: "keeps (on_fs wf_fs) (create_temp k d pre n :: ('e, path) io)"
proof (induction k)
  case 0
  then show ?case by (simp add: keeps_throw)
next
  case (Suc k)
  have ex: "keeps (on_fs wf_fs) (create_excl p n)" for p
    unfolding create_excl_def
    by (rule keeps_syscall)
      (auto intro!: wf_fs_put simp: parent_ok_None is_dir_look split: option.splits node.splits)
  have "keeps (on_fs wf_fs) (on_err (seq (create_excl (d @ [pre @ itoa r]) n) (ret (d @ [pre @ itoa r])))
       (\<lambda>e. if e = PathError ''open'' (d @ [pre @ itoa r]) EEXIST then create_temp k d pre n
            else throw e) :: ('e, path) io)" for r
    by (intro keeps_rules ex Suc)
  then show ?case by (auto simp: keeps_def wp_def Let_def)
qed

lemma wf_CreateTemp [keeps_rules]: "keeps (on_fs wf_fs) (os_CreateTemp d pre)"
  unfolding os_CreateTemp_def by (rule wf_create_temp)

lemma wf_MkdirTemp [keeps_rules]: "keeps (on_fs wf_fs) (os_MkdirTemp d pre)"
  unfolding os_MkdirTemp_def by (rule wf_create_temp)

lemma wf_Rename [keeps_rules]: "keeps (on_fs wf_fs) (os_Rename a b)"
proof (rule keeps_fwp)
  fix fs :: fsys
  assume wf: "wf_fs fs"
  show "fwp (os_Rename a b) (\<lambda>_. wf_fs) (\<lambda>_. wf_fs) wf_fs fs"
  proof (rule fwp_Rename)
    fix fs'
    assume *: "look fs a \<noteq> None" "\<not> is_dir fs b" "\<not> strict_prefix a b" "is_dir fs (butlast b)"
      and fs': "\<forall>q. look fs' q = look (if a = b then fs else rename_tree a b fs) q"
    have "b \<noteq> []" using *(2) wf by (auto simp: wf_fs_def)
    then have "wf_fs (if a = b then fs else rename_tree a b fs)"
      using * wf by (auto intro!: wf_fs_rename_tree simp: strict_prefix_def)
    then show "wf_fs fs'" using fs' wf_fs_cong by blast
  qed (use wf in auto)
qed

lemma wf_exchange [keeps_rules]: "keeps (on_fs wf_fs) (renameat2_exchange a b)"
proof (rule keeps_fwp)
  fix fs :: fsys
  assume wf: "wf_fs fs"
  show "fwp (renameat2_exchange a b) (\<lambda>_. wf_fs) (\<lambda>_. wf_fs) wf_fs fs"
  proof (rule fwp_exchange)
    fix fs'
    assume *: "look fs a \<noteq> None" "look fs b \<noteq> None" "apart a b"
      and fs': "\<forall>q. look fs' q = look (exchange_trees a b fs) q"
    then show "wf_fs fs'" using wf_fs_exchange_trees [OF wf *(3,1,2)] wf_fs_cong by blast
  qed (use wf in auto)
qed

section \<open>Removing and making directories in a well-formed file system\<close>

lemma fwp_RemoveAll_wf:
  assumes "wf_fs fs"
    and "\<And>fs'. wf_fs fs' \<Longrightarrow> shrunk p fs fs' \<Longrightarrow> C fs'"
    and "\<And>e fs'. wf_fs fs' \<Longrightarrow> shrunk p fs fs' \<Longrightarrow> E e fs'"
    and "\<And>fs'. wf_fs fs' \<Longrightarrow> shrunk p fs fs' \<Longrightarrow> sub fs' p = no_tree \<Longrightarrow> Q () fs'"
  shows "fwp (os_RemoveAll p) Q E C fs"
  by (rule fwp_assuming [OF wf_RemoveAll assms(1)], rule fwp_RemoveAll) (use assms(2-4) in auto)

lemma fwp_MkdirAll_wf:
  assumes "wf_fs fs" and "p \<noteq> []"
    and "\<And>fs'. wf_fs fs' \<Longrightarrow> grown p m fs fs' \<Longrightarrow> C fs'"
    and "\<And>e fs'. wf_fs fs' \<Longrightarrow> grown p m fs fs' \<Longrightarrow> E e fs'"
    and "\<And>fs'. wf_fs fs' \<Longrightarrow> grown p m fs fs' \<Longrightarrow> is_dir fs' p \<Longrightarrow> Q () fs'"
  shows "fwp (os_MkdirAll p m) Q E C fs"
  by (rule fwp_assuming [OF wf_MkdirAll assms(1)], rule fwp_MkdirAll) (use assms(2-5) in auto)

end
