(* ===== verification/Layout.thy ===== *)
theory Layout
  imports Go_Os
begin

text \<open>
  \<open>internal/layout\<close>: every path picokube reads or writes, as one record, and the production
  value. \<open>layout_ok\<close> says what the other theories need of a layout: the trees a backup covers
  and the directory that holds the backups do not overlap. It holds of the production layout.
\<close>

record Layout =
  ConfigDir :: path
  ConfigFile :: path
  PicoKubeVarDir :: path
  StateDir :: path
  LastBootFile :: path
  LastEventFile :: path
  BackupsDir :: path
  RestoreMarker :: path
  KubernetesDir :: path
  PKIDir :: path
  EtcdPKIDir :: path
  ManifestsDir :: path
  KubeAPIServerManifest :: path
  AdminKubeconfig :: path
  KubeletKubeconfig :: path
  CMKubeconfig :: path
  SchedKubeconfig :: path
  SuperAdminKubeconfig :: path
  KubeletDir :: path
  KubeletConfigFile :: path
  KubeletFlagsEnvFile :: path
  EtcdDataDir :: path

definition Default :: Layout where
  "Default =
    (let configDir = ''/etc/picokube'';
         pkVarDir = ''/var/lib/picokube'';
         stateDir = pkVarDir @ ''/state'';
         backups = pkVarDir @ ''/backups'';
         kdir = ''/etc/kubernetes'';
         pki = kdir @ ''/pki'';
         etcd = pki @ ''/etcd'';
         mfs = kdir @ ''/manifests'';
         kubelet = ''/var/lib/kubelet''
     in \<lparr>
      ConfigDir = abs_path configDir,
      ConfigFile = abs_path (configDir @ ''/config.yaml''),
      PicoKubeVarDir = abs_path pkVarDir,
      StateDir = abs_path stateDir,
      LastBootFile = abs_path (stateDir @ ''/last-boot.json''),
      LastEventFile = abs_path (stateDir @ ''/last-event''),
      BackupsDir = abs_path backups,
      RestoreMarker = abs_path (backups @ ''/restore''),
      KubernetesDir = abs_path kdir,
      PKIDir = abs_path pki,
      EtcdPKIDir = abs_path etcd,
      ManifestsDir = abs_path mfs,
      KubeAPIServerManifest = abs_path (mfs @ ''/kube-apiserver.yaml''),
      AdminKubeconfig = abs_path (kdir @ ''/admin.conf''),
      KubeletKubeconfig = abs_path (kdir @ ''/kubelet.conf''),
      CMKubeconfig = abs_path (kdir @ ''/controller-manager.conf''),
      SchedKubeconfig = abs_path (kdir @ ''/scheduler.conf''),
      SuperAdminKubeconfig = abs_path (kdir @ ''/super-admin.conf''),
      KubeletDir = abs_path kubelet,
      KubeletConfigFile = abs_path (kubelet @ ''/config.yaml''),
      KubeletFlagsEnvFile = abs_path (kubelet @ ''/kubeadm-flags.env''),
      EtcdDataDir = abs_path ''/var/lib/etcd'' \<rparr>)"

lemma Default_eq:
  "Default = \<lparr>
    ConfigDir = [''etc'', ''picokube''],
    ConfigFile = [''etc'', ''picokube'', ''config.yaml''],
    PicoKubeVarDir = [''var'', ''lib'', ''picokube''],
    StateDir = [''var'', ''lib'', ''picokube'', ''state''],
    LastBootFile = [''var'', ''lib'', ''picokube'', ''state'', ''last-boot.json''],
    LastEventFile = [''var'', ''lib'', ''picokube'', ''state'', ''last-event''],
    BackupsDir = [''var'', ''lib'', ''picokube'', ''backups''],
    RestoreMarker = [''var'', ''lib'', ''picokube'', ''backups'', ''restore''],
    KubernetesDir = [''etc'', ''kubernetes''],
    PKIDir = [''etc'', ''kubernetes'', ''pki''],
    EtcdPKIDir = [''etc'', ''kubernetes'', ''pki'', ''etcd''],
    ManifestsDir = [''etc'', ''kubernetes'', ''manifests''],
    KubeAPIServerManifest = [''etc'', ''kubernetes'', ''manifests'', ''kube-apiserver.yaml''],
    AdminKubeconfig = [''etc'', ''kubernetes'', ''admin.conf''],
    KubeletKubeconfig = [''etc'', ''kubernetes'', ''kubelet.conf''],
    CMKubeconfig = [''etc'', ''kubernetes'', ''controller-manager.conf''],
    SchedKubeconfig = [''etc'', ''kubernetes'', ''scheduler.conf''],
    SuperAdminKubeconfig = [''etc'', ''kubernetes'', ''super-admin.conf''],
    KubeletDir = [''var'', ''lib'', ''kubelet''],
    KubeletConfigFile = [''var'', ''lib'', ''kubelet'', ''config.yaml''],
    KubeletFlagsEnvFile = [''var'', ''lib'', ''kubelet'', ''kubeadm-flags.env''],
    EtcdDataDir = [''var'', ''lib'', ''etcd''] \<rparr>"
  by (simp add: Default_def abs_path_def Join_def)

lemma Default_simps [simp]:
  "ConfigDir Default = [''etc'', ''picokube'']"
  "ConfigFile Default = [''etc'', ''picokube'', ''config.yaml'']"
  "PicoKubeVarDir Default = [''var'', ''lib'', ''picokube'']"
  "StateDir Default = [''var'', ''lib'', ''picokube'', ''state'']"
  "LastBootFile Default = [''var'', ''lib'', ''picokube'', ''state'', ''last-boot.json'']"
  "LastEventFile Default = [''var'', ''lib'', ''picokube'', ''state'', ''last-event'']"
  "BackupsDir Default = [''var'', ''lib'', ''picokube'', ''backups'']"
  "RestoreMarker Default = [''var'', ''lib'', ''picokube'', ''backups'', ''restore'']"
  "KubernetesDir Default = [''etc'', ''kubernetes'']"
  "PKIDir Default = [''etc'', ''kubernetes'', ''pki'']"
  "EtcdPKIDir Default = [''etc'', ''kubernetes'', ''pki'', ''etcd'']"
  "ManifestsDir Default = [''etc'', ''kubernetes'', ''manifests'']"
  "KubeAPIServerManifest Default = [''etc'', ''kubernetes'', ''manifests'', ''kube-apiserver.yaml'']"
  "AdminKubeconfig Default = [''etc'', ''kubernetes'', ''admin.conf'']"
  "KubeletKubeconfig Default = [''etc'', ''kubernetes'', ''kubelet.conf'']"
  "CMKubeconfig Default = [''etc'', ''kubernetes'', ''controller-manager.conf'']"
  "SchedKubeconfig Default = [''etc'', ''kubernetes'', ''scheduler.conf'']"
  "SuperAdminKubeconfig Default = [''etc'', ''kubernetes'', ''super-admin.conf'']"
  "KubeletDir Default = [''var'', ''lib'', ''kubelet'']"
  "KubeletConfigFile Default = [''var'', ''lib'', ''kubelet'', ''config.yaml'']"
  "KubeletFlagsEnvFile Default = [''var'', ''lib'', ''kubelet'', ''kubeadm-flags.env'']"
  "EtcdDataDir Default = [''var'', ''lib'', ''etcd'']"
  by (simp_all add: Default_eq)

section \<open>Disjoint places\<close>

text \<open>
  The four places a restore works on, with the staging names it derives from the first three:
  no one lies under another.
\<close>

definition restoring :: "path \<Rightarrow> path" where
  "restoring p = path_suffix p ''.restoring''"

fun pairwise_apart :: "path list \<Rightarrow> bool" where
  "pairwise_apart [] = True"
| "pairwise_apart (p # ps) = ((\<forall>q\<in>set ps. apart p q) \<and> pairwise_apart ps)"

definition layout_ok :: "Layout \<Rightarrow> bool" where
  "layout_ok l \<longleftrightarrow>
     pairwise_apart [EtcdDataDir l, restoring (EtcdDataDir l),
                     KubernetesDir l, restoring (KubernetesDir l),
                     KubeletDir l, PicoKubeVarDir l] \<and>
     prefix (PicoKubeVarDir l) (BackupsDir l) \<and>
     prefix (PicoKubeVarDir l) (StateDir l) \<and> apart (BackupsDir l) (StateDir l) \<and>
     LastBootFile l \<noteq> LastEventFile l \<and>
     butlast (LastBootFile l) = StateDir l \<and> butlast (LastEventFile l) = StateDir l \<and>
     LastBootFile l \<noteq> [] \<and> LastEventFile l \<noteq> [] \<and>
     \<not> prefix ''.tmp-'' (last (LastBootFile l)) \<and> \<not> prefix ''.tmp-'' (last (LastEventFile l)) \<and>
     RestoreMarker l = BackupsDir l @ [''restore''] \<and>
     Dir_of (EtcdDataDir l) \<noteq> [] \<and> Dir_of (KubernetesDir l) \<noteq> []"

lemma layout_ok_Default [simp]: "layout_ok Default"
  by (simp add: layout_ok_def restoring_def path_suffix_def apart_def Dir_of_def)

lemma layout_okD:
  assumes "layout_ok l"
  shows "apart (EtcdDataDir l) (KubernetesDir l)" "apart (EtcdDataDir l) (KubeletDir l)"
    "apart (KubernetesDir l) (KubeletDir l)"
    "apart (EtcdDataDir l) (BackupsDir l)" "apart (KubernetesDir l) (BackupsDir l)"
    "apart (KubeletDir l) (BackupsDir l)"
    "apart (restoring (EtcdDataDir l)) (EtcdDataDir l)"
    "apart (restoring (EtcdDataDir l)) (KubernetesDir l)"
    "apart (restoring (EtcdDataDir l)) (KubeletDir l)"
    "apart (restoring (EtcdDataDir l)) (BackupsDir l)"
    "apart (restoring (KubernetesDir l)) (KubernetesDir l)"
    "apart (restoring (KubernetesDir l)) (EtcdDataDir l)"
    "apart (restoring (KubernetesDir l)) (KubeletDir l)"
    "apart (restoring (KubernetesDir l)) (BackupsDir l)"
    "EtcdDataDir l \<noteq> []" "KubernetesDir l \<noteq> []" "KubeletDir l \<noteq> []" "BackupsDir l \<noteq> []"
    "StateDir l \<noteq> []" "apart (BackupsDir l) (StateDir l)"
    "Dir_of (EtcdDataDir l) \<noteq> []" "Dir_of (KubernetesDir l) \<noteq> []"
proof -
  have pb: "prefix (PicoKubeVarDir l) (BackupsDir l)" and ps: "prefix (PicoKubeVarDir l) (StateDir l)"
    using assms by (auto simp: layout_ok_def)
  have "apart p (BackupsDir l)" if "apart p (PicoKubeVarDir l)" for p
    using apart_prefix [OF that prefix_order.refl pb] .
  then show "apart (EtcdDataDir l) (BackupsDir l)" "apart (KubernetesDir l) (BackupsDir l)"
    "apart (KubeletDir l) (BackupsDir l)" "apart (restoring (EtcdDataDir l)) (BackupsDir l)"
    "apart (restoring (KubernetesDir l)) (BackupsDir l)"
    using assms by (auto simp: layout_ok_def)
  show "apart (EtcdDataDir l) (KubernetesDir l)" "apart (EtcdDataDir l) (KubeletDir l)"
    "apart (KubernetesDir l) (KubeletDir l)"
    "apart (restoring (EtcdDataDir l)) (EtcdDataDir l)"
    "apart (restoring (EtcdDataDir l)) (KubernetesDir l)"
    "apart (restoring (EtcdDataDir l)) (KubeletDir l)"
    "apart (restoring (KubernetesDir l)) (KubernetesDir l)"
    "apart (restoring (KubernetesDir l)) (EtcdDataDir l)"
    "apart (restoring (KubernetesDir l)) (KubeletDir l)"
    using assms by (auto simp: layout_ok_def intro: apart_sym)
  show "EtcdDataDir l \<noteq> []" "KubernetesDir l \<noteq> []" "KubeletDir l \<noteq> []"
    "BackupsDir l \<noteq> []" "StateDir l \<noteq> []" "apart (BackupsDir l) (StateDir l)"
    "Dir_of (EtcdDataDir l) \<noteq> []" "Dir_of (KubernetesDir l) \<noteq> []"
    using assms by (auto simp: layout_ok_def apart_def)
qed

section \<open>A sample machine\<close>

text \<open>A node under the production layout with one backup, for the concrete instances.\<close>

definition node_fs :: fsys where
  "node_fs =
    [([], Dir 0x1ED, 0), ([''var''], Dir 0x1ED, 0), ([''var'', ''lib''], Dir 0x1ED, 0),
     ([''etc''], Dir 0x1ED, 0),
     ([''var'', ''lib'', ''etcd''], Dir 0x1C0, 1), ([''var'', ''lib'', ''etcd'', ''db''], File 0x180 ''live'', 2),
     ([''etc'', ''kubernetes''], Dir 0x1ED, 3), ([''etc'', ''kubernetes'', ''admin.conf''], File 0x180 ''adm'', 3),
     ([''var'', ''lib'', ''kubelet''], Dir 0x1ED, 4),
     ([''var'', ''lib'', ''kubelet'', ''config.yaml''], File 0x1A4 ''kc'', 4),
     ([''var'', ''lib'', ''picokube''], Dir 0x1ED, 5), ([''var'', ''lib'', ''picokube'', ''backups''], Dir 0x1C0, 6),
     ([''var'', ''lib'', ''picokube'', ''backups'', ''d.0_b1''], Dir 0x1C0, 7),
     ([''var'', ''lib'', ''picokube'', ''backups'', ''d.0_b1'', ''etcd''], Dir 0x1C0, 7),
     ([''var'', ''lib'', ''picokube'', ''backups'', ''d.0_b1'', ''etcd'', ''db''], File 0x180 ''saved'', 7)]"

lemma wf_node_fs [simp]: "wf_fs node_fs"
  by code_simp

end
