(* ===== verification/Atomic.thy ===== *)
theory Atomic
  imports Go_Os
begin

text \<open>
  \<open>internal/atomic\<close>: swapping a staged directory with the live one. The contract its clients
  rely on (\<open>restoreDir\<close> of the backup package, \<open>RegenerateCA\<close> of the certificate package) is
  the locale \<open>dir_swap\<close>: at every moment, a power loss included, the live path holds the whole
  old or the whole staged tree.
\<close>

section \<open>Operations\<close>

definition SyncParent :: "path \<Rightarrow> ('e, unit) io" where
  "SyncParent p =
     seq (wrapf (''open parent of '' @ path_text p) (os_Open (Dir_of p)))
       (deferred (file_Close (Dir_of p))
         (wrapf (''fsync parent of '' @ path_text p) (file_Sync (Dir_of p))))"

definition SwapDir :: "path \<Rightarrow> path \<Rightarrow> ('e, unit) io" where
  "SwapDir stage live =
     bind (attempt (os_Stat live)) (\<lambda>r. case r of
       Inl e \<Rightarrow>
         if ErrNotExist e
         then seq (wrapf (''rename '' @ path_text stage @ '' -> '' @ path_text live)
                     (os_Rename stage live))
                  (SyncParent live)
         else throw (Wrapf (''stat '' @ path_text live) e)
     | Inr _ \<Rightarrow>
         seq (wrapf (''renameat2 EXCHANGE '' @ path_text stage @ '' <-> '' @ path_text live)
                (renameat2_exchange stage live))
             (SyncParent live))"

lemma fwp_SyncParent [fwp_rules]:
  assumes "C fs" and "\<And>e. E e fs" and "Q () fs"
  shows "fwp (SyncParent p) Q E C fs"
  unfolding SyncParent_def
  by (intro fwp_rules fwp_Open fwp_Sync fwp_Close assms)

lemma keeps_SyncParent [keeps_rules]: "keeps (on_fs P) (SyncParent p)"
  by (rule keeps_fwp) (rule fwp_SyncParent)

lemma wf_SwapDir [keeps_rules]: "keeps (on_fs wf_fs) (SwapDir stage live)"
  unfolding SwapDir_def by (intro keeps_rules)

lemma keeps_SwapDir [keeps_rules]:
  "Z \<inter> below stage = {} \<Longrightarrow> Z \<inter> below live = {} \<Longrightarrow>
   keeps (on_fs (same_on Z fs0)) (SwapDir stage live)"
  unfolding SwapDir_def by (intro keeps_rules)

section \<open>The contract\<close>

text \<open>The two trees have changed places and nothing else has changed.\<close>

definition swapped :: "path \<Rightarrow> path \<Rightarrow> fsys \<Rightarrow> fsys \<Rightarrow> bool" where
  "swapped stage live fs fs' \<longleftrightarrow>
     sub fs' live = sub fs stage \<and> sub fs' stage = sub fs live \<and>
     same_on (- (below stage \<union> below live)) fs fs'"

definition unchanged :: "fsys \<Rightarrow> fsys \<Rightarrow> bool" where
  "unchanged fs fs' \<longleftrightarrow> (\<forall>q. look fs' q = look fs q)"

lemma unchanged_refl [simp]: "unchanged fs fs"
  by (simp add: unchanged_def)

lemma unchanged_sub: "unchanged fs fs' \<Longrightarrow> sub fs' p = sub fs p"
  by (simp add: unchanged_def sub_def)

lemma unchanged_same_on: "unchanged fs fs' \<Longrightarrow> same_on Z fs fs'"
  by (simp add: unchanged_def same_on_def)

locale dir_swap =
  fixes swap :: "path \<Rightarrow> path \<Rightarrow> ('e, unit) io"
  assumes swap_outcome: "\<And>stage live fs. wf_fs fs \<Longrightarrow> apart stage live \<Longrightarrow>
    fwp (swap stage live)
      (\<lambda>_ fs'. look fs stage \<noteq> None \<and> swapped stage live fs fs')
      (\<lambda>_ fs'. unchanged fs fs' \<or> swapped stage live fs fs')
      (\<lambda>fs'. unchanged fs fs' \<or> swapped stage live fs fs') fs"
begin

lemma swap_rule:
  assumes "wf_fs fs" "apart stage live"
    and "\<And>fs'. unchanged fs fs' \<Longrightarrow> C fs' \<and> (\<forall>e. E e fs')"
    and "\<And>fs'. swapped stage live fs fs' \<Longrightarrow> C fs' \<and> (\<forall>e. E e fs')"
    and "\<And>fs'. swapped stage live fs fs' \<Longrightarrow> look fs stage \<noteq> None \<Longrightarrow> Q () fs'"
  shows "fwp (swap stage live) Q E C fs"
  by (rule fwp_mono [OF swap_outcome [OF assms(1,2)]]) (use assms(3-5) in auto)

text \<open>
  Preparing a staged tree and swapping it in. As long as the preparation stays below the staging
  path, the live tree is the old one or the prepared one whatever happens, and nothing beside
  the two paths changes.
\<close>

lemma swap_in:
  assumes apart: "apart stage live"
    and prep: "fwp prep (\<lambda>_ fs'. wf_fs fs' \<and> same_on (- below stage) fs fs' \<and> T (sub fs' stage))
                 (\<lambda>_. same_on (- below stage) fs) (same_on (- below stage) fs) fs"
  shows "fwp (seq prep (swap stage live))
      (\<lambda>_ fs'. T (sub fs' live) \<and> sub fs' stage = sub fs live \<and>
              same_on (- (below stage \<union> below live)) fs fs')
      (\<lambda>_ fs'. (sub fs' live = sub fs live \<or> T (sub fs' live)) \<and>
              same_on (- (below stage \<union> below live)) fs fs')
      (\<lambda>fs'. (sub fs' live = sub fs live \<or> T (sub fs' live)) \<and>
              same_on (- (below stage \<union> below live)) fs fs') fs"
proof -
  have live: "sub fs1 live = sub fs live" if "same_on (- below stage) fs fs1" for fs1
    using that below_subset_Compl [OF apart] by (rule same_on_sub)
  have wide: "same_on (- (below stage \<union> below live)) fs fs1" if "same_on (- below stage) fs fs1" for fs1
    using that by (rule same_on_mono) auto
  have sw: "T (sub fs' live) \<and> sub fs' stage = sub fs live \<and>
            same_on (- (below stage \<union> below live)) fs fs'"
    if "same_on (- below stage) fs fs1" and "T (sub fs1 stage)" and "swapped stage live fs1 fs'" for fs1 fs'
    using that live [OF that(1)] same_on_trans [OF wide [OF that(1)]] by (simp add: swapped_def)
  have un: "sub fs' live = sub fs live \<and> same_on (- (below stage \<union> below live)) fs fs'"
    if "same_on (- below stage) fs fs1" and "unchanged fs1 fs'" for fs1 fs'
    using unchanged_sub [OF that(2)] live [OF that(1)]
      same_on_trans [OF wide [OF that(1)] unchanged_same_on [OF that(2)]] by simp
  have step: "fwp (swap stage live)
      (\<lambda>_ fs'. T (sub fs' live) \<and> sub fs' stage = sub fs live \<and>
              same_on (- (below stage \<union> below live)) fs fs')
      (\<lambda>_ fs'. (sub fs' live = sub fs live \<or> T (sub fs' live)) \<and>
              same_on (- (below stage \<union> below live)) fs fs')
      (\<lambda>fs'. (sub fs' live = sub fs live \<or> T (sub fs' live)) \<and>
              same_on (- (below stage \<union> below live)) fs fs') fs1"
    if "wf_fs fs1" and same: "same_on (- below stage) fs fs1" and T: "T (sub fs1 stage)" for fs1
    by (rule fwp_mono [OF swap_outcome [OF that(1) apart]])
      (use sw [OF same T] un [OF same] in blast)+
  show ?thesis
    by (rule fwp_seq, rule fwp_mono [OF prep]) (use step live wide in blast)+
qed

end

section \<open>SwapDir meets it\<close>

lemma swapped_exchange:
  assumes "apart stage live" and "\<forall>q. look fs' q = look (exchange_trees stage live fs) q"
  shows "swapped stage live fs fs'"
  using assms sub_exchange_trees [OF assms(1), of fs]
  by (auto simp: swapped_def same_on_def look_exchange_trees_outside sub_def)

lemma swapped_rename:
  assumes "wf_fs fs" and "apart stage live" and "look fs live = None"
    and "\<forall>q. look fs' q = look (rename_tree stage live fs) q"
  shows "swapped stage live fs fs'"
proof -
  have np: "\<not> prefix stage live" using assms(2) by (simp add: apart_def)
  have "sub fs' p = sub (rename_tree stage live fs) p" for p
    using assms(4) by (simp add: sub_def)
  then have "sub fs' live = sub fs stage" "sub fs' stage = sub fs live"
    using np assms(1-3) by (simp_all add: sub_rename_tree_dst sub_rename_tree_src wf_fs_absent_tree)
  then show ?thesis
    using assms(4) np by (simp add: swapped_def same_on_def look_rename_tree)
qed

interpretation swapdir: dir_swap SwapDir
proof unfold_locales
  fix stage live :: path and fs :: fsys
  assume wf: "wf_fs fs" and apart: "apart stage live"
  have ne: "stage \<noteq> live" using apart by auto
  show "fwp (SwapDir stage live)
      (\<lambda>_ fs'. look fs stage \<noteq> None \<and> swapped stage live fs fs')
      (\<lambda>_ fs'. unchanged fs fs' \<or> swapped stage live fs fs')
      (\<lambda>fs'. unchanged fs fs' \<or> swapped stage live fs fs') fs"
    unfolding SwapDir_def
    by (intro fwp_bind fwp_attempt fwp_Stat fwp_case_sum fwp_if fwp_seq fwp_wrapf fwp_throw
        fwp_Rename fwp_exchange fwp_SyncParent)
      (use ne wf apart in \<open>auto simp: look_def intro: swapped_exchange swapped_rename\<close>)
qed

end
