(* ===== verification/Copy_Tree.thy ===== *)
theory Copy_Tree
  imports Layout Atomic
begin

text \<open>
  The copying layer of \<open>internal/backup\<close>: \<open>runCp\<close>, \<open>copyTree\<close>, \<open>copyFile\<close>, their
  "if it exists" variants, \<open>restoreDir\<close> and \<open>replaceFile\<close>. The copies are made by the
  external program \<open>cp\<close>, which is a parameter of every definition; what the code relies on is
  the locale \<open>cp_tool\<close>. The locale is interpreted on \<open>cp_ref\<close>, a copier that goes node by node
  through the system calls and may be stopped after any of them.
\<close>

section \<open>The external program\<close>

text \<open>Its arguments are the flags, the source and the destination; an exit status other than 0 is an error.\<close>

type_synonym 'e cp = "string list \<Rightarrow> path \<Rightarrow> path \<Rightarrow> ('e, unit) io"

definition tree_flags :: "string list" where
  "tree_flags = [''--recursive'', ''--no-target-directory'',
                 ''--preserve=mode,ownership,timestamps,links'', ''--reflink=auto'']"

definition file_flags :: "string list" where
  "file_flags = [''--preserve=mode,ownership,timestamps,links'', ''--reflink=auto'']"

text \<open>
  \<open>cp --recursive --no-target-directory\<close> onto a free name makes a copy of the tree; \<open>cp\<close> without
  \<open>--recursive\<close> copies a file over a file or onto a free name and refuses a directory. Whatever
  happens, nothing outside the destination changes.
\<close>

locale cp_tool =
  fixes cp :: "'e cp"
  assumes cp_tree: "\<And>src dst fs. wf_fs fs \<Longrightarrow> apart src dst \<Longrightarrow> look fs dst = None \<Longrightarrow>
      fwp (cp tree_flags src dst) (\<lambda>_ fs'. look fs src \<noteq> None \<and> sub fs' dst = sub fs src)
        (\<lambda>_ _. True) (\<lambda>_. True) fs"
    and cp_file: "\<And>src dst fs. wf_fs fs \<Longrightarrow> apart src dst \<Longrightarrow> \<not> is_dir fs dst \<Longrightarrow>
      fwp (cp file_flags src dst) (\<lambda>_ fs'. is_file fs src \<and> look fs' dst = look fs src)
        (\<lambda>_ _. True) (\<lambda>_. True) fs"
    and cp_frame: "\<And>flags src dst Z fs. Z \<inter> below dst = {} \<Longrightarrow>
      keeps (on_fs (same_on Z fs)) (cp flags src dst)"
    and cp_wf: "\<And>flags src dst. keeps (on_fs wf_fs) (cp flags src dst)"

definition runCp :: "'e cp \<Rightarrow> path \<Rightarrow> path \<Rightarrow> string list \<Rightarrow> ('e, unit) io" where
  "runCp cp src dst flags =
     wrapf (''cp '' @ concat (map (\<lambda>f. f @ '' '') flags) @ path_text src @ '' '' @ path_text dst)
       (cp flags src dst)"

definition copyTree :: "'e cp \<Rightarrow> path \<Rightarrow> path \<Rightarrow> ('e, unit) io" where
  "copyTree cp src dst = runCp cp src dst tree_flags"

definition copyFile :: "'e cp \<Rightarrow> path \<Rightarrow> path \<Rightarrow> ('e, unit) io" where
  "copyFile cp src dst = runCp cp src dst file_flags"

definition copyDirIfExists :: "'e cp \<Rightarrow> path \<Rightarrow> path \<Rightarrow> ('e, unit) io" where
  "copyDirIfExists cp src dst =
     bind (attempt (os_Stat src)) (\<lambda>r. case r of
       Inl e \<Rightarrow> if ErrNotExist e then ret () else throw e
     | Inr _ \<Rightarrow> copyTree cp src dst)"

definition copyFileIfExists :: "'e cp \<Rightarrow> path \<Rightarrow> path \<Rightarrow> ('e, unit) io" where
  "copyFileIfExists cp src dst =
     bind (attempt (os_Stat src)) (\<lambda>r. case r of
       Inl e \<Rightarrow> if ErrNotExist e then ret () else throw e
     | Inr _ \<Rightarrow> seq (os_MkdirAll (Dir_of dst) 0x1C0) (copyFile cp src dst))"

definition restoreDir :: "'e cp \<Rightarrow> path \<Rightarrow> path \<Rightarrow> ('e, unit) io" where
  "restoreDir cp src dst =
     bind (attempt (os_Stat src)) (\<lambda>r. case r of
       Inl e \<Rightarrow>
         if ErrNotExist e
         then wrapf (''remove live '' @ path_text dst) (os_RemoveAll dst)
         else throw e
     | Inr _ \<Rightarrow>
         seq (os_MkdirAll (Dir_of dst) 0x1ED)
           (let staged = path_suffix dst ''.restoring'' in
            seq (os_RemoveAll staged)
             (seq (on_err (copyTree cp src staged)
                    (\<lambda>e. seq (ignore (os_RemoveAll staged)) (throw e)))
               (seq (on_err (SwapDir staged dst)
                      (\<lambda>e. seq (ignore (os_RemoveAll staged)) (throw e)))
                 (wrapf (''remove displaced live '' @ path_text staged)
                   (os_RemoveAll staged))))))"

definition replaceFile :: "'e cp \<Rightarrow> path \<Rightarrow> path \<Rightarrow> ('e, unit) io" where
  "replaceFile cp src dst =
     seq (os_MkdirAll (Dir_of dst) 0x1ED)
       (let staged = path_suffix dst ''.restoring'' in
        seq (on_err (os_Remove staged) (\<lambda>e. if ErrNotExist e then ret () else throw e))
          (seq (on_err (copyFile cp src staged)
                 (\<lambda>e. seq (ignore (os_Remove staged)) (throw e)))
            (os_Rename staged dst)))"

section \<open>What the copies promise\<close>

context cp_tool begin

lemma wf_copies [keeps_rules]:
  "keeps (on_fs wf_fs) (copyTree cp src dst)" "keeps (on_fs wf_fs) (copyFile cp src dst)"
  "keeps (on_fs wf_fs) (copyDirIfExists cp src dst)" "keeps (on_fs wf_fs) (copyFileIfExists cp src dst)"
  unfolding copyTree_def copyFile_def runCp_def copyDirIfExists_def copyFileIfExists_def
  by (intro keeps_rules cp_wf)+

lemma wf_restoreDir: "keeps (on_fs wf_fs) (restoreDir cp src dst)"
  unfolding restoreDir_def Let_def by (intro keeps_rules wf_copies)

lemma wf_replaceFile: "keeps (on_fs wf_fs) (replaceFile cp src dst)"
  unfolding replaceFile_def Let_def by (intro keeps_rules wf_copies)

lemma keeps_copyTree: "Z \<inter> below dst = {} \<Longrightarrow> keeps (on_fs (same_on Z fs)) (copyTree cp src dst)"
  unfolding copyTree_def runCp_def by (intro keeps_rules cp_frame)

lemma keeps_copyFile: "Z \<inter> below dst = {} \<Longrightarrow> keeps (on_fs (same_on Z fs)) (copyFile cp src dst)"
  unfolding copyFile_def runCp_def by (intro keeps_rules cp_frame)

lemma fwp_copyTree:
  assumes "wf_fs fs" "apart src dst" "look fs dst = None"
    and "\<And>fs'. same_on (- below dst) fs fs' \<Longrightarrow> wf_fs fs' \<Longrightarrow> C fs'"
    and "\<And>e fs'. same_on (- below dst) fs fs' \<Longrightarrow> wf_fs fs' \<Longrightarrow> E e fs'"
    and "\<And>fs'. same_on (- below dst) fs fs' \<Longrightarrow> wf_fs fs' \<Longrightarrow> look fs src \<noteq> None \<Longrightarrow>
           sub fs' dst = sub fs src \<Longrightarrow> Q () fs'"
  shows "fwp (copyTree cp src dst) Q E C fs"
  by (rule fwp_assuming [OF wf_copies(1) assms(1)],
      rule fwp_assuming [OF keeps_copyTree [where Z = "- below dst"], OF _ same_on_refl],
      simp, unfold copyTree_def runCp_def, intro fwp_wrapf, rule fwp_mono [OF cp_tree [OF assms(1-3)]])
    (use assms(4-6) in auto)

lemma fwp_copyFile:
  assumes "wf_fs fs" "apart src dst" "\<not> is_dir fs dst"
    and "\<And>fs'. same_on (- below dst) fs fs' \<Longrightarrow> wf_fs fs' \<Longrightarrow> C fs'"
    and "\<And>e fs'. same_on (- below dst) fs fs' \<Longrightarrow> wf_fs fs' \<Longrightarrow> E e fs'"
    and "\<And>fs'. same_on (- below dst) fs fs' \<Longrightarrow> wf_fs fs' \<Longrightarrow> is_file fs src \<Longrightarrow>
           look fs' dst = look fs src \<Longrightarrow> Q () fs'"
  shows "fwp (copyFile cp src dst) Q E C fs"
  by (rule fwp_assuming [OF wf_copies(2) assms(1)],
      rule fwp_assuming [OF keeps_copyFile [where Z = "- below dst"], OF _ same_on_refl],
      simp, unfold copyFile_def runCp_def, intro fwp_wrapf, rule fwp_mono [OF cp_file [OF assms(1-3)]])
    (use assms(4-6) in auto)

end

section \<open>Restoring a directory\<close>

text \<open>
  What \<open>restoreDir src dst\<close> may touch: the target, its staging sibling, and missing directories
  above the target.
\<close>

definition restore_area :: "path \<Rightarrow> path set" where
  "restore_area dst = below dst \<union> below (path_suffix dst ''.restoring'') \<union> above dst"

lemma restore_area_src:
  assumes "apart src dst" "apart src (path_suffix dst ''.restoring'')"
  shows "below src \<inter> restore_area dst = {}"
  using assms below_apart [of src dst] below_apart [of src "path_suffix dst ''.restoring''"]
    prefix_order.trans [of src _ dst] by (auto simp: restore_area_def apart_def)

lemma restore_grown:
  assumes "grown (Dir_of dst) m fs fs'" "dst \<noteq> []"
  shows "sub fs' dst = sub fs dst" "same_on (- restore_area dst) fs fs'"
proof -
  have same: "same_on (- above (Dir_of dst)) fs fs'" using assms(1) by (rule grown_same_on) auto
  have "\<not> prefix (dst @ q) (Dir_of dst)" for q
    using assms(2) not_prefix_butlast [of dst] by (auto simp: Dir_of_def dest: append_prefixD)
  then show "sub fs' dst = sub fs dst" using same by (auto simp: same_on_def sub_def)
  show "same_on (- restore_area dst) fs fs'"
    by (rule same_on_mono [OF same])
      (auto simp: restore_area_def Dir_of_def dest: prefix_order.trans [OF _ prefixeq_butlast])
qed

text \<open>The target holds the tree \<open>T\<close> and nothing outside the area has changed since \<open>fs\<close>.\<close>

definition held :: "path \<Rightarrow> fsys \<Rightarrow> (path \<Rightarrow> node option) \<Rightarrow> fsys \<Rightarrow> bool" where
  "held dst fs T v \<longleftrightarrow> same_on (- restore_area dst) fs v \<and> sub v dst = T"

lemma held_stage:
  assumes "held dst fs T v" "same_on (- below (path_suffix dst ''.restoring'')) v v'" "dst \<noteq> []"
  shows "held dst fs T v'"
proof -
  have "sub v' dst = sub v dst"
    using assms(2) by (rule same_on_sub) (simp add: below_subset_Compl apart_suffix assms(3))
  moreover have "same_on (- restore_area dst) v v'"
    by (rule same_on_mono [OF assms(2)]) (auto simp: restore_area_def)
  ultimately show ?thesis using assms(1) same_on_trans by (auto simp: held_def)
qed

lemma held_shrunk:
  "held dst fs T v \<Longrightarrow> shrunk (path_suffix dst ''.restoring'') v v' \<Longrightarrow> dst \<noteq> [] \<Longrightarrow> held dst fs T v'"
  by (rule held_stage) (auto simp: shrunk_def)

lemma held_unchanged: "held dst fs T v \<Longrightarrow> unchanged v v' \<Longrightarrow> held dst fs T v'"
  by (auto simp: held_def unchanged_def same_on_def sub_def)

lemma held_swapped:
  assumes "held dst fs T v" "swapped (path_suffix dst ''.restoring'') dst v v'"
  shows "held dst fs (sub v (path_suffix dst ''.restoring'')) v'"
proof -
  have "same_on (- restore_area dst) v v'"
    using assms(2) unfolding swapped_def by (auto intro: same_on_mono simp: restore_area_def)
  then show ?thesis using assms same_on_trans by (auto simp: held_def swapped_def)
qed

lemma held_src:
  assumes "held dst fs T v" "apart src dst" "apart src (path_suffix dst ''.restoring'')"
  shows "sub v src = sub fs src"
  using assms(1) restore_area_src [OF assms(2,3)] unfolding held_def by (auto intro: same_on_sub)

lemma held_grown: "grown (Dir_of dst) m fs v \<Longrightarrow> dst \<noteq> [] \<Longrightarrow> held dst fs (sub fs dst) v"
  by (simp add: held_def restore_grown)

context cp_tool begin

lemma fwp_copyDirIfExists:
  assumes "wf_fs fs" "apart src dst" "look fs dst = None"
    and "\<And>fs'. same_on (- below dst) fs fs' \<Longrightarrow> wf_fs fs' \<Longrightarrow> C fs'"
    and "\<And>e fs'. same_on (- below dst) fs fs' \<Longrightarrow> wf_fs fs' \<Longrightarrow> E e fs'"
    and "\<And>fs'. same_on (- below dst) fs fs' \<Longrightarrow> wf_fs fs' \<Longrightarrow> sub fs' dst = sub fs src \<Longrightarrow> Q () fs'"
  shows "fwp (copyDirIfExists cp src dst) Q E C fs"
proof -
  have none: "sub fs dst = sub fs src" if "look fs src = None"
    using assms(1,3) that by (simp add: wf_fs_absent_tree)
  show ?thesis
    unfolding copyDirIfExists_def
    by (intro fwp_bind fwp_attempt fwp_Stat fwp_case_sum fwp_if fwp_ret fwp_throw
        fwp_copyTree [OF assms(1-3)])
      (simp_all add: assms(1,4-6) none)
qed

lemma fwp_copyFileIfExists:
  assumes "wf_fs fs" "apart src dst" "look fs dst = None" "is_dir fs (Dir_of dst)" "Dir_of dst \<noteq> []"
    and "\<And>fs'. same_on (- below dst) fs fs' \<Longrightarrow> wf_fs fs' \<Longrightarrow> C fs'"
    and "\<And>e fs'. same_on (- below dst) fs fs' \<Longrightarrow> wf_fs fs' \<Longrightarrow> E e fs'"
    and "\<And>fs'. same_on (- below dst) fs fs' \<Longrightarrow> wf_fs fs' \<Longrightarrow> \<not> is_dir fs src \<Longrightarrow>
           look fs' dst = look fs src \<Longrightarrow> Q () fs'"
  shows "fwp (copyFileIfExists cp src dst) Q E C fs"
proof -
  have noop: "look fs1 q = look fs q" if "grown (Dir_of dst) m fs fs1" for fs1 m q
    using grown_dir_noop [OF assms(1) that assms(4)] .
  have same: "same_on Z fs fs2" if "grown (Dir_of dst) m fs fs1" "same_on Z fs1 fs2" for fs1 fs2 m Z
    using that(2) noop [OF that(1)] by (simp add: same_on_def)
  have copy: "fwp (copyFile cp src dst) Q E C fs1" if g: "grown (Dir_of dst) m fs fs1" and w: "wf_fs fs1" for fs1 m
    by (rule fwp_copyFile [OF w assms(2)])
      (use noop [OF g] same [OF g] assms(3) in \<open>auto simp: is_dir_look is_file_look intro!: assms(6-8)\<close>)
  show ?thesis
    unfolding copyFileIfExists_def
    by (intro fwp_bind fwp_attempt fwp_Stat fwp_case_sum fwp_if fwp_ret fwp_throw fwp_seq
        fwp_MkdirAll_wf [OF assms(1,5)])
      (use assms(1,3) same [OF _ same_on_refl] in \<open>auto simp: is_dir_look intro!: assms(6-8) copy\<close>)
qed

lemma keeps_restoreDir:
  assumes "Dir_of dst \<noteq> []" "Z \<inter> restore_area dst = {}"
  shows "keeps (on_fs (same_on Z fs0)) (restoreDir cp src dst)"
proof -
  have "above (Dir_of dst) \<subseteq> above dst"
    by (auto simp: Dir_of_def dest: prefix_order.trans [OF _ prefixeq_butlast])
  then show ?thesis
    using assms unfolding restoreDir_def Let_def
    by (intro keeps_rules keeps_copyTree) (auto simp: restore_area_def)
qed

lemma keeps_replaceFile:
  assumes "Dir_of dst \<noteq> []" "Z \<inter> restore_area dst = {}"
  shows "keeps (on_fs (same_on Z fs0)) (replaceFile cp src dst)"
proof -
  have "above (Dir_of dst) \<subseteq> above dst"
    by (auto simp: Dir_of_def dest: prefix_order.trans [OF _ prefixeq_butlast])
  then show ?thesis
    using assms unfolding replaceFile_def Let_def
    by (intro keeps_rules keeps_copyFile) (auto simp: restore_area_def)
qed

lemma fwp_restoreDir_present:
  fixes src dst :: path and fs :: fsys
  defines "staged \<equiv> path_suffix dst ''.restoring''"
  assumes wf: "wf_fs fs" and dst: "Dir_of dst \<noteq> []"
    and src: "apart src dst" "apart src staged"
  shows "fwp (seq (os_MkdirAll (Dir_of dst) 0x1ED)
           (seq (os_RemoveAll staged)
             (seq (on_err (copyTree cp src staged) (\<lambda>e. seq (ignore (os_RemoveAll staged)) (throw e)))
               (seq (on_err (SwapDir staged dst) (\<lambda>e. seq (ignore (os_RemoveAll staged)) (throw e)))
                 (wrapf (''remove displaced live '' @ path_text staged) (os_RemoveAll staged))))))
    (\<lambda>_ fs'. held dst fs (sub fs src) fs' \<and> sub fs' staged = no_tree)
    (\<lambda>_ fs'. held dst fs (sub fs dst) fs' \<or> held dst fs (sub fs src) fs')
    (\<lambda>fs'. held dst fs (sub fs dst) fs' \<or> held dst fs (sub fs src) fs') fs"
proof -
  have ne: "dst \<noteq> []" using dst by (auto simp: Dir_of_def)
  have apart: "apart staged dst" using ne by (simp add: staged_def apart_suffix)
  define kept where "kept v \<longleftrightarrow> held dst fs (sub fs dst) v \<or> held dst fs (sub fs src) v" for v
  note shrunk = held_shrunk [where dst = dst, folded staged_def, OF _ _ ne]
  have clean: "fwp (seq (ignore (os_RemoveAll staged)) (throw e)) Q (\<lambda>_. kept) kept v" if "kept v" for e Q v
    by (intro fwp_seq fwp_ignore fwp_RemoveAll fwp_throw) (use that shrunk in \<open>auto simp: kept_def\<close>)
  have last: "fwp (wrapf s (os_RemoveAll staged))
      (\<lambda>_ fs'. held dst fs (sub fs src) fs' \<and> sub fs' staged = no_tree) (\<lambda>_. kept) kept v"
    if "held dst fs (sub fs src) v" for s v
    by (intro fwp_wrapf fwp_RemoveAll) (use that shrunk in \<open>auto simp: kept_def\<close>)
  have swap: "fwp (seq (on_err (SwapDir staged dst) (\<lambda>e. seq (ignore (os_RemoveAll staged)) (throw e)))
        (wrapf s (os_RemoveAll staged)))
      (\<lambda>_ fs'. held dst fs (sub fs src) fs' \<and> sub fs' staged = no_tree) (\<lambda>_. kept) kept v"
    if v: "wf_fs v" "held dst fs (sub fs dst) v" "sub v staged = sub fs src" for s v
  proof (rule fwp_seq, rule fwp_on_err, rule swapdir.swap_rule [OF v(1) apart], goal_cases)
    case (1 v')
    then have "kept v'" using held_unchanged v(2) by (auto simp: kept_def)
    then show ?case using clean by blast
  next
    case (2 v')
    then have "kept v'" using held_swapped [OF v(2)] v(3) by (auto simp: kept_def staged_def)
    then show ?case using clean by blast
  next
    case (3 v')
    then have "held dst fs (sub fs src) v'" using held_swapped [OF v(2)] v(3) by (auto simp: staged_def)
    then show ?case by (rule last)
  qed
  have copy: "fwp (seq (on_err (copyTree cp src staged) (\<lambda>e. seq (ignore (os_RemoveAll staged)) (throw e)))
      (seq (on_err (SwapDir staged dst) (\<lambda>e. seq (ignore (os_RemoveAll staged)) (throw e)))
        (wrapf s (os_RemoveAll staged))))
      (\<lambda>_ fs'. held dst fs (sub fs src) fs' \<and> sub fs' staged = no_tree) (\<lambda>_. kept) kept v"
    if v: "wf_fs v" "held dst fs (sub fs dst) v" "sub v staged = no_tree" for s v
  proof -
    have stage: "held dst fs (sub fs dst) v'" if "same_on (- below staged) v v'" for v'
      using held_stage [OF v(2) that [unfolded staged_def] ne] .
    have none: "look v staged = None" using v(3) by (simp add: look_sub_root no_tree_def)
    have same: "sub v src = sub fs src" using held_src [OF v(2)] src by (simp add: staged_def)
    show ?thesis
      by (intro fwp_seq [where m = "on_err (copyTree cp src staged) _"] fwp_on_err
          fwp_copyTree [OF v(1) src(2) none] swap clean)
        (use stage same in \<open>auto simp: kept_def\<close>)
  qed
  show ?thesis
    unfolding kept_def [symmetric]
  proof (rule fwp_seq, rule fwp_MkdirAll_wf [OF wf dst], goal_cases)
    case (3 v)
    then have v: "held dst fs (sub fs dst) v" using held_grown [OF _ ne] by blast
    show ?case
    proof (rule fwp_seq, rule fwp_RemoveAll_wf [OF 3(1)], goal_cases)
      case (3 v')
      then show ?case by (intro copy shrunk [OF v])
    qed (use shrunk [OF v] in \<open>auto simp: kept_def\<close>)
  qed (use held_grown [OF _ ne] in \<open>auto simp: kept_def\<close>)
qed

text \<open>
  \<open>restoreDir\<close>: when the backup has the tree, the target is the old or the restored one at every
  moment; when it has not, the target is removed.
\<close>

lemma fwp_restoreDir:
  assumes wf: "wf_fs fs" and dst: "Dir_of dst \<noteq> []"
    and src: "apart src dst" "apart src (path_suffix dst ''.restoring'')"
  shows "fwp (restoreDir cp src dst)
    (\<lambda>_ fs'. held dst fs (sub fs src) fs' \<and>
            (look fs src \<noteq> None \<longrightarrow> sub fs' (path_suffix dst ''.restoring'') = no_tree))
    (\<lambda>_ fs'. held dst fs (sub fs dst) fs' \<or> held dst fs (sub fs src) fs' \<or>
            look fs src = None \<and> shrunk dst fs fs')
    (\<lambda>fs'. held dst fs (sub fs dst) fs' \<or> held dst fs (sub fs src) fs' \<or>
            look fs src = None \<and> shrunk dst fs fs') fs"
proof -
  have here: "held dst fs (sub fs dst) fs" by (simp add: held_def)
  have gone: "held dst fs (sub fs src) fs'"
    if "look fs src = None" "shrunk dst fs fs'" "sub fs' dst = no_tree" for fs'
    using that wf_fs_absent_tree [OF wf that(1)] shrunk_same_on [OF that(2), of "- restore_area dst"]
    by (auto simp: held_def restore_area_def)
  show ?thesis
    unfolding restoreDir_def Let_def
    by (intro fwp_bind fwp_attempt fwp_Stat fwp_case_sum fwp_if fwp_throw fwp_wrapf fwp_RemoveAll
        fwp_mono [OF fwp_restoreDir_present [OF assms]])
      (use here gone in \<open>auto simp: look_def\<close>)
qed

lemma fwp_restoreDir_safe:
  assumes "wf_fs fs" "Dir_of dst \<noteq> []" "apart src dst" "apart src (path_suffix dst ''.restoring'')"
  shows "fwp (restoreDir cp src dst)
    (\<lambda>_ v. wf_fs v \<and> same_on (- restore_area dst) fs v \<and> sub v dst = sub fs src)
    (\<lambda>_ v. same_on (- restore_area dst) fs v \<and>
          (look fs src \<noteq> None \<longrightarrow> sub v dst = sub fs dst \<or> sub v dst = sub fs src))
    (\<lambda>v. same_on (- restore_area dst) fs v \<and>
          (look fs src \<noteq> None \<longrightarrow> sub v dst = sub fs dst \<or> sub v dst = sub fs src)) fs"
  by (rule fwp_assuming [OF wf_restoreDir assms(1)], rule fwp_mono [OF fwp_restoreDir [OF assms]])
    (auto simp: held_def restore_area_def intro: shrunk_same_on)

text \<open>\<open>replaceFile\<close>: the file at the target is the old one or the copy, and the rename decides.\<close>

lemma fwp_replaceFile:
  assumes wf: "wf_fs fs" and dst: "Dir_of dst \<noteq> []"
    and src: "apart src dst" "apart src (path_suffix dst ''.restoring'')"
  shows "fwp (replaceFile cp src dst)
    (\<lambda>_ fs'. same_on (- restore_area dst) fs fs' \<and> is_file fs src \<and> look fs' dst = look fs src)
    (\<lambda>_ fs'. same_on (- restore_area dst) fs fs' \<and> look fs' dst = look fs dst)
    (\<lambda>fs'. same_on (- restore_area dst) fs fs' \<and> look fs' dst \<in> {look fs dst, look fs src}) fs"
proof -
  let ?st = "path_suffix dst ''.restoring''"
  have ne: "dst \<noteq> []" using dst by (auto simp: Dir_of_def)
  have apart: "apart ?st dst" using ne by (simp add: apart_suffix)
  define old where "old = held dst fs (sub fs dst)"
  have oldD: "same_on (- restore_area dst) fs v" "look v dst = look fs dst" if "old v" for v
    using that by (auto simp: old_def held_def look_sub_root)
  have stage: "old v'" if "old v" "same_on (- below ?st) v v'" for v v'
    using held_stage [OF _ that(2) ne] that(1) by (simp add: old_def)
  have rm: "old v'" if "old v" "\<forall>q. look v' q = (if q = ?st then None else look v q)" for v v'
    by (rule stage [OF that(1)]) (use that(2) in \<open>auto simp: same_on_def\<close>)
  have clean: "fwp (seq (ignore (os_Remove ?st)) (throw e)) Q (\<lambda>_. old) old v" if "old v" for e Q v
    by (intro fwp_seq fwp_ignore fwp_Remove fwp_throw) (use that rm in auto)
  have copy: "fwp (seq (on_err (copyFile cp src ?st) (\<lambda>e. seq (ignore (os_Remove ?st)) (throw e)))
        (os_Rename ?st dst))
      (\<lambda>_ fs'. same_on (- restore_area dst) fs fs' \<and> is_file fs src \<and> look fs' dst = look fs src)
      (\<lambda>_. old) old v"
    if v: "wf_fs v" "old v" "look v ?st = None" for v
  proof -
    have same: "look v src = look fs src"
      using held_src [OF v(2) [unfolded old_def] src] by (simp add: look_sub_root)
    have renamed: "same_on (- restore_area dst) fs v2 \<and> look v2 dst = look fs src"
      if "old v1" "look v1 ?st = look v src" and r: "\<forall>q. look v2 q = look (rename_tree ?st dst v1) q" for v1 v2
      using that(2) oldD(1) [OF that(1)] same apart look_rename_tree [of ?st dst v1]
      by (auto simp: r apart_def rebase_def same_on_def restore_area_def)
    have "?st \<noteq> dst" using apart by auto
    moreover have "\<not> is_dir v ?st" using v(3) by (simp add: is_dir_look)
    ultimately show ?thesis
      by (intro fwp_seq [where m = "on_err (copyFile cp src ?st) _"] fwp_on_err
          fwp_copyFile [OF v(1) src(2)] fwp_Rename clean)
        (use stage [OF v(2)] renamed same in \<open>auto simp: is_file_look\<close>)
  qed
  have rest: "fwp (replaceFile cp src dst)
      (\<lambda>_ fs'. same_on (- restore_area dst) fs fs' \<and> is_file fs src \<and> look fs' dst = look fs src)
      (\<lambda>_. old) old fs"
    unfolding replaceFile_def Let_def
  proof (rule fwp_seq, rule fwp_MkdirAll_wf [OF wf dst], goal_cases)
    case (3 v)
    then have v: "old v" using held_grown [OF _ ne] by (simp add: old_def)
    have "fwp (on_err (os_Remove ?st) (\<lambda>e. if ErrNotExist e then ret () else throw e))
        (\<lambda>_ v'. old v' \<and> look v' ?st = None) (\<lambda>_. old) old v"
      by (intro fwp_on_err fwp_Remove fwp_if fwp_ret fwp_throw) (use v rm in \<open>auto simp: miss_def\<close>)
    then have "fwp (on_err (os_Remove ?st) (\<lambda>e. if ErrNotExist e then ret () else throw e))
        (\<lambda>_ v'. wf_fs v' \<and> old v' \<and> look v' ?st = None) (\<lambda>_. old) old v"
      by - (rule fwp_assuming [where P = wf_fs, OF _ 3(1)], intro keeps_rules, erule fwp_mono, simp_all)
    then show ?case by (rule fwp_seq [OF fwp_mono]) (auto intro: copy)
  qed (use held_grown [OF _ ne] in \<open>auto simp: old_def\<close>)
  show ?thesis by (rule fwp_mono [OF rest]) (auto dest: oldD)
qed

end

section \<open>A copier\<close>

text \<open>
  \<open>cp_ref\<close> copies node by node, in the order of a directory walk; each node is one system call
  and may fail. It preserves modes and modification times.
\<close>

definition copy_node :: "path \<Rightarrow> path \<Rightarrow> ('e, unit) io" where
  "copy_node a b = syscall (PathError ''cp'' b) (\<lambda>fs t.
     case map_of fs a of
       None \<Rightarrow> Inl (miss fs a)
     | Some (n, s) \<Rightarrow>
         (if b \<noteq> [] \<and> is_dir fs (butlast b) \<and> \<not> is_dir fs b then Inr ((), put b n s fs)
          else Inl EEXIST))"

definition cp_ref :: "'e cp" where
  "cp_ref flags src dst =
     (if ''--recursive'' \<in> set flags
      then seq (os_Open src)
             (\<lambda>w. each (paths_under (w_fs w) src) (\<lambda>q. copy_node q (rebase src dst q)) w)
      else bind (os_Stat src) (\<lambda>(n, _). case n of
             Dir _ \<Rightarrow> throw (Msg ''cp: -r not specified; omitting directory'')
           | File _ _ \<Rightarrow> copy_node src dst))"

lemma fwp_copy_node:
  assumes "C fs" "\<And>e. E e fs"
    and "\<And>fs'. look fs a \<noteq> None \<Longrightarrow> (\<forall>q. look fs' q = (if q = b then look fs a else look fs q)) \<Longrightarrow> Q () fs'"
  shows "fwp (copy_node a b) Q E C fs"
  unfolding copy_node_def
  by (rule fwp_syscall)
    (use assms(1,2) in \<open>auto intro!: assms(3) simp: look_def [of fs a] split: option.splits if_splits\<close>)

lemma keeps_copy_node: "b \<notin> Z \<Longrightarrow> keeps (on_fs (same_on Z fs0)) (copy_node a b)"
  by (rule keeps_footprint, rule fwp_copy_node) (auto simp: same_on_def)

lemma wf_copy_node: "keeps (on_fs wf_fs) (copy_node a b)"
  unfolding copy_node_def
  by (rule keeps_syscall) (auto intro!: wf_fs_put split: option.splits if_splits)

lemma keeps_cp_ref:
  fixes flags :: "string list"
  assumes "\<And>a b. prefix dst b \<Longrightarrow> keeps (on_fs P) (copy_node a b :: ('e, unit) io)"
  shows "keeps (on_fs P) (cp_ref flags src dst :: ('e, unit) io)"
proof -
  have "keeps (on_fs P) (each (ps fs) (\<lambda>q. copy_node q (rebase src dst q)) :: ('e, unit) io)" for ps :: "fsys \<Rightarrow> path list" and fs
    by (intro keeps_rules assms) (simp add: rebase_def)
  then have walk: "keeps (on_fs P)
      ((\<lambda>w. each (paths_under (w_fs w) src) (\<lambda>q. copy_node q (rebase src dst q)) w) :: ('e, unit) io)"
    by (rule keeps_peek)
  show ?thesis
    unfolding cp_ref_def
    by (intro keeps_rules walk) (auto intro!: keeps_rules assms split: node.split)
qed

lemma fwp_copy_walk:
  assumes "apart src dst" "sub fs dst = no_tree"
  shows "fwp (each (paths_under fs src) (\<lambda>q. copy_node q (rebase src dst q)))
    (\<lambda>_ fs'. sub fs' dst = sub fs src) (\<lambda>_ _. True) (\<lambda>_. True) fs"
proof (rule fwp_each [where I = "\<lambda>dn v. same_on (- below dst) fs v \<and>
    (\<forall>q. look v (dst @ q) = (if src @ q \<in> set dn then look fs (src @ q) else None))"], goal_cases)
  case 1
  then show ?case using assms(2) by (auto simp: sub_def no_tree_def fun_eq_iff)
next
  case (2 dn x rest v)
  have "x \<in> set (paths_under fs src)" using 2(1) by simp
  then obtain r where x: "x = src @ r" by (auto simp: in_paths_under prefix_def)
  have "x \<in> - below dst" using apart_not_prefix_append(1) [OF apart_sym [OF assms(1)]] by (simp add: x)
  then have "look v x = look fs x" using 2(2) by (auto simp: same_on_def)
  then show ?case
    by (intro fwp_copy_node) (use 2(2) in \<open>auto simp: x rebase_def same_on_def\<close>)
next
  case (3 v)
  then show ?case by (auto simp: sub_def fun_eq_iff in_paths_under)
qed

interpretation cpref: cp_tool cp_ref
proof unfold_locales
  fix src dst :: path and fs :: fsys
  assume wf: "wf_fs fs" and apart: "apart src dst"
  show "fwp (cp_ref tree_flags src dst) (\<lambda>_ fs'. look fs src \<noteq> None \<and> sub fs' dst = sub fs src)
        (\<lambda>_ _. True) (\<lambda>_. True) fs" if "look fs dst = None"
  proof -
    have "fwp (\<lambda>w. each (paths_under (w_fs w) src) (\<lambda>q. copy_node q (rebase src dst q)) w)
        (\<lambda>_ fs'. sub fs' dst = sub fs src) (\<lambda>_ _. True) (\<lambda>_. True) fs"
      using fwp_copy_walk [OF apart wf_fs_absent_tree [OF wf that]] by (simp add: fwp_def wp_def)
    then show ?thesis
      unfolding cp_ref_def tree_flags_def
      by (simp, intro fwp_seq fwp_Open)
        (auto intro: fwp_mono simp: fwp_def wp_def split: outcome.splits prod.splits)
  qed
  show "fwp (cp_ref file_flags src dst) (\<lambda>_ fs'. is_file fs src \<and> look fs' dst = look fs src)
        (\<lambda>_ _. True) (\<lambda>_. True) fs"
    unfolding cp_ref_def file_flags_def
    by (auto intro!: fwp_bind fwp_Stat fwp_throw fwp_copy_node simp: is_file_look look_def [of fs src] split: node.split)
next
  show "keeps (on_fs (same_on Z fs)) (cp_ref flags src dst)" if "Z \<inter> below dst = {}" for Z fs flags src dst
    by (intro keeps_cp_ref keeps_copy_node) (use that in auto)
  show "keeps (on_fs wf_fs) (cp_ref flags src dst)" for flags src dst
    by (intro keeps_cp_ref wf_copy_node)
qed

section \<open>Properties\<close>

text \<open>\<open>restoreDir\<close> is atomic. As long as the backup has the tree, the live path holds the whole
  old tree or the whole tree of the backup after every system call, whichever of them fails and
  wherever the power is lost; a normal return means the tree of the backup, and a clean staging
  path. When the backup lacks the tree, a normal return means that the live one is gone. Nothing
  beside the live path, its staging sibling and missing parent directories is touched.\<close>

theorem restore_dir_atomic:
  assumes "cp_tool cp" and "wf_fs fs" and "Dir_of dst \<noteq> []"
    and "apart src dst" and "apart src (path_suffix dst ''.restoring'')"
  shows "fwp (restoreDir cp src dst)
    (\<lambda>_ fs'. sub fs' dst = sub fs src \<and> same_on (- restore_area dst) fs fs' \<and>
            (look fs src \<noteq> None \<longrightarrow> sub fs' (path_suffix dst ''.restoring'') = no_tree))
    (\<lambda>_ fs'. same_on (- restore_area dst) fs fs' \<and>
            (look fs src \<noteq> None \<longrightarrow> sub fs' dst = sub fs dst \<or> sub fs' dst = sub fs src))
    (\<lambda>fs'. same_on (- restore_area dst) fs fs' \<and>
            (look fs src \<noteq> None \<longrightarrow> sub fs' dst = sub fs dst \<or> sub fs' dst = sub fs src)) fs"
  by (rule fwp_mono [OF cp_tool.fwp_restoreDir [OF assms]])
    (use shrunk_same_on in \<open>auto simp: held_def restore_area_def intro: shrunk_same_on\<close>)

definition sample_fs :: fsys where
  "sample_fs = [([], Dir 0x1ED, 0), ([''b''], Dir 0x1C0, 0), ([''b'', ''etcd''], Dir 0x1C0, 0),
     ([''b'', ''etcd'', ''db''], File 0x180 ''new'', 5), ([''v''], Dir 0x1ED, 0),
     ([''v'', ''etcd''], Dir 0x1C0, 0), ([''v'', ''etcd'', ''db''], File 0x180 ''old'', 7),
     ([''v'', ''etcd'', ''wal''], File 0x180 ''log'', 7)]"

theorem restore_dir_atomic_witness:
  "fwp (restoreDir cp_ref [''b'', ''etcd''] [''v'', ''etcd''])
    (\<lambda>_ fs'. sub fs' [''v'', ''etcd''] = sub sample_fs [''b'', ''etcd''] \<and>
            same_on (- restore_area [''v'', ''etcd'']) sample_fs fs' \<and>
            (look sample_fs [''b'', ''etcd''] \<noteq> None \<longrightarrow>
             sub fs' (path_suffix [''v'', ''etcd''] ''.restoring'') = no_tree))
    (\<lambda>_ fs'. same_on (- restore_area [''v'', ''etcd'']) sample_fs fs' \<and>
            (look sample_fs [''b'', ''etcd''] \<noteq> None \<longrightarrow>
             sub fs' [''v'', ''etcd''] = sub sample_fs [''v'', ''etcd''] \<or>
             sub fs' [''v'', ''etcd''] = sub sample_fs [''b'', ''etcd'']))
    (\<lambda>fs'. same_on (- restore_area [''v'', ''etcd'']) sample_fs fs' \<and>
            (look sample_fs [''b'', ''etcd''] \<noteq> None \<longrightarrow>
             sub fs' [''v'', ''etcd''] = sub sample_fs [''v'', ''etcd''] \<or>
             sub fs' [''v'', ''etcd''] = sub sample_fs [''b'', ''etcd''])) sample_fs"
  by (rule restore_dir_atomic)
    (simp_all add: cpref.cp_tool_axioms sample_fs_def wf_fs_code is_dir_def look_def Dir_of_def
      apart_def path_suffix_def)

end
