(* ===== verification/Go_Json.thy ===== *)
theory Go_Json
  imports Prelude
begin

text \<open>
  What picokube uses of Go's \<open>encoding/json\<close>: \<open>Marshal\<close> of strings as bytes, with the
  escapes Go writes (HTML-safe, line separators, invalid UTF-8 replaced), and the decoder of
  arbitrary JSON text. A field of a struct is then looked up in the decoded object as
  \<open>Unmarshal\<close> does: names match up to case, the last occurrence wins, \<open>null\<close> changes nothing.

  The limit of 10000 nesting levels is not modelled.
\<close>

section \<open>Bytes and UTF-8\<close>

definition byte :: "char \<Rightarrow> nat" where
  "byte c = of_char c"

definition cont :: "nat \<Rightarrow> bool" where
  "cont b \<longleftrightarrow> 128 \<le> b \<and> b \<le> 191"

text \<open>
  \<open>utf8.DecodeRune\<close>: the number of bytes of the encoded character at the front of a non-empty
  byte list whose first byte is not ASCII; 0 when the encoding is invalid.
\<close>

definition utf8_len :: "string \<Rightarrow> nat" where
  "utf8_len s = (case map byte s of
     b0 # b1 # rest \<Rightarrow>
       (if 194 \<le> b0 \<and> b0 \<le> 223 then (if cont b1 then 2 else 0)
        else if 224 \<le> b0 \<and> b0 \<le> 239 then
          (if (if b0 = 224 then 160 \<le> b1 \<and> b1 \<le> 191
               else if b0 = 237 then 128 \<le> b1 \<and> b1 \<le> 159 else cont b1)
           then (case rest of b2 # _ \<Rightarrow> if cont b2 then 3 else 0 | [] \<Rightarrow> 0) else 0)
        else if 240 \<le> b0 \<and> b0 \<le> 244 then
          (if (if b0 = 240 then 144 \<le> b1 \<and> b1 \<le> 191
               else if b0 = 244 then 128 \<le> b1 \<and> b1 \<le> 143 else cont b1)
           then (case rest of b2 # b3 # _ \<Rightarrow> if cont b2 \<and> cont b3 then 4 else 0 | _ \<Rightarrow> 0) else 0)
        else 0)
   | _ \<Rightarrow> 0)"

definition utf8_enc :: "nat \<Rightarrow> string" where
  "utf8_enc n = map char_of
     (if n < 128 then [n]
      else if n < 2048 then [192 + n div 64, 128 + n mod 64]
      else if n < 65536 then [224 + n div 4096, 128 + (n div 64) mod 64, 128 + n mod 64]
      else [240 + n div 262144, 128 + (n div 4096) mod 64, 128 + (n div 64) mod 64, 128 + n mod 64])"

definition replacement :: string where
  "replacement = utf8_enc 65533"

fun utf8_ok :: "string \<Rightarrow> bool" where
  "utf8_ok [] = True"
| "utf8_ok (c # s) =
     (if byte c < 128 then utf8_ok s
      else utf8_len (c # s) \<noteq> 0 \<and> utf8_ok (drop (utf8_len (c # s) - 1) s))"

section \<open>Encoding a string\<close>

definition hex_digit :: "nat \<Rightarrow> char" where
  "hex_digit n = (if n < 10 then char_of (48 + n) else char_of (87 + n))"

definition hex4 :: "nat \<Rightarrow> string" where
  "hex4 n = [hex_digit (n div 4096), hex_digit (n div 256 mod 16), hex_digit (n div 16 mod 16),
             hex_digit (n mod 16)]"

definition esc_u :: "nat \<Rightarrow> string" where
  "esc_u n = [CHR 0x5C, CHR ''u''] @ hex4 n"

definition esc_ascii :: "char \<Rightarrow> string" where
  "esc_ascii c =
     (let b = byte c in
      if b = 34 \<or> b = 92 then [CHR 0x5C, c]
      else if b = 8 then [CHR 0x5C, CHR ''b'']
      else if b = 12 then [CHR 0x5C, CHR ''f'']
      else if b = 10 then [CHR 0x5C, CHR ''n'']
      else if b = 13 then [CHR 0x5C, CHR ''r'']
      else if b = 9 then [CHR 0x5C, CHR ''t'']
      else if b < 32 \<or> b = 60 \<or> b = 62 \<or> b = 38 then esc_u b
      else [c])"

definition esc_multi :: "string \<Rightarrow> string" where
  "esc_multi r =
     (if map byte r = [226, 128, 168] then esc_u 8232
      else if map byte r = [226, 128, 169] then esc_u 8233
      else r)"

fun encode_chars :: "string \<Rightarrow> string" where
  "encode_chars [] = []"
| "encode_chars (c # s) =
     (if byte c < 128 then esc_ascii c @ encode_chars s
      else let n = utf8_len (c # s) in
        if n = 0 then esc_u 65533 @ encode_chars s
        else esc_multi (c # take (n - 1) s) @ encode_chars (drop (n - 1) s))"

definition encode_string :: "string \<Rightarrow> string" where
  "encode_string s = CHR 0x22 # encode_chars s @ [CHR 0x22]"

text \<open>
  \<open>Marshal\<close> of a struct whose fields are all strings: the members in order, without white
  space.
\<close>

fun encode_members :: "(string \<times> string) list \<Rightarrow> string" where
  "encode_members [] = []"
| "encode_members [(k, v)] = encode_string k @ CHR '':'' # encode_string v"
| "encode_members ((k, v) # m # ms) =
     encode_string k @ CHR '':'' # encode_string v @ CHR '','' # encode_members (m # ms)"

definition encode_object :: "(string \<times> string) list \<Rightarrow> string" where
  "encode_object ms = CHR ''{'' # encode_members ms @ ''}''"

section \<open>Decoding\<close>

datatype json =
    JNull
  | JBool bool
  | JNum string
  | JStr string
  | JArr "json list"
  | JObj "(string \<times> json) list"

definition unhex_digit :: "char \<Rightarrow> nat option" where
  "unhex_digit c =
     (let b = byte c in
      if 48 \<le> b \<and> b \<le> 57 then Some (b - 48)
      else if 97 \<le> b \<and> b \<le> 102 then Some (b - 87)
      else if 65 \<le> b \<and> b \<le> 70 then Some (b - 55)
      else None)"

definition unhex4 :: "char \<Rightarrow> char \<Rightarrow> char \<Rightarrow> char \<Rightarrow> nat option" where
  "unhex4 a b c d =
     (case (unhex_digit a, unhex_digit b, unhex_digit c, unhex_digit d) of
        (Some i, Some j, Some k, Some l) \<Rightarrow> Some (((i * 16 + j) * 16 + k) * 16 + l)
      | _ \<Rightarrow> None)"

text \<open>The low surrogate that may follow a high one, and the text after it.\<close>

fun low_surrogate :: "string \<Rightarrow> (nat \<times> string) option" where
  "low_surrogate (x # y # a # b # c # d # s) =
     (if byte x = 92 \<and> byte y = 117 then
        (case unhex4 a b c d of
           Some n \<Rightarrow> if 56320 \<le> n \<and> n < 57344 then Some (n, s) else None
         | None \<Rightarrow> None)
      else None)"
| "low_surrogate _ = None"

lemma low_surrogate_shorter: "low_surrogate s = Some (n, t) \<Longrightarrow> length t < length s"
  by (induction s rule: low_surrogate.induct) (auto split: if_splits option.splits)

text \<open>The characters of a string literal after the opening quote: its value and what follows.\<close>

fun parse_chars :: "nat \<Rightarrow> string \<Rightarrow> (string \<times> string) option" where
  "parse_chars 0 _ = None"
| "parse_chars (Suc k) [] = None"
| "parse_chars (Suc k) (c # s) =
    (let b = byte c;
         emit = (\<lambda>u t. map_option (\<lambda>(v, r). (u @ v, r)) (parse_chars k t)) in
     if b = 34 then Some ([], s)
     else if b < 32 then None
     else if b = 92 then
       (case s of
          [] \<Rightarrow> None
        | e # t \<Rightarrow>
           (let q = byte e in
            if q = 34 \<or> q = 92 \<or> q = 47 then emit [e] t
            else if q = 98 then emit [char_of (8::nat)] t
            else if q = 102 then emit [char_of (12::nat)] t
            else if q = 110 then emit [char_of (10::nat)] t
            else if q = 114 then emit [char_of (13::nat)] t
            else if q = 116 then emit [char_of (9::nat)] t
            else if q = 117 then
              (case t of
                 h1 # h2 # h3 # h4 # t' \<Rightarrow>
                   (case unhex4 h1 h2 h3 h4 of
                      None \<Rightarrow> None
                    | Some n \<Rightarrow>
                        if 55296 \<le> n \<and> n < 56320 then
                          (case low_surrogate t' of
                             Some (m, t'') \<Rightarrow>
                               emit (utf8_enc (65536 + (n - 55296) * 1024 + (m - 56320))) t''
                           | None \<Rightarrow> emit replacement t')
                        else if 56320 \<le> n \<and> n < 57344 then emit replacement t'
                        else emit (utf8_enc n) t')
               | _ \<Rightarrow> None)
            else None))
     else if b < 128 then emit [c] s
     else
       (let n = utf8_len (c # s) in
        if n = 0 then emit replacement s
        else emit (c # take (n - 1) s) (drop (n - 1) s)))"

definition skip_ws :: "string \<Rightarrow> string" where
  "skip_ws s = dropWhile (\<lambda>c. byte c \<in> {9, 10, 13, 32}) s"

definition is_digit :: "char \<Rightarrow> bool" where
  "is_digit c \<longleftrightarrow> 48 \<le> byte c \<and> byte c \<le> 57"

text \<open>A JSON number is its text: sign, integer part without leading zeros, fraction, exponent.\<close>

definition parse_exp :: "string \<Rightarrow> (string \<times> string) option" where
  "parse_exp s = (case s of
     e # t \<Rightarrow>
       (if byte e = 101 \<or> byte e = 69 then
          (let (sg, t1) = (case t of c # u \<Rightarrow> if byte c = 43 \<or> byte c = 45 then ([c], u) else ([], t)
                           | [] \<Rightarrow> ([], []));
               ds = takeWhile is_digit t1
           in if ds = [] then None else Some (e # sg @ ds, dropWhile is_digit t1))
        else Some ([], s))
   | [] \<Rightarrow> Some ([], []))"

definition parse_frac :: "string \<Rightarrow> (string \<times> string) option" where
  "parse_frac s = (case s of
     d # t \<Rightarrow>
       (if byte d = 46 then
          (let ds = takeWhile is_digit t
           in if ds = [] then None else Some (d # ds, dropWhile is_digit t))
        else Some ([], s))
   | [] \<Rightarrow> Some ([], []))"

definition parse_int :: "string \<Rightarrow> (string \<times> string) option" where
  "parse_int s = (case s of
     [] \<Rightarrow> None
   | c # t \<Rightarrow>
       if byte c = 48 then Some ([c], t)
       else if is_digit c then Some (takeWhile is_digit s, dropWhile is_digit s)
       else None)"

definition parse_num :: "string \<Rightarrow> (json \<times> string) option" where
  "parse_num s =
     (let (sg, t) = (case s of c # u \<Rightarrow> if byte c = 45 then ([c], u) else ([], s) | [] \<Rightarrow> ([], [])) in
      case parse_int t of
        None \<Rightarrow> None
      | Some (i, t1) \<Rightarrow>
         (case parse_frac t1 of
            None \<Rightarrow> None
          | Some (f, t2) \<Rightarrow>
             (case parse_exp t2 of
                None \<Rightarrow> None
              | Some (e, t3) \<Rightarrow> Some (JNum (sg @ i @ f @ e), t3))))"

definition keyword :: "string \<Rightarrow> json \<Rightarrow> string \<Rightarrow> (json \<times> string) option" where
  "keyword k v s = (if prefix k s then Some (v, drop (length k) s) else None)"

text \<open>
  Values, the elements of an array after the first and the members of an object after the first.
  Every call consumes a byte, so as much fuel as there are bytes is enough.
\<close>

fun parse_value :: "nat \<Rightarrow> string \<Rightarrow> (json \<times> string) option"
and parse_elems :: "nat \<Rightarrow> string \<Rightarrow> (json list \<times> string) option"
and parse_members :: "nat \<Rightarrow> string \<Rightarrow> ((string \<times> json) list \<times> string) option" where
  "parse_value 0 s = None"
| "parse_value (Suc k) s =
    (case skip_ws s of
       [] \<Rightarrow> None
     | c # t \<Rightarrow>
        (if byte c = 34 then map_option (\<lambda>(v, r). (JStr v, r)) (parse_chars (length t) t)
         else if byte c = 91 then
           (case skip_ws t of
              d # u \<Rightarrow> if byte d = 93 then Some (JArr [], u)
                       else map_option (\<lambda>(v, r). (JArr v, r)) (parse_elems k t)
            | [] \<Rightarrow> None)
         else if byte c = 123 then
           (case skip_ws t of
              d # u \<Rightarrow> if byte d = 125 then Some (JObj [], u)
                       else map_option (\<lambda>(v, r). (JObj v, r)) (parse_members k t)
            | [] \<Rightarrow> None)
         else if byte c = 110 then keyword ''null'' JNull (c # t)
         else if byte c = 116 then keyword ''true'' (JBool True) (c # t)
         else if byte c = 102 then keyword ''false'' (JBool False) (c # t)
         else parse_num (c # t)))"
| "parse_elems 0 s = None"
| "parse_elems (Suc k) s =
    (case parse_value k s of
       None \<Rightarrow> None
     | Some (v, t) \<Rightarrow>
        (case skip_ws t of
           d # u \<Rightarrow> if byte d = 44 then map_option (\<lambda>(vs, r). (v # vs, r)) (parse_elems k u)
                    else if byte d = 93 then Some ([v], u) else None
         | [] \<Rightarrow> None))"
| "parse_members 0 s = None"
| "parse_members (Suc k) s =
    (case skip_ws s of
       q # t \<Rightarrow>
        (if byte q \<noteq> 34 then None else
         case parse_chars (length t) t of
           None \<Rightarrow> None
         | Some (key, t1) \<Rightarrow>
            (case skip_ws t1 of
               c # t2 \<Rightarrow>
                (if byte c \<noteq> 58 then None else
                 case parse_value k t2 of
                   None \<Rightarrow> None
                 | Some (v, t3) \<Rightarrow>
                    (case skip_ws t3 of
                       d # u \<Rightarrow>
                         if byte d = 44 then map_option (\<lambda>(vs, r). ((key, v) # vs, r)) (parse_members k u)
                         else if byte d = 125 then Some ([(key, v)], u) else None
                     | [] \<Rightarrow> None))
             | [] \<Rightarrow> None))
     | [] \<Rightarrow> None)"

text \<open>A whole JSON text: one value, with white space around it only.\<close>

definition json_parse :: "string \<Rightarrow> json option" where
  "json_parse s = (case parse_value (length s) s of
     Some (v, r) \<Rightarrow> if skip_ws r = [] then Some v else None
   | None \<Rightarrow> None)"

section \<open>Fields of a struct\<close>

text \<open>
  \<open>Unmarshal\<close> finds a struct field by its name up to ASCII case. \<open>decode_string\<close> stores a
  string value; \<open>null\<close> leaves the field as it is; anything else is a type error, which makes
  \<open>Unmarshal\<close> fail in the end.
\<close>

definition lower :: "char \<Rightarrow> char" where
  "lower c = (if 65 \<le> byte c \<and> byte c \<le> 90 then char_of (byte c + 32) else c)"

definition same_field :: "string \<Rightarrow> string \<Rightarrow> bool" where
  "same_field f k \<longleftrightarrow> map lower f = map lower k"

fun decode_string :: "string \<Rightarrow> (string \<times> json) list \<Rightarrow> string \<Rightarrow> string option" where
  "decode_string f [] acc = Some acc"
| "decode_string f ((k, v) # ms) acc =
     (if same_field f k then
        (case v of JStr s \<Rightarrow> decode_string f ms s | JNull \<Rightarrow> decode_string f ms acc | _ \<Rightarrow> None)
      else decode_string f ms acc)"

fun decode_bool :: "string \<Rightarrow> (string \<times> json) list \<Rightarrow> bool \<Rightarrow> bool option" where
  "decode_bool f [] acc = Some acc"
| "decode_bool f ((k, v) # ms) acc =
     (if same_field f k then
        (case v of JBool b \<Rightarrow> decode_bool f ms b | JNull \<Rightarrow> decode_bool f ms acc | _ \<Rightarrow> None)
      else decode_bool f ms acc)"

section \<open>Round trip of a string\<close>

lemma byte_char_of [simp]: "byte (char_of n) = n mod 256"
  by (simp add: byte_def)

lemma char_of_byte [simp]: "char_of (byte c) = c"
  by (simp add: byte_def)

lemma byte_inject [simp]: "byte c = byte d \<longleftrightarrow> c = d"
  by (simp add: byte_def)

lemma of_char_eq: "(of_char c :: nat) = n \<Longrightarrow> c = char_of n"
  by auto

lemma unhex_hex_digit: "n < 16 \<Longrightarrow> unhex_digit (hex_digit n) = Some n"
  by (auto simp: hex_digit_def unhex_digit_def Let_def)

lemma hex_digits: "(((n div 4096) * 16 + n div 256 mod 16) * 16 + n div 16 mod 16) * 16 + n mod 16 = (n :: nat)"
proof -
  have "n div 4096 = n div 256 div 16" "n div 256 = n div 16 div 16"
    by (simp_all add: div_mult2_eq [symmetric])
  then show ?thesis by simp
qed

lemma unhex4_hex4:
  assumes "n < 65536"
  shows "unhex4 (hex_digit (n div 4096)) (hex_digit (n div 256 mod 16)) (hex_digit (n div 16 mod 16))
           (hex_digit (n mod 16)) = Some n"
proof -
  have "n div 4096 < 16" using assms by simp
  then show ?thesis using hex_digits [of n] by (simp add: unhex4_def unhex_hex_digit)
qed

lemma parse_esc_u:
  assumes "n < 55296"
  shows "parse_chars (Suc k) (esc_u n @ t) = map_option (\<lambda>(v, r). (utf8_enc n @ v, r)) (parse_chars k t)"
  using assms unhex4_hex4 [of n] by (simp add: esc_u_def hex4_def byte_def)

lemma utf8_enc_ascii: "byte c < 128 \<Longrightarrow> utf8_enc (byte c) = [c]"
  by (simp add: utf8_enc_def)

lemma parse_esc_ascii:
  assumes "byte c < 128"
  shows "parse_chars (Suc k) (esc_ascii c @ t) = map_option (\<lambda>(v, r). (c # v, r)) (parse_chars k t)"
proof -
  have c: "c = char_of (byte c)" by simp
  consider "byte c = 34 \<or> byte c = 92" | "byte c \<in> {8, 9, 10, 12, 13}"
    | "byte c < 32 \<or> byte c \<in> {38, 60, 62}" "byte c \<notin> {8, 9, 10, 12, 13}"
    | "32 \<le> byte c" "byte c \<notin> {34, 38, 60, 62, 92}"
    by fastforce
  then show ?thesis
  proof cases
    case 1
    then show ?thesis by (auto simp: esc_ascii_def byte_def)
  next
    case 2
    then show ?thesis by (auto simp: esc_ascii_def byte_def dest: of_char_eq)
  next
    case 3
    then have "esc_ascii c = esc_u (byte c)" by (auto simp: esc_ascii_def Let_def)
    moreover have "byte c < 55296" using assms by simp
    ultimately show ?thesis by (simp add: parse_esc_u utf8_enc_ascii assms del: parse_chars.simps)
  next
    case 4
    then show ?thesis using assms by (simp add: esc_ascii_def Let_def)
  qed
qed

lemma utf8_len_front:
  assumes "utf8_len s = n" and "n \<noteq> 0"
  shows "2 \<le> n \<and> n \<le> length s \<and> utf8_len (take n s @ x) = n"
proof -
  obtain a b r where s: "s = a # b # r"
    using assms by (cases s; cases "tl s") (auto simp: utf8_len_def)
  consider "n = 2" | c r' where "n = 3" "r = c # r'" | c d r' where "n = 4" "r = c # d # r'"
    using assms unfolding s utf8_len_def by (fastforce split: if_split_asm list.split_asm)
  then show ?thesis
    using assms unfolding s by cases (auto simp: utf8_len_def split: if_splits list.splits)
qed

lemma esc_multi_cases:
  obtains "esc_multi r = r" | n where "esc_multi r = esc_u n" and "n < 55296" and "utf8_enc n = r"
proof -
  have r: "r = map char_of (map byte r)" by (simp add: comp_def)
  show thesis
  proof (cases "map byte r = [226, 128, 168] \<or> map byte r = [226, 128, 169]")
    case True
    then have "utf8_enc (if map byte r = [226, 128, 168] then 8232 else 8233) = r"
      by (subst (2) r) (auto simp: utf8_enc_def)
    then show thesis using True that(2) by (auto simp: esc_multi_def)
  next
    case False
    then show thesis using that(1) by (auto simp: esc_multi_def)
  qed
qed

lemma parse_esc_multi:
  assumes "utf8_len (c # s) = n" and "n \<noteq> 0" and "\<not> byte c < 128"
  shows "parse_chars (Suc k) (esc_multi (c # take (n - 1) s) @ t) =
         map_option (\<lambda>(v, r). (c # take (n - 1) s @ v, r)) (parse_chars k t)"
proof -
  have front: "2 \<le> n" "n \<le> length (c # s)" "utf8_len (take n (c # s) @ t) = n"
    using utf8_len_front [OF assms(1,2)] by auto
  have cut: "take n (c # s) = c # take (n - 1) s" using front(1) by (cases n) auto
  have len: "utf8_len (c # take (n - 1) s @ t) = n"
    using front(3) by (simp add: cut)
  show ?thesis
  proof (cases rule: esc_multi_cases [of "c # take (n - 1) s"])
    case 1
    obtain m where m: "n = Suc m" using assms(2) by (cases n) auto
    have "length (take m s) = m" using front m by simp
    then show ?thesis using assms(3) len 1 by (simp add: m Let_def)
  next
    case (2 m)
    then show ?thesis by (simp add: parse_esc_u del: parse_chars.simps)
  qed
qed

lemma parse_encode_chars:
  "utf8_ok s \<Longrightarrow> length s < k \<Longrightarrow> parse_chars k (encode_chars s @ CHR 0x22 # t) = Some (s, t)"
proof (induction s arbitrary: k rule: encode_chars.induct)
  case 1
  then show ?case by (cases k) (simp_all add: byte_def)
next
  case (2 c s)
  then obtain k' where k: "k = Suc k'" by (cases k) auto
  show ?case
  proof (cases "byte c < 128")
    case True
    then show ?thesis using 2 by (simp add: k parse_esc_ascii del: parse_chars.simps)
  next
    case False
    define n where "n = utf8_len (c # s)"
    have n: "n \<noteq> 0" and ok: "utf8_ok (drop (n - 1) s)"
      using False 2(4) by (simp_all add: n_def)
    have "parse_chars k' (encode_chars (drop (n - 1) s) @ CHR 0x22 # t) = Some (drop (n - 1) s, t)"
      using 2(3) [OF False n_def n ok] 2(5) k by simp
    then show ?thesis
      using False n parse_esc_multi [OF n_def [symmetric] n False]
      by (simp add: k n_def [symmetric] del: parse_chars.simps)
  qed
qed


lemma length_esc_ascii: "1 \<le> length (esc_ascii c)"
  by (simp add: esc_ascii_def Let_def esc_u_def)

lemma length_encode_chars: "length s \<le> length (encode_chars s)"
proof (induction s rule: encode_chars.induct)
  case 1
  then show ?case by simp
next
  case (2 c s)
  show ?case
  proof (cases "byte c < 128")
    case True
    then show ?thesis using 2(1) length_esc_ascii [of c] by simp
  next
    case False
    define n where "n = utf8_len (c # s)"
    show ?thesis
    proof (cases "n = 0")
      case True
      then show ?thesis using 2(2) [OF False n_def] False n_def by (simp add: esc_u_def hex4_def)
    next
      case n: False
      have "n \<le> 4" by (simp add: n_def utf8_len_def split: list.split)
      then have "length (take n (c # s)) \<le> length (esc_multi (c # take (n - 1) s))"
        using n by (auto simp: esc_multi_def esc_u_def hex4_def)
      moreover have "length s - (n - 1) \<le> length (encode_chars (drop (n - 1) s))"
        using 2(3) [OF False n_def n] by simp
      ultimately show ?thesis
        using False n utf8_len_front [OF n_def [symmetric] n] by (simp add: n_def [symmetric])
    qed
  qed
qed

lemma parse_chars_encoded:
  "utf8_ok s \<Longrightarrow> length (encode_chars s) < k \<Longrightarrow>
   parse_chars k (encode_chars s @ CHR 0x22 # t) = Some (s, t)"
  using parse_encode_chars [of s k t] length_encode_chars [of s] by simp

lemma parse_value_string:
  assumes "utf8_ok s"
  shows "parse_value (Suc k) (encode_string s @ t) = Some (JStr s, t)"
  using assms by (simp add: encode_string_def skip_ws_def byte_def parse_chars_encoded)

text \<open>What \<open>encode_object\<close> writes is read back member by member.\<close>

lemma parse_members_encode:
  assumes "\<forall>(k, v)\<in>set ms. utf8_ok k \<and> utf8_ok v" and "ms \<noteq> []" and "length ms < n"
  shows "parse_members n (encode_members ms @ CHR ''}'' # t) =
         Some (map (\<lambda>(k, v). (k, JStr v)) ms, t)"
  using assms
proof (induction ms arbitrary: n rule: encode_members.induct)
  case 1
  then show ?case by simp
next
  case (2 k v)
  obtain n' where n: "n = Suc (Suc n')" using 2(3) by (cases n; cases "n - 1") auto
  then show ?case
    using 2(1) parse_value_string [of v n']
    by (simp add: n skip_ws_def encode_string_def [of k] byte_def parse_chars_encoded del: parse_value.simps)
next
  case (3 k v m ms)
  obtain n' where n: "n = Suc (Suc n')" using 3(4) by (cases n; cases "n - 1") auto
  have "parse_members (Suc n') (encode_members (m # ms) @ CHR ''}'' # t) =
      Some (map (\<lambda>(k, v). (k, JStr v)) (m # ms), t)"
    using 3(1) [of "Suc n'"] 3(2,4) n by simp
  then show ?case
    using 3(2) parse_value_string [of v n']
    by (simp add: n skip_ws_def parse_chars_encoded encode_string_def [of k] byte_def
        del: parse_value.simps parse_members.simps(2) encode_members.simps
        add: parse_members.simps(2) [of "Suc n'" "_ # _"] encode_members.simps(3))
qed

lemma length_encode_members: "ms \<noteq> [] \<Longrightarrow> length ms < length (encode_members ms)"
  by (induction ms rule: encode_members.induct) (simp_all add: encode_string_def)

lemma json_parse_encode_object:
  assumes "\<forall>(k, v)\<in>set ms. utf8_ok k \<and> utf8_ok v" and "ms \<noteq> []"
  shows "json_parse (encode_object ms) = Some (JObj (map (\<lambda>(k, v). (k, JStr v)) ms))"
proof -
  obtain c r where front: "encode_members ms = c # r" "byte c = 34"
    using assms(2) by (cases ms rule: encode_members.cases) (simp_all add: encode_string_def byte_def)
  then have "skip_ws (encode_members ms @ t) = encode_members ms @ t" for t
    by (simp add: skip_ws_def)
  moreover have "parse_members (Suc (length (encode_members ms))) (encode_members ms @ ''}'') =
      Some (map (\<lambda>(k, v). (k, JStr v)) ms, [])"
    using parse_members_encode [OF assms, of _ "[]"] length_encode_members [OF assms(2)]
    by (simp del: parse_members.simps)
  ultimately show ?thesis
    using front by (simp add: json_parse_def encode_object_def skip_ws_def byte_def del: parse_members.simps)
qed

end
