(* ===== verification/Node_State.thy ===== *)
theory Node_State
  imports Layout Go_Json
begin

text \<open>
  \<open>internal/state\<close>: the record of the last healthy boot and the last event, two small files
  that are replaced atomically. The contract of such a replacement is the locale \<open>atomic_file\<close>;
  \<open>writeAtomic\<close> provides it, and so does the kubeconfig writer of the certificate package.
\<close>

section \<open>The record and its encoding\<close>

record LastBoot =
  Version :: string
  DeploymentID :: string
  BootID :: string

definition no_boot :: LastBoot where
  "no_boot = \<lparr>Version = [], DeploymentID = [], BootID = []\<rparr>"

text \<open>\<open>json.Marshal\<close> with the tags of the struct: two fields are left out when empty.\<close>

definition boot_members :: "LastBoot \<Rightarrow> (string \<times> string) list" where
  "boot_members lb =
     (''version'', Version lb) #
     (if DeploymentID lb = [] then [] else [(''deploymentId'', DeploymentID lb)]) @
     (if BootID lb = [] then [] else [(''bootId'', BootID lb)])"

definition Marshal :: "LastBoot \<Rightarrow> string" where
  "Marshal lb = encode_object (boot_members lb)"

definition Unmarshal :: "string \<Rightarrow> LastBoot option" where
  "Unmarshal b = (case json_parse b of
     Some (JObj ms) \<Rightarrow>
       (case (decode_string ''version'' ms [], decode_string ''deploymentId'' ms [],
              decode_string ''bootId'' ms []) of
          (Some v, Some d, Some i) \<Rightarrow> Some \<lparr>Version = v, DeploymentID = d, BootID = i\<rparr>
        | _ \<Rightarrow> None)
   | Some JNull \<Rightarrow> Some no_boot
   | _ \<Rightarrow> None)"

definition boot_utf8 :: "LastBoot \<Rightarrow> bool" where
  "boot_utf8 lb \<longleftrightarrow> utf8_ok (Version lb) \<and> utf8_ok (DeploymentID lb) \<and> utf8_ok (BootID lb)"

lemma Unmarshal_Marshal:
  assumes "boot_utf8 lb"
  shows "Unmarshal (Marshal lb) = Some lb"
proof -
  have keys: "utf8_ok ''version''" "utf8_ok ''deploymentId''" "utf8_ok ''bootId''"
    by (simp_all add: byte_def)
  have same: "same_field ''version'' ''version''" "\<not> same_field ''version'' ''deploymentId''"
    "\<not> same_field ''version'' ''bootId''" "\<not> same_field ''deploymentId'' ''version''"
    "same_field ''deploymentId'' ''deploymentId''" "\<not> same_field ''deploymentId'' ''bootId''"
    "\<not> same_field ''bootId'' ''version''" "\<not> same_field ''bootId'' ''deploymentId''"
    "same_field ''bootId'' ''bootId''"
    by (simp_all add: same_field_def lower_def byte_def)
  have "\<forall>(k, v)\<in>set (boot_members lb). utf8_ok k \<and> utf8_ok v"
    using assms by (auto simp: boot_members_def boot_utf8_def keys simp del: utf8_ok.simps)
  then have "json_parse (Marshal lb) = Some (JObj (map (\<lambda>(k, v). (k, JStr v)) (boot_members lb)))"
    unfolding Marshal_def by (rule json_parse_encode_object) (simp add: boot_members_def)
  then show ?thesis by (simp add: Unmarshal_def boot_members_def same)
qed

section \<open>Files replaced atomically\<close>

text \<open>
  \<open>scratch p\<close> are the paths a writer may use beside \<open>p\<close>. An error leaves the old content, a
  power loss the old or the new one.
\<close>

locale atomic_file =
  fixes put_file :: "path \<Rightarrow> string \<Rightarrow> ('e, unit) io"
    and scratch :: "path \<Rightarrow> path set"
    and mode :: nat
  assumes write_outcome: "\<And>p b fs. Dir_of p \<noteq> [] \<Longrightarrow> p \<notin> scratch p \<Longrightarrow>
    fwp (put_file p b)
      (\<lambda>_ fs'. look fs' p = Some (File mode b) \<and> same_on (- (below p \<union> above p \<union> scratch p)) fs fs')
      (\<lambda>_ fs'. look fs' p = look fs p \<and> same_on (- (below p \<union> above p \<union> scratch p)) fs fs')
      (\<lambda>fs'. look fs' p \<in> {look fs p, Some (File mode b)} \<and>
            same_on (- (below p \<union> above p \<union> scratch p)) fs fs') fs"
begin

lemma old_or_new:
  assumes "Dir_of p \<noteq> []" "p \<notin> scratch p"
  shows "look (w_fs (snd (put_file p b w))) p \<in> {look (w_fs w) p, Some (File mode b)}"
  by (rule fwp_every_outcome, rule fwp_mono [OF write_outcome [OF assms]]) auto

lemma reads_back:
  assumes "Dir_of p \<noteq> []" "p \<notin> scratch p"
    and "\<And>fs'. look fs' p = Some (File mode b) \<Longrightarrow> Q b fs'"
  shows "fwp (seq (put_file p b) (os_ReadFile p)) Q (\<lambda>_ _. True) (\<lambda>_. True) fs"
  by (rule fwp_seq, rule fwp_mono [OF write_outcome [OF assms(1,2)]], rule fwp_ReadFile)
    (use assms(3) in auto)

lemma keeps_put_file:
  assumes "Dir_of p \<noteq> []" "p \<notin> scratch p" "Z \<inter> (below p \<union> above p \<union> scratch p) = {}"
  shows "keeps (on_fs (same_on Z fs0)) (put_file p b)"
  by (rule keeps_footprint, rule fwp_mono [OF write_outcome [OF assms(1,2)]])
    (use assms(3) in \<open>auto simp: same_on_def disjoint_iff\<close>)

end

definition writeAtomic :: "path \<Rightarrow> string \<Rightarrow> ('e, unit) io" where
  "writeAtomic p data =
     seq (os_MkdirAll (Dir_of p) 0x1ED)
       (bind (os_CreateTemp (Dir_of p) ''.tmp-'') (\<lambda>tmp.
         deferred (os_Remove tmp)
           (seq (on_err (file_Write tmp data) (\<lambda>e. seq (ignore (file_Close tmp)) (throw e)))
             (seq (on_err (file_Sync tmp) (\<lambda>e. seq (ignore (file_Close tmp)) (throw e)))
               (seq (file_Close tmp)
                 (os_Rename tmp p))))))"

definition state_scratch :: "path \<Rightarrow> path set" where
  "state_scratch p = {q. \<exists>t\<in>temp_names (Dir_of p) ''.tmp-''. prefix t q}"

lemma wf_writeAtomic [keeps_rules]: "keeps (on_fs wf_fs) (writeAtomic p b)"
  unfolding writeAtomic_def by (intro keeps_rules)

lemma temp_in_state_scratch:
  assumes "t \<in> temp_names (Dir_of p) ''.tmp-''" and "p \<notin> state_scratch p" and "Dir_of p \<noteq> []"
  shows "apart t p" "below t \<subseteq> state_scratch p" "t \<noteq> p"
proof -
  have p: "p = Dir_of p @ [last p]" using assms(3) by (cases p) (auto simp: Dir_of_def)
  obtain c where t: "t = Dir_of p @ [c]" using assms(1) by (auto simp: temp_names_def)
  show np: "t \<noteq> p" using assms(1,2) by (auto simp: state_scratch_def)
  show "apart t p" using np apart_siblings [of c "last p" "Dir_of p"] t p by metis
  show "below t \<subseteq> state_scratch p" using assms(1) by (auto simp: state_scratch_def)
qed

text \<open>A change below the temporary file concerns neither the target nor anything outside.\<close>

lemma temp_step:
  assumes "same_on (- below t) fs1 fs2" "t \<in> temp_names (Dir_of p) ''.tmp-''"
    and "p \<notin> state_scratch p" and "Dir_of p \<noteq> []"
  shows "look fs2 p = look fs1 p"
    and "same_on (- (below p \<union> above p \<union> state_scratch p)) fs fs1 \<Longrightarrow>
         same_on (- (below p \<union> above p \<union> state_scratch p)) fs fs2"
proof -
  note t = temp_in_state_scratch [OF assms(2-4)]
  show "look fs2 p = look fs1 p" using assms(1) t(1) by (auto simp: same_on_def apart_def)
  have "same_on (- (below p \<union> above p \<union> state_scratch p)) fs1 fs2"
    using t(2) by (intro same_on_mono [OF assms(1)]) auto
  then show "same_on (- (below p \<union> above p \<union> state_scratch p)) fs fs1 \<Longrightarrow>
         same_on (- (below p \<union> above p \<union> state_scratch p)) fs fs2" using same_on_trans by blast
qed

lemma temp_renamed:
  assumes "\<forall>q. look fs2 q = look (if t = p then fs1 else rename_tree t p fs1) q"
    and "t \<in> temp_names (Dir_of p) ''.tmp-''" and "p \<notin> state_scratch p" and "Dir_of p \<noteq> []"
  shows "look fs2 p = look fs1 t" "same_on (- (below p \<union> above p \<union> state_scratch p)) fs1 fs2"
proof -
  note t = temp_in_state_scratch [OF assms(2-4)]
  have look: "look fs2 q = (if prefix p q then look fs1 (rebase p t q)
      else if prefix t q then None else look fs1 q)" for q
    using assms(1) t(1,3) look_rename_tree [of t p fs1 q] by (simp add: apart_def)
  show "look fs2 p = look fs1 t" by (simp add: look rebase_def)
  show "same_on (- (below p \<union> above p \<union> state_scratch p)) fs1 fs2"
    using t(2) by (auto simp: same_on_def look)
qed

lemma mkdir_parent:
  assumes "grown (Dir_of p) m fs fs'" and "p \<noteq> []"
  shows "look fs' p = look fs p \<and> same_on (- (below p \<union> above p \<union> S)) fs fs'"
proof -
  have "same_on (- above (Dir_of p)) fs fs'" using assms(1) by (rule grown_same_on) auto
  moreover have "above (Dir_of p) \<subseteq> above p - {p}"
    using assms(2) not_prefix_butlast [of p]
    by (auto simp: Dir_of_def dest: prefix_order.trans [OF _ prefixeq_butlast])
  ultimately show ?thesis
    by (auto simp: same_on_def)
qed

text \<open>From the fresh temporary file on: the old file until the rename, the new one after it.\<close>

lemma fwp_commit:
  fixes p :: path and b :: string and fs :: fsys
  defines "Z \<equiv> - (below p \<union> above p \<union> state_scratch p)"
  assumes t: "t \<in> temp_names (Dir_of p) ''.tmp-''" "p \<notin> state_scratch p" "Dir_of p \<noteq> []"
    and old: "look fs1 p = look fs p" "same_on Z fs fs1"
    and data: "look fs1 t = Some (File 0x180 [])"
  shows "fwp (deferred (os_Remove t)
      (seq (on_err (file_Write t b) (\<lambda>e. seq (ignore (file_Close t)) (throw e)))
        (seq (on_err (file_Sync t) (\<lambda>e. seq (ignore (file_Close t)) (throw e)))
          (seq (file_Close t) (os_Rename t p)))))
      (\<lambda>_ fs'. look fs' p = Some (File 0x180 b) \<and> same_on Z fs fs')
      (\<lambda>_ fs'. look fs' p = look fs p \<and> same_on Z fs fs')
      (\<lambda>fs'. look fs' p \<in> {look fs p, Some (File 0x180 b)} \<and> same_on Z fs fs') fs1"
proof -
  let ?new = "\<lambda>fs'. look fs' p = Some (File 0x180 b) \<and> same_on Z fs fs'"
  let ?old = "\<lambda>fs'. look fs' p = look fs p \<and> same_on Z fs fs'"
  let ?any = "\<lambda>fs'. look fs' p \<in> {look fs p, Some (File 0x180 b)} \<and> same_on Z fs fs'"
  note step = temp_step [OF _ t, folded Z_def]
  have gone: "same_on (- below t) fs2 fs3" if "\<forall>q. look fs3 q = (if q = t then None else look fs2 q)" for fs2 fs3
    using that by (auto simp: same_on_def)
  have rm_new: "fwp (os_Remove t) (\<lambda>_. ?new) (\<lambda>_. ?new) ?any fs2" if "?new fs2" for fs2
    by (rule fwp_Remove) (use that step [OF gone] in auto)
  have rm_old: "fwp (os_Remove t) (\<lambda>_. ?old) (\<lambda>_. ?old) ?any fs2" if "?old fs2" for fs2
    by (rule fwp_Remove) (use that step [OF gone] in auto)
  have filled: "?old fs2" if "same_on (- {t}) fs1 fs2" for fs2
    using step [OF same_on_mono [OF that]] old by auto
  have renamed: "?new fs3"
    if "?old fs2" "look fs2 t = Some (File 0x180 b)"
      "\<forall>q. look fs3 q = look (if t = p then fs2 else rename_tree t p fs2) q" for fs2 fs3
    using that(1,2) temp_renamed [OF that(3) t, folded Z_def] same_on_trans by auto
  show ?thesis
    by (intro fwp_deferred fwp_seq fwp_on_err fwp_ignore fwp_throw fwp_Write fwp_Sync fwp_Close
        fwp_Rename rm_new rm_old)
      (simp add: filled; fail | rule renamed [OF filled], assumption, simp add: data, assumption)+
qed

lemma fwp_writeAtomic:
  fixes p :: path and b :: string and fs :: fsys
  defines "Z \<equiv> - (below p \<union> above p \<union> state_scratch p)"
  assumes p: "Dir_of p \<noteq> []" and scr: "p \<notin> state_scratch p"
  shows "fwp (writeAtomic p b)
      (\<lambda>_ fs'. look fs' p = Some (File 0x180 b) \<and> same_on Z fs fs')
      (\<lambda>_ fs'. look fs' p = look fs p \<and> same_on Z fs fs')
      (\<lambda>fs'. look fs' p \<in> {look fs p, Some (File 0x180 b)} \<and> same_on Z fs fs') fs"
proof -
  have ne: "p \<noteq> []" using p by (auto simp: Dir_of_def)
  note dir = mkdir_parent [OF _ ne, where S = "state_scratch p", folded Z_def]
  have begun: "look fs2 p = look fs p" "same_on Z fs fs2"
    if "grown (Dir_of p) m fs fs1" "same_on (- {t}) fs1 fs2" "t \<in> temp_names (Dir_of p) ''.tmp-''"
    for t m fs1 fs2
    using temp_step [OF same_on_mono [OF that(2)] that(3) scr p, folded Z_def] dir [OF that(1)] by auto
  show ?thesis
    unfolding writeAtomic_def
  proof (rule fwp_seq, rule fwp_MkdirAll [OF p], goal_cases)
    case (3 fs1)
    then show ?case
    proof (intro fwp_bind, rule_tac fwp_CreateTemp, goal_cases)
      case (3 t fs2)
      then show ?case
        unfolding Z_def
        by (intro fwp_commit) (use scr p begun in \<open>auto simp: Z_def\<close>)
    qed (use dir in auto)
  qed (use dir in auto)
qed

interpretation nodefile: atomic_file writeAtomic state_scratch "0x180"
  by unfold_locales (rule fwp_writeAtomic)

section \<open>Operations\<close>

definition ReadLastBoot :: "Layout \<Rightarrow> ('e, LastBoot \<times> bool) io" where
  "ReadLastBoot l =
     bind (attempt (os_ReadFile (LastBootFile l))) (\<lambda>r. case r of
       Inl e \<Rightarrow> if ErrNotExist e then ret (no_boot, False) else throw (Wrapf ''read last-boot'' e)
     | Inr b \<Rightarrow> (case Unmarshal b of
           None \<Rightarrow> throw (Wrapf ''parse last-boot'' (Msg ''json''))
         | Some lb \<Rightarrow> ret (lb, True)))"

definition WriteLastBoot :: "Layout \<Rightarrow> LastBoot \<Rightarrow> ('e, unit) io" where
  "WriteLastBoot l lb = writeAtomic (LastBootFile l) (Marshal lb)"

definition WriteLastEvent :: "Layout \<Rightarrow> string \<Rightarrow> ('e, unit) io" where
  "WriteLastEvent l msg = writeAtomic (LastEventFile l) (msg @ [CHR 0x0A])"

definition ReadLastEvent :: "Layout \<Rightarrow> ('e, string) io" where
  "ReadLastEvent l =
     bind (attempt (os_ReadFile (LastEventFile l))) (\<lambda>r. case r of
       Inl e \<Rightarrow> if ErrNotExist e then ret [] else throw e
     | Inr b \<Rightarrow> ret (TrimSpace b))"

definition fileExists :: "path \<Rightarrow> ('e, bool) io" where
  "fileExists p =
     bind (attempt (os_Stat p)) (\<lambda>r. case r of
       Inr _ \<Rightarrow> ret True
     | Inl e \<Rightarrow> if ErrNotExist e then ret False else throw e)"

fun any_exists :: "path list \<Rightarrow> ('e, bool) io" where
  "any_exists [] = ret False"
| "any_exists (p # ps) = bind (fileExists p) (\<lambda>ok. if ok then ret True else any_exists ps)"

definition state_Exists :: "Layout \<Rightarrow> ('e, bool) io" where
  "state_Exists l = any_exists [KubeAPIServerManifest l, PicoKubeVarDir l]"

lemma state_file_ok:
  assumes "layout_ok l" and "p = LastBootFile l \<or> p = LastEventFile l"
  shows "Dir_of p = StateDir l" "Dir_of p \<noteq> []" "p \<notin> state_scratch p"
proof -
  show d: "Dir_of p = StateDir l" "Dir_of p \<noteq> []"
    using assms layout_okD(19) [OF assms(1)] by (auto simp: layout_ok_def Dir_of_def)
  have "p \<noteq> []" using d(2) by (auto simp: Dir_of_def)
  then obtain c where p: "p = StateDir l @ [c]" using d(1) by (metis Dir_of_def append_butlast_last_id)
  moreover have "\<not> prefix ''.tmp-'' (last p)" using assms by (auto simp: layout_ok_def)
  ultimately show "p \<notin> state_scratch p"
    by (auto simp: state_scratch_def temp_names_def Dir_of_snoc)
qed

text \<open>The two writers work in the state directory only, or on the way to it.\<close>

lemma state_files_inside:
  assumes "layout_ok l" and "p = LastBootFile l \<or> p = LastEventFile l"
  shows "below p \<union> above p \<union> state_scratch p \<subseteq> below (StateDir l) \<union> above (StateDir l)"
proof -
  have "p \<noteq> []" "butlast p = StateDir l" using assms by (auto simp: layout_ok_def)
  then obtain c where p: "p = StateDir l @ [c]" by (metis append_butlast_last_id)
  show ?thesis by (auto simp: p state_scratch_def temp_names_def Dir_of_snoc prefix_def append_eq_append_conv2 append_eq_Cons_conv)
qed

lemma keeps_WriteLastBoot [keeps_rules]:
  "layout_ok l \<Longrightarrow> Z \<inter> (below (StateDir l) \<union> above (StateDir l)) = {} \<Longrightarrow>
   keeps (on_fs (same_on Z fs0)) (WriteLastBoot l lb)"
  unfolding WriteLastBoot_def
  by (rule nodefile.keeps_put_file)
    (use state_file_ok [of l "LastBootFile l"] state_files_inside [of l "LastBootFile l"] in blast)+

lemma keeps_WriteLastEvent [keeps_rules]:
  "layout_ok l \<Longrightarrow> Z \<inter> (below (StateDir l) \<union> above (StateDir l)) = {} \<Longrightarrow>
   keeps (on_fs (same_on Z fs0)) (WriteLastEvent l msg)"
  unfolding WriteLastEvent_def
  by (rule nodefile.keeps_put_file)
    (use state_file_ok [of l "LastEventFile l"] state_files_inside [of l "LastEventFile l"] in blast)+

lemma wf_state_writes [keeps_rules]:
  "keeps (on_fs wf_fs) (WriteLastBoot l lb)" "keeps (on_fs wf_fs) (WriteLastEvent l msg)"
  by (simp_all add: WriteLastBoot_def WriteLastEvent_def wf_writeAtomic)

lemma keeps_ReadLastBoot [keeps_rules]: "keeps (on_fs P) (ReadLastBoot l)"
  unfolding ReadLastBoot_def by (intro keeps_rules)

lemma fwp_fileExists:
  assumes "C fs" "\<And>e. E e fs" "Q (look fs p \<noteq> None) fs"
  shows "fwp (fileExists p) Q E C fs"
  unfolding fileExists_def
  by (intro fwp_bind fwp_attempt fwp_Stat fwp_case_sum fwp_if fwp_ret fwp_throw)
    (use assms in \<open>auto simp: look_def\<close>)

lemma fwp_any_exists:
  assumes "C fs" "\<And>e. E e fs" "Q (\<exists>p\<in>set ps. look fs p \<noteq> None) fs"
  shows "fwp (any_exists ps :: ('e, bool) io) Q E C fs"
  using assms
proof (induction ps)
  case Nil
  then show ?case by (simp add: fwp_ret)
next
  case (Cons p ps)
  have rest: "fwp (any_exists ps :: ('e, bool) io) Q E C fs" if "look fs p = None"
    by (rule Cons.IH) (use Cons.prems that in auto)
  show ?case
    unfolding any_exists.simps
    by (intro fwp_bind fwp_fileExists fwp_if fwp_ret) (use Cons.prems rest in auto)
qed

section \<open>Properties\<close>

text \<open>What \<open>ReadLastBoot\<close> makes of a file system: nothing when the file is unreadable.\<close>

definition last_boot_of :: "Layout \<Rightarrow> fsys \<Rightarrow> (LastBoot \<times> bool) option" where
  "last_boot_of l fs = (case look fs (LastBootFile l) of
     None \<Rightarrow> Some (no_boot, False)
   | Some (File _ b) \<Rightarrow> map_option (\<lambda>lb. (lb, True)) (Unmarshal b)
   | Some (Dir _) \<Rightarrow> None)"

text \<open>C37: \<open>json.Unmarshal\<close> of what \<open>json.Marshal\<close> wrote gives the record back, for every record
  whose three strings are valid UTF-8: escaping, the fields left out when empty and the order of
  the members lose nothing.\<close>

theorem last_boot_roundtrip:
  assumes "boot_utf8 lb"
  shows "Unmarshal (Marshal lb) = Some lb"
  using assms by (rule Unmarshal_Marshal)

theorem last_boot_roundtrip_witness:
  "Unmarshal (Marshal \<lparr>Version = ''v1.2<3>'', DeploymentID = [], BootID = ''b''\<rparr>) =
   Some \<lparr>Version = ''v1.2<3>'', DeploymentID = [], BootID = ''b''\<rparr>"
  by (rule last_boot_roundtrip) (simp add: boot_utf8_def byte_def)

text \<open>C17: \<open>WriteLastBoot\<close> replaces the record atomically. A normal return leaves the new record, an
  error return the old one, and a power loss at any of its system calls, half-way through the
  write included, one of the two.\<close>

theorem write_last_boot_atomic:
  assumes "layout_ok l" and "boot_utf8 lb"
  shows "fwp (WriteLastBoot l lb)
     (\<lambda>_ fs'. last_boot_of l fs' = Some (lb, True))
     (\<lambda>_ fs'. last_boot_of l fs' = last_boot_of l fs)
     (\<lambda>fs'. last_boot_of l fs' = last_boot_of l fs \<or> last_boot_of l fs' = Some (lb, True)) fs"
  unfolding WriteLastBoot_def
  by (rule fwp_mono, rule nodefile.write_outcome)
    (use assms state_file_ok [of l "LastBootFile l"] in
      \<open>auto simp: last_boot_of_def Unmarshal_Marshal\<close>)

theorem write_last_boot_atomic_witness:
  "fwp (WriteLastBoot Default \<lparr>Version = ''1'', DeploymentID = ''d.0'', BootID = ''b''\<rparr>)
     (\<lambda>_ fs'. last_boot_of Default fs' = Some (\<lparr>Version = ''1'', DeploymentID = ''d.0'', BootID = ''b''\<rparr>, True))
     (\<lambda>_ fs'. last_boot_of Default fs' = last_boot_of Default [])
     (\<lambda>fs'. last_boot_of Default fs' = last_boot_of Default [] \<or>
        last_boot_of Default fs' = Some (\<lparr>Version = ''1'', DeploymentID = ''d.0'', BootID = ''b''\<rparr>, True)) []"
  by (rule write_last_boot_atomic) (simp_all add: boot_utf8_def byte_def)

text \<open>\<open>ReadLastBoot\<close> returns exactly what the file on disk records, reports a missing file as
  the absence of a record, and changes nothing. A file that does not decode is an error, never an
  empty record.\<close>

theorem read_last_boot:
  "fwp (ReadLastBoot l)
     (\<lambda>r fs'. fs' = fs \<and> last_boot_of l fs = Some r)
     (\<lambda>_ fs'. fs' = fs) (\<lambda>fs'. fs' = fs) fs"
  unfolding ReadLastBoot_def
  by (intro fwp_bind fwp_attempt fwp_ReadFile fwp_case_sum fwp_if fwp_ret fwp_throw fwp_case_option)
    (auto simp: last_boot_of_def miss_def split: if_splits)

text \<open>An event is read back as it was written when it is a line without blanks at its ends, which
  every event of the program is; the newline \<open>WriteLastEvent\<close> adds is taken off again.\<close>

theorem last_event_reads_back:
  assumes "layout_ok l" and "msg \<noteq> []" and "\<not> is_space (hd msg)" and "\<not> is_space (last msg)"
  shows "fwp (seq (WriteLastEvent l msg) (ReadLastEvent l)) (\<lambda>r _. r = msg) (\<lambda>_ _. True) (\<lambda>_. True) fs"
proof -
  have trim: "TrimSpace (msg @ [CHR 0x0A]) = msg"
    using TrimSpace_id [OF assms(2-4)] assms(2,3)
    by (cases msg) (auto simp: TrimSpace_def is_space_def dropWhile_append)
  show ?thesis
    unfolding WriteLastEvent_def ReadLastEvent_def
    by (intro fwp_seq fwp_mono [OF nodefile.write_outcome] fwp_bind fwp_attempt fwp_ReadFile
        fwp_case_sum fwp_if fwp_ret fwp_throw)
      (use assms(1) trim state_file_ok [of l "LastEventFile l"] in \<open>auto simp: miss_def\<close>)
qed

theorem last_event_reads_back_witness:
  "fwp (seq (WriteLastEvent Default ''healthy at 1'') (ReadLastEvent Default))
     (\<lambda>r _. r = ''healthy at 1'') (\<lambda>_ _. True) (\<lambda>_. True) []"
  by (rule last_event_reads_back) (simp_all add: is_space_def)

text \<open>\<open>Exists\<close> is true exactly when the static pod manifest of the API server or the picokube
  state directory is there, and it changes nothing.\<close>

theorem state_exists_iff:
  "fwp (state_Exists l)
     (\<lambda>b fs'. fs' = fs \<and>
        (b \<longleftrightarrow> look fs (KubeAPIServerManifest l) \<noteq> None \<or> look fs (PicoKubeVarDir l) \<noteq> None))
     (\<lambda>_ fs'. fs' = fs) (\<lambda>fs'. fs' = fs) fs"
  unfolding state_Exists_def by (rule fwp_any_exists) auto

end
