(* ===== verification/Backup.thy ===== *)
theory Backup
  imports Copy_Tree Node_State
begin

text \<open>
  \<open>internal/backup\<close>, the snapshots themselves: where they are, how one is made (\<open>Create\<close>, in the
  staging directory of \<open>AllocateWorkspace\<close>), read (\<open>ReadMeta\<close>) and put back (\<open>Restore\<close>).
  Which of them are kept is the business of the theory \<open>Catalog\<close>.
\<close>

section \<open>Names\<close>

definition kubeletStateFiles :: "string list" where
  "kubeletStateFiles = [''config.yaml'', ''instance-config.yaml'', ''kubeadm-flags.env'']"

definition metaFileName :: string where
  "metaFileName = ''meta.json''"

definition Name :: "LastBoot \<Rightarrow> string" where
  "Name meta = DeploymentID meta @ ''_'' @ BootID meta"

definition backup_BootID :: "('e, string) io" where
  "backup_BootID =
     bind (wrapf ''read boot_id'' (os_ReadFile (abs_path ''/proc/sys/kernel/random/boot_id'')))
       (\<lambda>b. ret (TrimSpace b))"

definition backup_Exists :: "Layout \<Rightarrow> string \<Rightarrow> ('e, bool) io" where
  "backup_Exists l name =
     bind (attempt (os_Stat (Join (BackupsDir l) name))) (\<lambda>r. case r of
       Inr _ \<Rightarrow> ret True
     | Inl e \<Rightarrow> if ErrNotExist e then ret False else throw e)"

section \<open>The workspace\<close>

text \<open>\<open>BackupTmp\<close> is the empty string when backups are off, here \<open>None\<close>.\<close>

record Workspace =
  BackupTmp :: "path option"

definition stagingSubdir :: string where
  "stagingSubdir = ''.staging''"

definition staging_dir :: "Layout \<Rightarrow> path" where
  "staging_dir l = Join (BackupsDir l) stagingSubdir"

text \<open>The second component is the clean-up function the caller defers.\<close>

definition AllocateWorkspace :: "Layout \<Rightarrow> bool \<Rightarrow> ('e, Workspace \<times> ('e, unit) io) io" where
  "AllocateWorkspace l useBackups =
     (if \<not> useBackups then ret (\<lparr>BackupTmp = None\<rparr>, ret ())
      else seq (wrapf (''mkdir '' @ path_text (BackupsDir l)) (os_MkdirAll (BackupsDir l) 0x1C0))
        (let staging = Join (BackupsDir l) stagingSubdir in
         seq (wrapf (''clear stale staging '' @ path_text staging) (os_RemoveAll staging))
           (seq (wrapf (''mkdir staging '' @ path_text staging) (os_MkdirAll staging 0x1C0))
             (ret (\<lparr>BackupTmp = Some staging\<rparr>, ignore (os_RemoveAll staging))))))"

section \<open>Making a snapshot\<close>

definition writeMeta :: "path \<Rightarrow> LastBoot \<Rightarrow> ('e, unit) io" where
  "writeMeta dir meta = os_WriteFile (Join dir metaFileName) (Marshal meta) 0x180"

definition Create :: "'e cp \<Rightarrow> path \<Rightarrow> path \<Rightarrow> LastBoot \<Rightarrow> Layout \<Rightarrow> ('e, unit) io" where
  "Create cp stagingDir finalDir meta l =
     (if DeploymentID meta = [] \<or> BootID meta = []
      then throw (Msg ''backup requires DeploymentID and BootID'')
      else bind (attempt (os_Stat finalDir)) (\<lambda>r. case r of
        Inr _ \<Rightarrow> ret ()
      | Inl e \<Rightarrow>
          if \<not> ErrNotExist e then throw (Wrapf (''stat '' @ path_text finalDir) e)
          else
            seq (wrapf ''copy etcd'' (copyDirIfExists cp (EtcdDataDir l) (Join stagingDir ''etcd'')))
           (seq (wrapf ''copy kubernetes''
                  (copyDirIfExists cp (KubernetesDir l) (Join stagingDir ''kubernetes'')))
             (let kubeletDst = Join stagingDir ''kubelet'' in
              seq (wrapf ''mkdir kubelet'' (os_MkdirAll kubeletDst 0x1C0))
             (seq (each kubeletStateFiles (\<lambda>f.
                     wrapf (''copy kubelet/'' @ f)
                       (copyFileIfExists cp (Join (KubeletDir l) f) (Join kubeletDst f))))
             (seq (wrapf ''write meta'' (writeMeta stagingDir meta))
               (wrapf (''rename '' @ path_text stagingDir @ '' -> '' @ path_text finalDir)
                 (os_Rename stagingDir finalDir))))))))"

definition ReadMeta :: "Layout \<Rightarrow> string \<Rightarrow> ('e, LastBoot) io" where
  "ReadMeta l name =
     bind (wrapf (''read '' @ name @ '' meta'')
            (os_ReadFile (Join (Join (BackupsDir l) name) metaFileName)))
       (\<lambda>b. case Unmarshal b of
          None \<Rightarrow> throw (Wrapf (''parse '' @ name @ '' meta'') (Msg ''json''))
        | Some meta \<Rightarrow> ret meta)"

section \<open>Putting one back\<close>

definition restore_file :: "'e cp \<Rightarrow> path \<Rightarrow> Layout \<Rightarrow> string \<Rightarrow> ('e, unit) io" where
  "restore_file cp src l f =
     (let srcFile = Join (Join src ''kubelet'') f; dstFile = Join (KubeletDir l) f in
      bind (attempt (os_Stat srcFile)) (\<lambda>r. case r of
        Inl e \<Rightarrow>
          if ErrNotExist e
          then on_err (os_Remove dstFile)
                 (\<lambda>e. if ErrNotExist e then ret () else throw (Wrapf (''remove live '' @ f) e))
          else throw e
      | Inr _ \<Rightarrow> wrapf (''restore kubelet/'' @ f) (replaceFile cp srcFile dstFile)))"

definition Restore :: "'e cp \<Rightarrow> Layout \<Rightarrow> string \<Rightarrow> ('e, unit) io" where
  "Restore cp l name =
     (let src = Join (BackupsDir l) name in
      seq (wrapf (''stat backup '' @ name) (os_Stat src))
     (seq (wrapf ''restore etcd'' (restoreDir cp (Join src ''etcd'') (EtcdDataDir l)))
     (seq (wrapf ''restore kubernetes'' (restoreDir cp (Join src ''kubernetes'') (KubernetesDir l)))
     (seq (os_MkdirAll (KubeletDir l) 0x1ED)
       (each kubeletStateFiles (restore_file cp src l))))))"

section \<open>Layout facts\<close>

lemma simple_names [simp]:
  "simple_name ''etcd''" "simple_name ''kubernetes''" "simple_name ''kubelet''"
  "simple_name metaFileName" "simple_name stagingSubdir"
  by (simp_all add: simple_name_def metaFileName_def stagingSubdir_def)

lemma simple_kubelet_file [simp]: "f \<in> set kubeletStateFiles \<Longrightarrow> simple_name f"
  by (auto simp: kubeletStateFiles_def simple_name_def)

lemma below_restore_area:
  "apart p dst \<Longrightarrow> apart p (path_suffix dst ''.restoring'') \<Longrightarrow> below p \<inter> restore_area dst = {}"
  by (rule restore_area_src)

lemma below_around: "apart p q \<Longrightarrow> below p \<inter> (below q \<union> above q) = {}"
  using below_apart [of p q] prefix_order.trans [of p _ q] by (auto simp: apart_def)

text \<open>Everything a restore may touch: the backups are not in it, and no target in another's part.\<close>

definition kubelet_area :: "Layout \<Rightarrow> path set" where
  "kubelet_area l = below (KubeletDir l) \<union> above (KubeletDir l)"

definition restore_region :: "Layout \<Rightarrow> path set" where
  "restore_region l =
     restore_area (EtcdDataDir l) \<union> restore_area (KubernetesDir l) \<union> kubelet_area l"

lemma restore_regions_apart:
  assumes "layout_ok l"
  shows "below (BackupsDir l) \<inter> restore_region l = {}"
    "below (EtcdDataDir l) \<inter> (restore_area (KubernetesDir l) \<union> kubelet_area l) = {}"
    "below (KubernetesDir l) \<inter> (restore_area (EtcdDataDir l) \<union> kubelet_area l) = {}"
    "kubelet_area l \<inter> below (EtcdDataDir l) = {}" "kubelet_area l \<inter> below (KubernetesDir l) = {}"
    "below (KubeletDir l) \<inter> (restore_area (EtcdDataDir l) \<union> restore_area (KubernetesDir l)) = {}"
proof -
  note ok = layout_okD [OF assms] layout_okD(1-14) [OF assms, THEN apart_sym]
  show "below (BackupsDir l) \<inter> restore_region l = {}"
    using below_restore_area [of "BackupsDir l" "EtcdDataDir l"]
      below_restore_area [of "BackupsDir l" "KubernetesDir l"] below_around [of "BackupsDir l" "KubeletDir l"] ok
    by (auto simp: restore_region_def kubelet_area_def restoring_def)
  show "below (EtcdDataDir l) \<inter> (restore_area (KubernetesDir l) \<union> kubelet_area l) = {}"
    using below_restore_area [of "EtcdDataDir l" "KubernetesDir l"] below_around [of "EtcdDataDir l" "KubeletDir l"] ok
    by (auto simp: kubelet_area_def restoring_def)
  show "below (KubernetesDir l) \<inter> (restore_area (EtcdDataDir l) \<union> kubelet_area l) = {}"
    using below_restore_area [of "KubernetesDir l" "EtcdDataDir l"] below_around [of "KubernetesDir l" "KubeletDir l"] ok
    by (auto simp: kubelet_area_def restoring_def)
  show "kubelet_area l \<inter> below (EtcdDataDir l) = {}" "kubelet_area l \<inter> below (KubernetesDir l) = {}"
    using below_around [of "EtcdDataDir l" "KubeletDir l"] below_around [of "KubernetesDir l" "KubeletDir l"] ok
    by (auto simp: kubelet_area_def)
  show "below (KubeletDir l) \<inter> (restore_area (EtcdDataDir l) \<union> restore_area (KubernetesDir l)) = {}"
    using below_restore_area [of "KubeletDir l" "EtcdDataDir l"]
      below_restore_area [of "KubeletDir l" "KubernetesDir l"] ok
    by (auto simp: restoring_def)
qed

lemma restore_area_file: "p \<noteq> [] \<Longrightarrow> restore_area (p @ [f]) \<subseteq> below p \<union> above p"
  by (auto simp: restore_area_def path_suffix_snoc prefix_snoc dest: append_prefixD)

section \<open>What Restore does\<close>

definition backup_file :: "Layout \<Rightarrow> string \<Rightarrow> string \<Rightarrow> path" where
  "backup_file l name f = BackupsDir l @ [name, ''kubelet'', f]"

text \<open>
  The live trees and files are those of the backup \<open>name\<close> in \<open>fs\<close>; or each of them is the one of
  \<open>fs\<close> or the one of the backup. About a tree the backup lacks, the second says nothing: it is
  being removed.
\<close>

definition restored :: "Layout \<Rightarrow> string \<Rightarrow> fsys \<Rightarrow> fsys \<Rightarrow> bool" where
  "restored l name fs v \<longleftrightarrow>
     sub v (EtcdDataDir l) = sub fs (BackupsDir l @ [name, ''etcd'']) \<and>
     sub v (KubernetesDir l) = sub fs (BackupsDir l @ [name, ''kubernetes'']) \<and>
     (\<forall>f\<in>set kubeletStateFiles. look v (KubeletDir l @ [f]) = look fs (backup_file l name f))"

definition tree_safe :: "path \<Rightarrow> path \<Rightarrow> fsys \<Rightarrow> fsys \<Rightarrow> bool" where
  "tree_safe src dst fs v \<longleftrightarrow>
     (look fs src \<noteq> None \<longrightarrow> sub v dst = sub fs dst \<or> sub v dst = sub fs src)"

definition old_or_restored :: "Layout \<Rightarrow> string \<Rightarrow> fsys \<Rightarrow> fsys \<Rightarrow> bool" where
  "old_or_restored l name fs v \<longleftrightarrow>
     tree_safe (BackupsDir l @ [name, ''etcd'']) (EtcdDataDir l) fs v \<and>
     tree_safe (BackupsDir l @ [name, ''kubernetes'']) (KubernetesDir l) fs v \<and>
     (\<forall>f\<in>set kubeletStateFiles. look v (KubeletDir l @ [f]) \<in>
        {look fs (KubeletDir l @ [f]), look fs (backup_file l name f)})"

lemma old_or_restored_refl: "old_or_restored l name fs fs"
  by (simp add: old_or_restored_def tree_safe_def)

lemma backups_same:
  assumes "sub v (BackupsDir l) = sub fs (BackupsDir l)"
  shows "sub v (BackupsDir l @ x) = sub fs (BackupsDir l @ x)" "look v (BackupsDir l @ x) = look fs (BackupsDir l @ x)"
    "look v (backup_file l name f) = look fs (backup_file l name f)"
  using assms by (auto simp: sub_def fun_eq_iff backup_file_def)

lemma backup_apart:
  assumes "layout_ok l"
  shows "apart (BackupsDir l @ x) (EtcdDataDir l)"
    "apart (BackupsDir l @ x) (path_suffix (EtcdDataDir l) ''.restoring'')"
    "apart (BackupsDir l @ x) (KubernetesDir l)"
    "apart (BackupsDir l @ x) (path_suffix (KubernetesDir l) ''.restoring'')"
  using layout_okD(4,5,10,14) [OF assms, THEN apart_sym] apart_extend [of "BackupsDir l" _ x "[]"]
  by (auto simp: restoring_def)

text \<open>What each stage of a restore leaves alone.\<close>

lemma stage_frames:
  assumes "layout_ok l"
  shows "same_on (- restore_area (EtcdDataDir l)) v v' \<Longrightarrow>
      sub v' (BackupsDir l) = sub v (BackupsDir l) \<and> sub v' (KubernetesDir l) = sub v (KubernetesDir l) \<and>
      (\<forall>f. look v' (KubeletDir l @ [f]) = look v (KubeletDir l @ [f]))"
    and "same_on (- restore_area (KubernetesDir l)) v v' \<Longrightarrow>
      sub v' (BackupsDir l) = sub v (BackupsDir l) \<and> sub v' (EtcdDataDir l) = sub v (EtcdDataDir l) \<and>
      (\<forall>f. look v' (KubeletDir l @ [f]) = look v (KubeletDir l @ [f]))"
    and "same_on (- kubelet_area l) v v' \<Longrightarrow>
      sub v' (BackupsDir l) = sub v (BackupsDir l) \<and> sub v' (EtcdDataDir l) = sub v (EtcdDataDir l) \<and>
      sub v' (KubernetesDir l) = sub v (KubernetesDir l)"
proof -
  note reg = restore_regions_apart [OF assms]
  have frame: "sub v' p = sub v p" if "same_on (- A) v v'" "below p \<inter> A = {}" for p A
    using that(1) by (rule same_on_sub) (use that(2) in auto)
  have kfile: "look v' (KubeletDir l @ [f]) = look v (KubeletDir l @ [f])"
    if "same_on (- A) v v'" "below (KubeletDir l) \<inter> A = {}" for f A
    using frame [OF that] by (simp add: look_below [of "KubeletDir l"])
  have B: "below (BackupsDir l) \<inter> restore_area (EtcdDataDir l) = {}"
    "below (BackupsDir l) \<inter> restore_area (KubernetesDir l) = {}"
    "below (BackupsDir l) \<inter> kubelet_area l = {}"
    using reg(1) unfolding restore_region_def by blast+
  show "same_on (- restore_area (EtcdDataDir l)) v v' \<Longrightarrow>
      sub v' (BackupsDir l) = sub v (BackupsDir l) \<and> sub v' (KubernetesDir l) = sub v (KubernetesDir l) \<and>
      (\<forall>f. look v' (KubeletDir l @ [f]) = look v (KubeletDir l @ [f]))"
    by (intro conjI allI; erule frame kfile) (use B reg(3,6) in blast)+
  show "same_on (- restore_area (KubernetesDir l)) v v' \<Longrightarrow>
      sub v' (BackupsDir l) = sub v (BackupsDir l) \<and> sub v' (EtcdDataDir l) = sub v (EtcdDataDir l) \<and>
      (\<forall>f. look v' (KubeletDir l @ [f]) = look v (KubeletDir l @ [f]))"
    by (intro conjI allI; erule frame kfile) (use B reg(2,6) in blast)+
  show "same_on (- kubelet_area l) v v' \<Longrightarrow>
      sub v' (BackupsDir l) = sub v (BackupsDir l) \<and> sub v' (EtcdDataDir l) = sub v (EtcdDataDir l) \<and>
      sub v' (KubernetesDir l) = sub v (KubernetesDir l)"
    by (intro conjI; erule frame) (use B reg(2,3) in blast)+
qed

lemma kubelet_sibling:
  assumes "f \<in> set kubeletStateFiles" "f' \<in> set kubeletStateFiles" "f \<noteq> f'"
  shows "p @ [f'] \<notin> restore_area (p @ [f])"
  using assms by (auto simp: restore_area_def path_suffix_snoc kubeletStateFiles_def)

context cp_tool begin

lemma wf_restore_file: "keeps (on_fs wf_fs) (restore_file cp src l f)"
  unfolding restore_file_def Let_def by (intro keeps_rules wf_replaceFile)

lemma wf_Restore: "keeps (on_fs wf_fs) (Restore cp l name)"
  unfolding Restore_def Let_def by (intro keeps_rules wf_restoreDir wf_restore_file)

lemma keeps_restore_file:
  assumes "KubeletDir l \<noteq> []" "simple_name f" "Z \<inter> kubelet_area l = {}"
  shows "keeps (on_fs (same_on Z fs0)) (restore_file cp src l f)"
  using assms restore_area_file [OF assms(1), of f] unfolding restore_file_def Let_def
  by (intro keeps_rules keeps_replaceFile) (auto simp: path_simps kubelet_area_def)

lemma keeps_Restore:
  assumes "layout_ok l" "Z \<inter> restore_region l = {}"
  shows "keeps (on_fs (same_on Z fs0)) (Restore cp l name)"
  using assms layout_okD [OF assms(1)] unfolding Restore_def Let_def
  by (intro keeps_rules keeps_restoreDir keeps_restore_file)
    (auto simp: restore_region_def kubelet_area_def)

lemma fwp_restore_file:
  assumes "wf_fs fs" "layout_ok l" "f \<in> set kubeletStateFiles" "simple_name name"
  shows "fwp (restore_file cp (Join (BackupsDir l) name) l f)
    (\<lambda>_ fs'. look fs' (KubeletDir l @ [f]) = look fs (backup_file l name f) \<and>
            same_on (- restore_area (KubeletDir l @ [f])) fs fs')
    (\<lambda>_ fs'. look fs' (KubeletDir l @ [f]) = look fs (KubeletDir l @ [f]) \<and>
            same_on (- restore_area (KubeletDir l @ [f])) fs fs')
    (\<lambda>fs'. look fs' (KubeletDir l @ [f]) \<in> {look fs (KubeletDir l @ [f]), look fs (backup_file l name f)} \<and>
            same_on (- restore_area (KubeletDir l @ [f])) fs fs') fs"
proof -
  let ?src = "backup_file l name f" and ?dst = "KubeletDir l @ [f]"
  have src: "Join (Join (Join (BackupsDir l) name) ''kubelet'') f = ?src"
    using assms by (simp add: path_simps backup_file_def)
  have dst: "Join (KubeletDir l) f = ?dst" using assms by (simp add: path_simps)
  have dir: "Dir_of ?dst \<noteq> []" using layout_okD(17) [OF assms(2)] by (simp add: Dir_of_snoc)
  have bk: "apart (BackupsDir l) (KubeletDir l)" using layout_okD(6) [OF assms(2)] by (rule apart_sym)
  then have ap: "apart ?src ?dst" "apart ?src (path_suffix ?dst ''.restoring'')"
    unfolding backup_file_def path_suffix_snoc by (auto intro: apart_extend)
  have rm: "same_on (- restore_area ?dst) fs fs'" if "shrunk ?dst fs fs'" for fs'
    using that by (rule shrunk_same_on) (auto simp: restore_area_def)
  show ?thesis
    unfolding restore_file_def Let_def src dst
    by (intro fwp_bind fwp_attempt fwp_Stat fwp_case_sum fwp_if fwp_throw fwp_wrapf fwp_on_err fwp_Remove
        fwp_ret fwp_mono [OF fwp_replaceFile [OF assms(1) dir ap]])
      (use rm in \<open>auto simp: look_def miss_def\<close>)
qed

lemma fwp_restore_files:
  assumes "wf_fs fs" "layout_ok l" "simple_name name"
  defines "was \<equiv> \<lambda>v. \<forall>f\<in>set kubeletStateFiles.
      look v (KubeletDir l @ [f]) \<in> {look fs (KubeletDir l @ [f]), look fs (backup_file l name f)}"
  shows "fwp (each kubeletStateFiles (restore_file cp (Join (BackupsDir l) name) l))
    (\<lambda>_ v. \<forall>f\<in>set kubeletStateFiles. look v (KubeletDir l @ [f]) = look fs (backup_file l name f))
    (\<lambda>_. was) was fs"
proof (rule fwp_each [where I = "\<lambda>dn v. wf_fs v \<and> same_on (- kubelet_area l) fs v \<and>
    (\<forall>f\<in>set kubeletStateFiles. look v (KubeletDir l @ [f]) =
       (if f \<in> set dn then look fs (backup_file l name f) else look fs (KubeletDir l @ [f])))"], goal_cases)
  case 1
  then show ?case using assms(1) by simp
next
  case (2 dn f rest v)
  have "distinct kubeletStateFiles" by (simp add: kubeletStateFiles_def)
  then have f: "f \<in> set kubeletStateFiles" and new: "f \<notin> set dn" unfolding 2(1) by simp_all
  have area: "restore_area (KubeletDir l @ [f]) \<subseteq> kubelet_area l"
    unfolding kubelet_area_def by (rule restore_area_file [OF layout_okD(17) [OF assms(2)]])
  have "backup_file l name g \<in> below (BackupsDir l)" for g by (simp add: backup_file_def)
  then have out: "backup_file l name g \<in> - kubelet_area l" for g
    using restore_regions_apart(1) [OF assms(2)] unfolding restore_region_def by blast
  have bk: "look v (backup_file l name f) = look fs (backup_file l name f)"
    using 2(2) same_on_look [OF _ out] by blast
  have others: "look v' (KubeletDir l @ [g]) =
      (if g \<in> set dn then look fs (backup_file l name g) else look fs (KubeletDir l @ [g]))"
    if "same_on (- restore_area (KubeletDir l @ [f])) v v'" "g \<in> set kubeletStateFiles" "g \<noteq> f" for v' g
    using same_on_look [OF that(1)] kubelet_sibling [OF f that(2)] that(2,3) 2(2) by auto
  have wide: "same_on (- kubelet_area l) fs v'"
    if "same_on (- restore_area (KubeletDir l @ [f])) v v'" for v'
    using that 2(2) area same_on_trans same_on_mono by (metis Compl_subset_Compl_iff)
  have ok: "wf_fs v" using 2(2) by simp
  have same: "look v (KubeletDir l @ [f]) = look fs (KubeletDir l @ [f])" using 2(2) f new by auto
  show ?case
  proof (rule fwp_assuming [OF wf_restore_file ok], rule fwp_mono [OF fwp_restore_file [OF ok assms(2) f assms(3)]],
      goal_cases)
    case (1 x v')
    then have "look v' (KubeletDir l @ [g]) = (if g \<in> set (dn @ [f])
        then look fs (backup_file l name g) else look fs (KubeletDir l @ [g]))"
      if "g \<in> set kubeletStateFiles" for g
      using others [OF _ that] bk by (cases "g = f") auto
    with 1 wide show ?case by simp
  next
    case (2 e v')
    then have "look v' (KubeletDir l @ [g]) \<in> {look fs (KubeletDir l @ [g]), look fs (backup_file l name g)}"
      if "g \<in> set kubeletStateFiles" for g
      using others [OF _ that] same new that by (cases "g = f") auto
    then show ?case by (simp add: was_def)
  next
    case (3 v')
    then have "look v' (KubeletDir l @ [g]) \<in> {look fs (KubeletDir l @ [g]), look fs (backup_file l name g)}"
      if "g \<in> set kubeletStateFiles" for g
      using others [OF _ that] same new bk that by (cases "g = f") auto
    then show ?case by (simp add: was_def)
  qed
next
  case (3 v)
  then show ?case by simp
qed

lemma fwp_Restore_kubelet:
  assumes l: "layout_ok l" and name: "simple_name name" and wf: "wf_fs v"
    and E: "sub v (EtcdDataDir l) = sub fs (BackupsDir l @ [name, ''etcd''])"
    and K: "sub v (KubernetesDir l) = sub fs (BackupsDir l @ [name, ''kubernetes''])"
    and F: "\<And>f. look v (KubeletDir l @ [f]) = look fs (KubeletDir l @ [f])"
    and B: "sub v (BackupsDir l) = sub fs (BackupsDir l)"
  shows "fwp (seq (os_MkdirAll (KubeletDir l) 0x1ED)
      (each kubeletStateFiles (restore_file cp (Join (BackupsDir l) name) l)))
    (\<lambda>_. restored l name fs) (\<lambda>_. old_or_restored l name fs) (old_or_restored l name fs) v"
proof (rule fwp_seq, rule fwp_MkdirAll_wf [OF wf layout_okD(17) [OF l]], goal_cases)
  have grown: "sub v1 (EtcdDataDir l) = sub v (EtcdDataDir l) \<and> sub v1 (KubernetesDir l) = sub v (KubernetesDir l) \<and>
      sub v1 (BackupsDir l) = sub v (BackupsDir l) \<and>
      (\<forall>f. look v1 (KubeletDir l @ [f]) = look v (KubeletDir l @ [f]))"
    if "grown (KubeletDir l) m v v1" for m v1
  proof -
    have s1: "same_on (- above (KubeletDir l)) v v1" using that by (rule grown_same_on) auto
    then have "same_on (- kubelet_area l) v v1" by (rule same_on_mono) (auto simp: kubelet_area_def)
    then show ?thesis using stage_frames(3) [OF l] same_on_look [OF s1] by auto
  qed
  have safe: "old_or_restored l name fs v1"
    if "sub v1 (EtcdDataDir l) = sub v (EtcdDataDir l)" "sub v1 (KubernetesDir l) = sub v (KubernetesDir l)"
      "\<forall>f\<in>set kubeletStateFiles. look v1 (KubeletDir l @ [f]) \<in>
         {look fs (KubeletDir l @ [f]), look fs (backup_file l name f)}" for v1
    using that E K by (simp add: old_or_restored_def tree_safe_def)
  {
    case (1 v1)
    show ?case by (intro safe) (use grown [OF 1(2)] F in simp_all)
  next
    case (2 e v1)
    show ?case by (intro safe) (use grown [OF 2(2)] F in simp_all)
  next
    case (3 v1)
    note g = grown [OF 3(2)]
    have keep: "keeps (on_fs (same_on (- kubelet_area l) v1))
        (each kubeletStateFiles (restore_file cp (Join (BackupsDir l) name) l))"
      by (intro keeps_each keeps_restore_file) (use layout_okD(17) [OF l] in auto)
    have bk: "look v1 (backup_file l name f) = look fs (backup_file l name f)" for f
      using g B by (intro backups_same) simp
    have rest: "sub v2 (EtcdDataDir l) = sub v (EtcdDataDir l)" "sub v2 (KubernetesDir l) = sub v (KubernetesDir l)"
      if "same_on (- kubelet_area l) v1 v2" for v2
      using stage_frames(3) [OF l that] g by auto
    show ?case
    proof (rule fwp_assuming [OF keep same_on_refl], rule fwp_mono [OF fwp_restore_files [OF 3(1) l name]], goal_cases)
      case (1 x v2)
      then show ?case using rest E K bk by (simp add: restored_def)
    next
      case (2 e v2)
      then show ?case using safe rest g F bk by simp
    next
      case (3 v2)
      then show ?case using safe rest g F bk by simp
    qed
  }
qed

lemma fwp_Restore_kubernetes:
  assumes l: "layout_ok l" and name: "simple_name name" and wf: "wf_fs v"
    and E: "sub v (EtcdDataDir l) = sub fs (BackupsDir l @ [name, ''etcd''])"
    and v: "same_on (- restore_area (EtcdDataDir l)) fs v"
  shows "fwp (seq (wrapf s (restoreDir cp (BackupsDir l @ [name, ''kubernetes'']) (KubernetesDir l)))
      (seq (os_MkdirAll (KubeletDir l) 0x1ED)
        (each kubeletStateFiles (restore_file cp (Join (BackupsDir l) name) l))))
    (\<lambda>_. restored l name fs) (\<lambda>_. old_or_restored l name fs) (old_or_restored l name fs) v"
proof (rule fwp_seq, rule fwp_wrapf,
    rule fwp_mono [OF fwp_restoreDir_safe [OF wf layout_okD(22) [OF l]
        backup_apart(3,4) [OF l]]], goal_cases)
  note st = stage_frames [OF l]
  have B: "sub v (BackupsDir l) = sub fs (BackupsDir l)" and K: "sub v (KubernetesDir l) = sub fs (KubernetesDir l)"
    and F: "\<And>f. look v (KubeletDir l @ [f]) = look fs (KubeletDir l @ [f])"
    using st(1) [OF v] by simp_all
  have BK: "sub v (BackupsDir l @ [name, ''kubernetes'']) = sub fs (BackupsDir l @ [name, ''kubernetes''])"
    "look v (BackupsDir l @ [name, ''kubernetes'']) = look fs (BackupsDir l @ [name, ''kubernetes''])"
    using backups_same [OF B] by simp_all
  {
    case (1 x v1)
    then show ?case
      by (intro fwp_Restore_kubelet l name) (use st(2) [of v v1] E BK F B in auto)
  next
    case (2 e v1)
    then show ?case
      using st(2) [of v v1] E BK F K by (simp add: old_or_restored_def tree_safe_def)
  next
    case (3 v1)
    then show ?case
      using st(2) [of v v1] E BK F K by (simp add: old_or_restored_def tree_safe_def)
  }
qed

lemma fwp_Restore:
  assumes l: "layout_ok l" and name: "simple_name name" and wf: "wf_fs fs"
  shows "fwp (Restore cp l name)
    (\<lambda>_. restored l name fs) (\<lambda>_. old_or_restored l name fs) (old_or_restored l name fs) fs"
proof -
  have paths: "Join (Join (BackupsDir l) name) ''etcd'' = BackupsDir l @ [name, ''etcd'']"
    "Join (Join (BackupsDir l) name) ''kubernetes'' = BackupsDir l @ [name, ''kubernetes'']"
    using name by (simp_all add: path_simps)
  note old = old_or_restored_refl [of l name fs]
  have E: "fwp (seq (wrapf s (restoreDir cp (BackupsDir l @ [name, ''etcd'']) (EtcdDataDir l)))
      (seq (wrapf s' (restoreDir cp (BackupsDir l @ [name, ''kubernetes'']) (KubernetesDir l)))
        (seq (os_MkdirAll (KubeletDir l) 0x1ED)
          (each kubeletStateFiles (restore_file cp (Join (BackupsDir l) name) l)))))
    (\<lambda>_. restored l name fs) (\<lambda>_. old_or_restored l name fs) (old_or_restored l name fs) fs" for s s'
  proof (rule fwp_seq, rule fwp_wrapf,
      rule fwp_mono [OF fwp_restoreDir_safe [OF wf layout_okD(21) [OF l] backup_apart(1,2) [OF l]]], goal_cases)
    case (1 x v1)
    then show ?case by (intro fwp_Restore_kubernetes l name) auto
  next
    case (2 e v1)
    then show ?case
      using stage_frames(1) [OF l, of fs v1] by (simp add: old_or_restored_def tree_safe_def)
  next
    case (3 v1)
    then show ?case
      using stage_frames(1) [OF l, of fs v1] by (simp add: old_or_restored_def tree_safe_def)
  qed
  show ?thesis
    unfolding Restore_def Let_def paths
    by (rule fwp_seq, rule fwp_wrapf, rule fwp_Stat) (use old E in auto)
qed

end

section \<open>Properties\<close>

text \<open>C4: \<open>Restore\<close> puts the whole snapshot back. On a normal return etcd's data, the Kubernetes
  directory and the three kubelet files are those of the backup, what the backup lacks being gone;
  on an error, and at every moment the power may be lost, each of these trees and files that the
  backup holds is entirely the old or entirely the restored one. The backups themselves are never
  changed.\<close>

theorem restore_safe:
  assumes "cp_tool cp" and "layout_ok l" and "simple_name name" and "wf_fs fs"
  shows "fwp (Restore cp l name)
    (\<lambda>_ v. restored l name fs v \<and> sub v (BackupsDir l) = sub fs (BackupsDir l))
    (\<lambda>_ v. old_or_restored l name fs v \<and> sub v (BackupsDir l) = sub fs (BackupsDir l))
    (\<lambda>v. old_or_restored l name fs v \<and> sub v (BackupsDir l) = sub fs (BackupsDir l)) fs"
proof -
  have keep: "keeps (on_fs (same_on (below (BackupsDir l)) fs)) (Restore cp l name)"
    by (rule cp_tool.keeps_Restore [OF assms(1,2)]) (rule restore_regions_apart(1) [OF assms(2)])
  show ?thesis
    by (rule fwp_assuming [OF keep same_on_refl], rule fwp_mono [OF cp_tool.fwp_Restore [OF assms]])
      (auto simp: same_on_below_iff)
qed

theorem restore_safe_witness:
  "fwp (Restore cp_ref Default ''d.0_b1'')
    (\<lambda>_ v. restored Default ''d.0_b1'' node_fs v \<and> sub v (BackupsDir Default) = sub node_fs (BackupsDir Default))
    (\<lambda>_ v. old_or_restored Default ''d.0_b1'' node_fs v \<and> sub v (BackupsDir Default) = sub node_fs (BackupsDir Default))
    (\<lambda>v. old_or_restored Default ''d.0_b1'' node_fs v \<and> sub v (BackupsDir Default) = sub node_fs (BackupsDir Default))
    node_fs"
  by (rule restore_safe) (simp_all add: cpref.cp_tool_axioms simple_name_def)

text \<open>The sample restore runs to its end when nothing fails.\<close>

lemma sample_restore_returns:
  "fst (Restore cp_ref Default ''d.0_b1'' (world_at calm_orc node_fs)) = Ok ()"
  by code_simp

text \<open>C15: a restore may be interrupted anywhere and started again. Whatever the first run of
  \<open>Restore\<close> came to - an error or a power loss after any of its system calls - a later run on what
  it left behind that returns normally ends with exactly the trees and files the backup held before
  the first run; and the backup is still intact should the second run stop as well.\<close>

theorem restore_after_interruption:
  assumes "cp_tool cp" and "layout_ok l" and "simple_name name" and "wf_fs (w_fs w)"
  shows "fwp (Restore cp l name)
    (\<lambda>_ v. restored l name (w_fs w) v)
    (\<lambda>_ v. sub v (BackupsDir l) = sub (w_fs w) (BackupsDir l))
    (\<lambda>v. sub v (BackupsDir l) = sub (w_fs w) (BackupsDir l)) (w_fs (snd (Restore cp l name w)))"
proof -
  have keep: "keeps (on_fs (same_on (below (BackupsDir l)) fs)) (Restore cp l name)" for fs
    by (rule cp_tool.keeps_Restore [OF assms(1,2)]) (rule restore_regions_apart(1) [OF assms(2)])
  let ?fs1 = "w_fs (snd (Restore cp l name w))"
  have wf: "wf_fs ?fs1"
    using cp_tool.wf_Restore [OF assms(1)] assms(4) by (simp add: keeps_alt on_fs_def)
  have B: "sub ?fs1 (BackupsDir l) = sub (w_fs w) (BackupsDir l)"
    using keep [of "w_fs w"] by (simp add: keeps_alt on_fs_def same_on_below_iff)
  have "restored l name (w_fs w) v" if "restored l name ?fs1 v" for v
    using that backups_same [OF B] by (simp add: restored_def)
  then show ?thesis
    by - (rule fwp_assuming [OF keep [of ?fs1] same_on_refl],
        rule fwp_mono [OF cp_tool.fwp_Restore [OF assms(1-3) wf]],
        auto simp: same_on_below_iff B)
qed

theorem restore_after_interruption_witness:
  "fwp (Restore (cp_ref :: unit cp) Default ''d.0_b1'')
    (\<lambda>_ v. restored Default ''d.0_b1'' node_fs v)
    (\<lambda>_ v. sub v (BackupsDir Default) = sub node_fs (BackupsDir Default))
    (\<lambda>v. sub v (BackupsDir Default) = sub node_fs (BackupsDir Default))
    (w_fs (snd (Restore cp_ref Default ''d.0_b1'' (world_at (crash_orc 9) node_fs))))"
  using restore_after_interruption [of cp_ref Default "''d.0_b1''" "world_at (crash_orc 9) node_fs"]
  by (simp add: cpref.cp_tool_axioms simple_name_def)

end
