(* ===== verification/Snapshot.thy ===== *)
theory Snapshot
  imports Backup
begin

text \<open>
  What \<open>Create\<close> of \<open>internal/backup\<close> makes, as one tree: \<open>snapshot\<close> is the tree the backup
  directory has to be, read off the live trees. The proof follows the staging directory through the
  copies; the theorems say that the backup appears under its final name complete or not at all, that
  nothing else changes, and that \<open>Restore\<close> brings back what \<open>Create\<close> saw.
\<close>

section \<open>The tree of a backup\<close>

definition empty_dir :: "path \<Rightarrow> node option" where
  "empty_dir = (\<lambda>q. if q = [] then Some (Dir 0x1C0) else None)"

definition snapshot :: "Layout \<Rightarrow> LastBoot \<Rightarrow> fsys \<Rightarrow> path \<Rightarrow> node option" where
  "snapshot l meta fs q = (case q of
     [] \<Rightarrow> Some (Dir 0x1C0)
   | c # r \<Rightarrow>
      if c = ''etcd'' then sub fs (EtcdDataDir l) r
      else if c = ''kubernetes'' then sub fs (KubernetesDir l) r
      else if c = ''kubelet'' then
        (case r of
           [] \<Rightarrow> Some (Dir 0x1C0)
         | [f] \<Rightarrow> if f \<in> set kubeletStateFiles then look fs (KubeletDir l @ [f]) else None
         | _ \<Rightarrow> None)
      else if c = metaFileName \<and> r = [] then Some (File 0x180 (Marshal meta))
      else None)"

text \<open>The part of it that is there when the entries \<open>D\<close> and the kubelet files \<open>F\<close> are done.\<close>

definition snapshot_part :: "Layout \<Rightarrow> LastBoot \<Rightarrow> fsys \<Rightarrow> string set \<Rightarrow> string set \<Rightarrow> path \<Rightarrow> node option" where
  "snapshot_part l meta fs D F q =
     (if q = [] then Some (Dir 0x1C0)
      else if hd q \<notin> D then None
      else if hd q = ''kubelet'' \<and> tl q \<noteq> [] \<and> hd (tl q) \<notin> F then None
      else snapshot l meta fs q)"

lemma snapshot_part_empty: "snapshot_part l meta fs {} F = empty_dir"
  by (auto simp: snapshot_part_def empty_dir_def)

lemma snapshot_part_full:
  "snapshot_part l meta fs {''etcd'', ''kubernetes'', ''kubelet'', metaFileName} (set kubeletStateFiles) =
   snapshot l meta fs"
  by (auto simp: snapshot_part_def snapshot_def metaFileName_def fun_eq_iff split: list.splits)

text \<open>One more entry of the staging directory is done.\<close>

lemma sub_split:
  assumes "same_on (- below (S @ [c])) v v'" "sub v' (S @ [c]) = X"
  shows "sub v' S q = (case q of [] \<Rightarrow> sub v S [] | d # r \<Rightarrow> if d = c then X r else sub v S q)"
proof (cases q)
  case Nil
  then show ?thesis using assms(1) by (simp add: same_on_def sub_def)
next
  case (Cons d r)
  have "\<not> prefix (S @ [c]) (S @ d # r)" if "d \<noteq> c" using that by simp
  then show ?thesis using Cons assms by (auto simp: same_on_def sub_def)
qed

lemma snapshot_part_step:
  assumes "same_on (- below (S @ [c])) v v'" "sub v S = snapshot_part l meta fs D F" "c \<noteq> ''kubelet''"
    and "sub v' (S @ [c]) = (\<lambda>r. snapshot l meta fs (c # r))"
  shows "sub v' S = snapshot_part l meta fs (insert c D) F"
proof
  fix q
  show "sub v' S q = snapshot_part l meta fs (insert c D) F q"
    unfolding sub_split [OF assms(1,4)] assms(2)
    using assms(3) by (auto simp: snapshot_part_def split: list.split)
qed

lemma grown_child:
  assumes "wf_fs fs" "look fs p \<noteq> None" "grown (p @ [c]) m fs fs'" "q \<noteq> p @ [c]"
  shows "look fs' q = look fs q"
proof (cases "prefix q (p @ [c])")
  case True
  then have "prefix q p" using assms(4) by simp
  then have "look fs q \<noteq> None" using wf_fs_absent_below [OF assms(1), of q p] assms(2) by blast
  then show ?thesis using grown_keeps_present [OF assms(3)] by auto
next
  case False
  then show ?thesis using assms(3) unfolding grown_def by metis
qed

lemma snapshot_part_kubelet:
  assumes "grown (S @ [''kubelet'']) 0x1C0 v v'" "is_dir v' (S @ [''kubelet''])" "wf_fs v"
    and "sub v S = snapshot_part l meta fs D F" "''kubelet'' \<notin> D"
  shows "sub v' S = snapshot_part l meta fs (insert ''kubelet'' D) {}"
    and "same_on (- below (S @ [''kubelet''])) v v'"
proof -
  let ?k = "S @ [''kubelet'']"
  have absent: "look v ?k = None"
    using assms(4,5) by (simp add: sub_append [symmetric] snapshot_part_def)
  have S: "look v S = Some (Dir 0x1C0)"
    using assms(4) by (simp add: look_sub_root snapshot_part_def)
  have same: "look v' q = look v q" if "q \<noteq> ?k" for q
    using grown_child [OF assms(3) _ assms(1) that] S by simp
  then show "same_on (- below ?k) v v'" by (auto simp: same_on_def)
  have new: "look v' ?k = Some (Dir 0x1C0)"
    using assms(1,2) absent unfolding grown_def is_dir_look by (metis option.distinct(1))
  have under: "look v (?k @ r) = None" for r
    using wf_fs_absent_below [OF assms(3) absent] by simp
  show "sub v' S = snapshot_part l meta fs (insert ''kubelet'' D) {}"
  proof
    fix q
    consider "q = [''kubelet'']" | r where "q = ''kubelet'' # r" "r \<noteq> []" | "q = [] \<or> hd q \<noteq> ''kubelet''"
      by (cases q) auto
    then show "sub v' S q = snapshot_part l meta fs (insert ''kubelet'' D) {} q"
    proof cases
      case 1
      then show ?thesis using new by (simp add: sub_def snapshot_part_def snapshot_def)
    next
      case (2 r)
      then show ?thesis using same [of "?k @ r"] under [of r] by (simp add: sub_def snapshot_part_def)
    next
      case 3
      then have "sub v' S q = sub v S q" unfolding sub_def by (intro same) auto
      then show ?thesis using 3 by (auto simp: assms(4) snapshot_part_def)
    qed
  qed
qed

lemma snapshot_part_file:
  assumes "same_on (- below (S @ [''kubelet'', f])) v v'" "wf_fs v'" "f \<in> set kubeletStateFiles"
    and "sub v S = snapshot_part l meta fs D F" "''kubelet'' \<in> D"
    and "look v' (S @ [''kubelet'', f]) = look fs (KubeletDir l @ [f])" "\<not> is_dir fs (KubeletDir l @ [f])"
  shows "sub v' S = snapshot_part l meta fs D (insert f F)"
proof
  fix q
  have under: "look v' (S @ ''kubelet'' # f # r) = None" if "r \<noteq> []" for r
  proof (cases "look v' (S @ [''kubelet'', f])")
    case None
    then show ?thesis using wf_fs_absent_below [OF assms(2)] by fastforce
  next
    case (Some n)
    then obtain m b where "look v' (S @ [''kubelet'', f]) = Some (File m b)"
      using assms(6,7) by (cases n) (auto simp: is_dir_look)
    from wf_fs_file_tree [OF assms(2) this] that show ?thesis
      by (simp add: sub_def file_tree_def fun_eq_iff)
  qed
  consider r where "q = ''kubelet'' # f # r" | "\<not> prefix [''kubelet'', f] q" by (auto simp: prefix_def)
  then show "sub v' S q = snapshot_part l meta fs D (insert f F) q"
  proof cases
    case (1 r)
    then show ?thesis
      using under [of r] assms(3,5,6)
      by (cases r) (simp_all add: sub_def snapshot_part_def snapshot_def)
  next
    case 2
    then have "sub v' S q = sub v S q" using assms(1) by (simp add: sub_def same_on_def)
    then show ?thesis using 2 by (cases q; cases "tl q") (auto simp: assms(4) snapshot_part_def)
  qed
qed

section \<open>Filling the staging directory\<close>

definition staged :: "Layout \<Rightarrow> LastBoot \<Rightarrow> path \<Rightarrow> fsys \<Rightarrow> string set \<Rightarrow> string set \<Rightarrow> fsys \<Rightarrow> bool" where
  "staged l meta S fs D F v \<longleftrightarrow>
     wf_fs v \<and> same_on (- below S) fs v \<and> sub v S = snapshot_part l meta fs D F"

lemma stagedD:
  assumes "staged l meta S fs D F v"
  shows "wf_fs v" "same_on (- below S) fs v" "sub v S = snapshot_part l meta fs D F"
    "c \<notin> D \<Longrightarrow> look v (S @ [c]) = None" "apart p S \<Longrightarrow> sub v p = sub fs p" "is_dir v S"
proof -
  show "wf_fs v" "same_on (- below S) fs v" and T: "sub v S = snapshot_part l meta fs D F"
    using assms by (simp_all add: staged_def)
  show "c \<notin> D \<Longrightarrow> look v (S @ [c]) = None"
    using T by (simp add: sub_append [symmetric] snapshot_part_def)
  show "apart p S \<Longrightarrow> sub v p = sub fs p"
    using assms same_on_sub below_subset_Compl [OF apart_sym] unfolding staged_def by blast
  show "is_dir v S" using T by (simp add: is_dir_look look_sub_root snapshot_part_def)
qed

lemma below_snoc_same: "same_on (- below S) fs v \<Longrightarrow> same_on (- below (S @ c)) v v' \<Longrightarrow> same_on (- below S) fs v'"
  by (erule same_on_trans, erule same_on_mono) (auto dest: append_prefixD)

context cp_tool begin

lemma fwp_stage_dir:
  assumes v: "staged l meta S fs D F v" and src: "apart src S"
    and c: "c \<notin> D" "c \<noteq> ''kubelet''" "simple_name c"
    and tree: "sub fs src = (\<lambda>r. snapshot l meta fs (c # r))"
  shows "fwp (copyDirIfExists cp src (Join S c)) (\<lambda>_. staged l meta S fs (insert c D) F)
           (\<lambda>_. same_on (- below S) fs) (same_on (- below S) fs) v"
proof -
  have ap: "apart src (S @ [c])" using src by (rule apart_prefix) simp_all
  have "sub v src = sub fs src" using stagedD(5) [OF v src] .
  then show ?thesis
    unfolding Join_simple [OF c(3)]
    by (intro fwp_copyDirIfExists [OF stagedD(1) [OF v] ap stagedD(4) [OF v c(1)]])
      (use stagedD [OF v] below_snoc_same snapshot_part_step [OF _ stagedD(3) [OF v] c(2)] tree in
        \<open>auto simp: staged_def\<close>)
qed

lemma fwp_stage_file:
  assumes v: "staged l meta S fs D F v" and src: "apart (KubeletDir l) S"
    and D: "''kubelet'' \<in> D" and f: "f \<in> set kubeletStateFiles" "f \<notin> F"
  shows "fwp (copyFileIfExists cp (Join (KubeletDir l) f) (Join (S @ [''kubelet'']) f))
           (\<lambda>_. staged l meta S fs D (insert f F))
           (\<lambda>_. same_on (- below S) fs) (same_on (- below S) fs) v"
proof -
  have ap: "apart (KubeletDir l @ [f]) (S @ [''kubelet'', f])" using src by (rule apart_prefix) simp_all
  have same: "look v (KubeletDir l @ [f]) = look fs (KubeletDir l @ [f])"
    using stagedD(5) [OF v src] by (simp add: sub_def fun_eq_iff)
  have "look v (S @ [''kubelet'', f]) = None" and "is_dir v (S @ [''kubelet''])"
    using stagedD(3) [OF v] D f(2)
    by (simp_all add: sub_append [symmetric] is_dir_look snapshot_part_def snapshot_def)
  note here = this
  have paths: "Join (KubeletDir l) f = KubeletDir l @ [f]" "Join (S @ [''kubelet'']) f = S @ [''kubelet'', f]"
    using simple_kubelet_file [OF f(1)] by (simp_all add: path_simps)
  have dir: "Dir_of (S @ [''kubelet'', f]) = S @ [''kubelet'']" by (simp add: Dir_of_def butlast_append)
  note out = below_snoc_same [OF stagedD(2) [OF v]]
  show ?thesis
    unfolding paths
  proof (rule fwp_copyFileIfExists [OF stagedD(1) [OF v] ap here(1)], goal_cases)
    case (5 v')
    then show ?case
      using out snapshot_part_file [OF 5(1,2) f(1) stagedD(3) [OF v] D] same
      by (simp add: staged_def is_dir_look)
  qed (use out here dir in auto)
qed

lemma fwp_stage_files:
  assumes v: "staged l meta S fs D {} v" and src: "apart (KubeletDir l) S" and D: "''kubelet'' \<in> D"
  shows "fwp (each kubeletStateFiles (\<lambda>f. wrapf (''copy kubelet/'' @ f)
             (copyFileIfExists cp (Join (KubeletDir l) f) (Join (S @ [''kubelet'']) f))))
           (\<lambda>_. staged l meta S fs D (set kubeletStateFiles))
           (\<lambda>_. same_on (- below S) fs) (same_on (- below S) fs) v"
proof (rule fwp_each [where I = "\<lambda>dn. staged l meta S fs D (set dn)"], goal_cases)
  case 1
  then show ?case using v by simp
next
  case (2 dn f rest v')
  have "distinct kubeletStateFiles" by (simp add: kubeletStateFiles_def)
  then have f: "f \<in> set kubeletStateFiles" "f \<notin> set dn" unfolding 2(1) by simp_all
  show ?case
    using fwp_stage_file [OF 2(2) src D f] by (intro fwp_wrapf) (simp add: Un_insert_right)
qed simp

end

lemma fwp_writeMeta:
  assumes v: "staged l meta S fs D F v" and D: "metaFileName \<notin> D"
  shows "fwp (writeMeta S meta) (\<lambda>_. staged l meta S fs (insert metaFileName D) F)
           (\<lambda>_. same_on (- below S) fs) (same_on (- below S) fs) v"
proof -
  let ?m = "S @ [metaFileName]"
  note sv = stagedD [OF v]
  have out: "same_on (- below S) fs v'" if "same_on (- {?m}) v v'" for v'
    using sv(2) that by (rule below_snoc_same [OF _ same_on_mono]) auto
  have filled: "staged l meta S fs (insert metaFileName D) F v'"
    if "wf_fs v'" "same_on (- {?m}) v v'" "look v' ?m = Some (File 0x180 (Marshal meta))" for v'
  proof -
    have "sub v' ?m = (\<lambda>r. snapshot l meta fs (metaFileName # r))"
      using wf_fs_file_tree [OF that(1,3)]
      by (auto simp: file_tree_def snapshot_def metaFileName_def fun_eq_iff)
    then have "sub v' S = snapshot_part l meta fs (insert metaFileName D) F"
      by (intro snapshot_part_step [OF same_on_mono [OF that(2)] sv(3)]) (auto simp: metaFileName_def)
    then show ?thesis using that(1) out [OF that(2)] by (simp add: staged_def)
  qed
  have "fwp (os_WriteFile ?m (Marshal meta) 0x180)
      (\<lambda>_ v'. same_on (- {?m}) v v' \<and> look v' ?m = Some (File 0x180 (Marshal meta)))
      (\<lambda>_. same_on (- {?m}) v) (same_on (- {?m}) v) v"
    by (rule fwp_WriteFile) (use sv(4) [OF D] in auto)
  then show ?thesis
    unfolding writeMeta_def Join_simple [OF simple_names(4)]
    by - (rule fwp_assuming [OF wf_WriteFile sv(1)], erule fwp_mono, use out filled in auto)
qed

lemma fwp_reveal:
  assumes v: "wf_fs v" "same_on (- below S) fs v" "sub v S = T" and ap: "apart S R"
  shows "fwp (os_Rename S R)
    (\<lambda>_ v'. same_on (- (below S \<union> below R)) fs v' \<and> sub v' R = T \<and> sub v' S = no_tree)
    (\<lambda>_. same_on (- below S) fs) (same_on (- below S) fs) v"
proof -
  have ne: "S \<noteq> R" using ap by auto
  have np: "\<not> prefix S R" using ap by (simp add: apart_def)
  have moved: "same_on (- (below S \<union> below R)) fs v' \<and> sub v' R = T \<and> sub v' S = no_tree"
    if "\<forall>q. look v' q = look (rename_tree S R v) q" for v'
  proof -
    have eq: "sub v' p = sub (rename_tree S R v) p" for p using that by (simp add: sub_def)
    have "same_on (- (below S \<union> below R)) v v'" using np by (simp add: same_on_def that look_rename_tree)
    moreover have "same_on (- (below S \<union> below R)) fs v" using v(2) by (rule same_on_mono) auto
    ultimately show ?thesis
      using np ap v(3) same_on_trans by (simp add: eq sub_rename_tree_dst sub_rename_tree_src)
  qed
  show ?thesis by (rule fwp_Rename) (use ne v(2) moved in auto)
qed

section \<open>Create\<close>

text \<open>
  The backup \<open>R\<close> is revealed: it is the snapshot of \<open>fs\<close>, the staging directory \<open>S\<close> is gone and
  nothing else has changed.
\<close>

definition revealed :: "Layout \<Rightarrow> LastBoot \<Rightarrow> path \<Rightarrow> path \<Rightarrow> fsys \<Rightarrow> fsys \<Rightarrow> bool" where
  "revealed l meta S R fs v \<longleftrightarrow>
     sub v R = snapshot l meta fs \<and> sub v S = no_tree \<and> same_on (- (below S \<union> below R)) fs v"

context cp_tool begin

lemma fwp_Create_kubelet:
  fixes S R :: path and fs :: fsys
  defines "bad \<equiv> same_on (- below S) fs"
  assumes v: "staged l meta S fs {''kubernetes'', ''etcd''} {} v"
    and kl: "apart (KubeletDir l) S" and ap: "apart S R"
  shows "fwp (let kubeletDst = Join S ''kubelet'' in
      seq (wrapf ''mkdir kubelet'' (os_MkdirAll kubeletDst 0x1C0))
     (seq (each kubeletStateFiles (\<lambda>f. wrapf (''copy kubelet/'' @ f)
               (copyFileIfExists cp (Join (KubeletDir l) f) (Join kubeletDst f))))
     (seq (wrapf ''write meta'' (writeMeta S meta)) (wrapf s (os_Rename S R)))))
    (\<lambda>_. revealed l meta S R fs) (\<lambda>_. bad) bad v"
proof -
  have reveal: "fwp (wrapf s (os_Rename S R)) (\<lambda>_. revealed l meta S R fs) (\<lambda>_. bad) bad v1"
    if "staged l meta S fs {metaFileName, ''kubelet'', ''kubernetes'', ''etcd''} (set kubeletStateFiles) v1" for v1
  proof (intro fwp_wrapf fwp_mono [OF fwp_reveal [OF stagedD(1-3) [OF that] ap]], goal_cases)
    case (1 x v')
    then show ?case
      using snapshot_part_full [of l meta fs] by (simp add: revealed_def insert_commute)
  qed (simp_all add: bad_def)
  have meta: "fwp (seq (wrapf ''write meta'' (writeMeta S meta)) (wrapf s (os_Rename S R)))
      (\<lambda>_. revealed l meta S R fs) (\<lambda>_. bad) bad v1"
    if "staged l meta S fs {''kubelet'', ''kubernetes'', ''etcd''} (set kubeletStateFiles) v1" for v1
    by (rule fwp_seq, rule fwp_wrapf, rule fwp_mono [OF fwp_writeMeta [OF that]])
      (use reveal in \<open>auto simp: metaFileName_def bad_def\<close>)
  have files: "fwp (seq (each kubeletStateFiles (\<lambda>f. wrapf (''copy kubelet/'' @ f)
        (copyFileIfExists cp (Join (KubeletDir l) f) (Join (S @ [''kubelet'']) f))))
      (seq (wrapf ''write meta'' (writeMeta S meta)) (wrapf s (os_Rename S R))))
      (\<lambda>_. revealed l meta S R fs) (\<lambda>_. bad) bad v1"
    if "staged l meta S fs {''kubelet'', ''kubernetes'', ''etcd''} {} v1" for v1
    by (rule fwp_seq, rule fwp_mono [OF fwp_stage_files [OF that kl]]) (use meta in \<open>auto simp: bad_def\<close>)
  note sv = stagedD [OF v]
  have made: "staged l meta S fs {''kubelet'', ''kubernetes'', ''etcd''} {} v1 \<and> bad v1"
    if "wf_fs v1" "grown (S @ [''kubelet'']) 0x1C0 v v1" "is_dir v1 (S @ [''kubelet''])" for v1
    using snapshot_part_kubelet [OF that(2,3) sv(1,3)] that(1) below_snoc_same [OF sv(2)]
    by (simp add: staged_def bad_def)
  have partial: "bad v1" if "grown (S @ [''kubelet'']) 0x1C0 v v1" for v1
  proof -
    have "same_on (- below (S @ [''kubelet''])) v v1"
      using grown_child [OF sv(1) _ that] sv(6) by (auto simp: same_on_def is_dir_look)
    then show ?thesis using below_snoc_same [OF sv(2)] by (simp add: bad_def)
  qed
  show ?thesis
    unfolding Let_def Join_simple [OF simple_names(3)]
    by (rule fwp_seq, rule fwp_wrapf, rule fwp_MkdirAll_wf [OF sv(1)])
      (use made partial files in auto)
qed

lemma fwp_Create:
  assumes wf: "wf_fs fs" and l: "layout_ok l" and S: "S = BackupsDir l @ x"
    and empty: "sub fs S = empty_dir" and ap: "apart S R"
  shows "fwp (Create cp S R meta l)
    (\<lambda>_ v. if look fs R = None then revealed l meta S R fs v else v = fs)
    (\<lambda>_. same_on (- below S) fs) (same_on (- below S) fs) fs"
proof -
  have src: "apart (EtcdDataDir l) S" "apart (KubernetesDir l) S" "apart (KubeletDir l) S"
    using layout_okD(4-6) [OF l] apart_extend [of _ "BackupsDir l" "[]" x] by (simp_all add: S)
  have v0: "staged l meta S fs {} {} fs"
    using wf empty by (simp add: staged_def snapshot_part_empty)
  have tree: "sub fs (EtcdDataDir l) = (\<lambda>r. snapshot l meta fs (''etcd'' # r))"
    "sub fs (KubernetesDir l) = (\<lambda>r. snapshot l meta fs (''kubernetes'' # r))"
    by (simp_all add: snapshot_def)
  let ?bad = "same_on (- below S) fs"
  have etcd: "fwp (seq (wrapf s (copyDirIfExists cp (EtcdDataDir l) (Join S ''etcd'')))
      (seq (wrapf s' (copyDirIfExists cp (KubernetesDir l) (Join S ''kubernetes'')))
        (let kubeletDst = Join S ''kubelet'' in
         seq (wrapf ''mkdir kubelet'' (os_MkdirAll kubeletDst 0x1C0))
        (seq (each kubeletStateFiles (\<lambda>f. wrapf (''copy kubelet/'' @ f)
                  (copyFileIfExists cp (Join (KubeletDir l) f) (Join kubeletDst f))))
        (seq (wrapf ''write meta'' (writeMeta S meta)) (wrapf s'' (os_Rename S R)))))))
    (\<lambda>_. revealed l meta S R fs) (\<lambda>_. ?bad) ?bad fs" for s s' s''
  proof (rule fwp_seq, rule fwp_wrapf,
      rule fwp_mono [OF fwp_stage_dir [OF v0 src(1) _ _ simple_names(1) tree(1)]], goal_cases)
    case (3 u v1)
    show ?case
      by (rule fwp_seq, rule fwp_wrapf,
          rule fwp_mono [OF fwp_stage_dir [OF 3 src(2) _ _ simple_names(2) tree(2)]], simp, simp,
          rule fwp_Create_kubelet [OF _ src(3) ap])
  qed simp_all
  show ?thesis
    unfolding Create_def
    by (intro fwp_if fwp_throw fwp_bind fwp_attempt fwp_Stat fwp_case_sum fwp_ret
        fwp_mono [OF etcd])
      (auto simp: look_def)
qed

end

section \<open>The workspace\<close>

text \<open>\<open>AllocateWorkspace\<close> leaves a fresh empty staging directory and touches nothing else.\<close>

lemma staging_dir_eq: "staging_dir l = BackupsDir l @ [stagingSubdir]"
  by (simp add: staging_dir_def path_simps)

lemma fwp_AllocateWorkspace:
  assumes wf: "wf_fs fs" and l: "layout_ok l"
  defines "ok \<equiv> same_on (- (below (staging_dir l) \<union> above (BackupsDir l))) fs"
  shows "fwp (AllocateWorkspace l True)
    (\<lambda>(ws, cleanup) v. ws = \<lparr>BackupTmp = Some (staging_dir l)\<rparr> \<and>
        cleanup = ignore (os_RemoveAll (staging_dir l)) \<and>
        wf_fs v \<and> sub v (staging_dir l) = empty_dir \<and> ok v)
    (\<lambda>_. ok) ok fs"
proof -
  let ?B = "BackupsDir l" and ?S = "staging_dir l"
  have ne: "?B \<noteq> []" "?S \<noteq> []" using layout_okD(18) [OF l] by (simp_all add: staging_dir_eq)
  have up: "ok v1" if "grown ?B m fs v1" for m v1
  proof -
    have "same_on (- above ?B) fs v1" using that by (rule grown_same_on) auto
    then show ?thesis unfolding ok_def by (rule same_on_mono) auto
  qed
  have inner: "ok v2" if "ok v1" "same_on (- below ?S) v1 v2" for v1 v2
    using that(1) same_on_mono [OF that(2)] same_on_trans unfolding ok_def by blast
  have swept: "ok v2" if "ok v1" "shrunk ?S v1 v2" for v1 v2
    using inner [OF that(1)] that(2) by (simp add: shrunk_def)
  have made: "same_on (- below ?S) v1 v2 \<and> (look v1 ?S = None \<longrightarrow> is_dir v2 ?S \<longrightarrow> look v2 ?S = Some (Dir 0x1C0))
      \<and> (\<forall>q. q \<noteq> [] \<longrightarrow> look v2 (?S @ q) = look v1 (?S @ q))"
    if "grown ?S 0x1C0 v1 v2" "wf_fs v1" "is_dir v1 ?B" for v1 v2
  proof (intro conjI allI impI)
    have same: "look v2 q = look v1 q" if "q \<noteq> ?S" for q
      using grown_child [OF \<open>wf_fs v1\<close> _ \<open>grown ?S 0x1C0 v1 v2\<close> [unfolded staging_dir_eq]] that
        \<open>is_dir v1 ?B\<close> by (auto simp: staging_dir_eq is_dir_look)
    then show "same_on (- below ?S) v1 v2" by (auto simp: same_on_def)
    show "look v2 (?S @ q) = look v1 (?S @ q)" if "q \<noteq> []" for q using same that by simp
    show "look v2 ?S = Some (Dir 0x1C0)" if "look v1 ?S = None" "is_dir v2 ?S"
      using \<open>grown ?S 0x1C0 v1 v2\<close> that unfolding grown_def is_dir_look by (metis option.distinct(1))
  qed
  have last: "fwp (seq (wrapf s (os_MkdirAll ?S 0x1C0)) (ret (\<lparr>BackupTmp = Some ?S\<rparr>, ignore (os_RemoveAll ?S))))
    (\<lambda>(ws, cleanup) v. ws = \<lparr>BackupTmp = Some ?S\<rparr> \<and> cleanup = ignore (os_RemoveAll ?S) \<and>
        wf_fs v \<and> sub v ?S = empty_dir \<and> ok v) (\<lambda>_. ok) ok v2"
    if v2: "wf_fs v2" "ok v2" "is_dir v2 ?B" "sub v2 ?S = no_tree" for s v2
  proof (intro fwp_seq fwp_wrapf fwp_ret fwp_MkdirAll_wf [OF v2(1) ne(2)], goal_cases)
    case (3 v3)
    note m = made [OF 3(2) v2(1,3)]
    have "sub v3 ?S = empty_dir"
    proof
      fix q
      have "look v2 (?S @ q) = None" using v2(4) by (simp add: sub_append [symmetric] no_tree_def)
      then show "sub v3 ?S q = empty_dir q"
        using m 3(3) by (cases "q = []") (auto simp: sub_def empty_dir_def)
    qed
    then show ?case using 3(1) inner [OF v2(2)] m by simp
  qed (use made [OF _ v2(1,3)] inner [OF v2(2)] in auto)
  have "?B \<in> - below ?S" by (simp add: staging_dir_eq)
  then have kept: "is_dir v2 ?B" if "shrunk ?S v1 v2" "is_dir v1 ?B" for v1 v2
    using that by (auto simp: shrunk_def same_on_def is_dir_look)
  show ?thesis
    unfolding AllocateWorkspace_def Let_def staging_dir_def [symmetric]
  proof (simp only: not_True_eq_False if_False, rule fwp_seq, rule fwp_wrapf,
      rule fwp_MkdirAll_wf [OF wf ne(1)], goal_cases)
    case (3 v1)
    note v1 = 3 up [OF 3(2)]
    show ?case
    proof (rule fwp_seq, rule fwp_wrapf, rule fwp_RemoveAll_wf [OF v1(1)], goal_cases)
      case (3 v2)
      show ?case by (rule last) (use 3 v1 swept kept in auto)
    qed (use v1 swept in auto)
  qed (use up in auto)
qed

section \<open>Properties\<close>

text \<open>A node on which \<open>AllocateWorkspace\<close> has run.\<close>

definition staged_fs :: fsys where
  "staged_fs = put (staging_dir Default) (Dir 0x1C0) 8 node_fs"

lemma staged_fs_ready: "wf_fs staged_fs" "sub staged_fs (staging_dir Default) = empty_dir"
proof -
  have none: "look node_fs (staging_dir Default) = None" by code_simp
  show "wf_fs staged_fs" by code_simp
  have "look node_fs (staging_dir Default @ q) = None" for q
    using wf_fs_absent_below [OF wf_node_fs none] by simp
  then show "sub staged_fs (staging_dir Default) = empty_dir"
    by (auto simp: sub_def staged_fs_def empty_dir_def)
qed

definition sample_meta :: LastBoot where
  "sample_meta = \<lparr>Version = ''v1'', DeploymentID = ''d.1'', BootID = ''b2''\<rparr>"

lemma simple_apart: "n \<noteq> stagingSubdir \<Longrightarrow> apart (staging_dir l) (BackupsDir l @ [n])"
  unfolding staging_dir_eq by (rule apart_siblings) simp

text \<open>\<open>AllocateWorkspace\<close> hands out an empty staging directory of mode 0700, whatever an earlier
  boot left there, together with the clean-up that removes it; beside the staging directory and
  missing parents of the backup directory it changes nothing, even when it fails.\<close>

theorem workspace_ready:
  assumes "wf_fs fs" and "layout_ok l"
  shows "fwp (AllocateWorkspace l True)
    (\<lambda>(ws, cleanup) v. ws = \<lparr>BackupTmp = Some (staging_dir l)\<rparr> \<and>
        cleanup = ignore (os_RemoveAll (staging_dir l)) \<and> sub v (staging_dir l) = empty_dir \<and>
        same_on (- (below (staging_dir l) \<union> above (BackupsDir l))) fs v)
    (\<lambda>_. same_on (- (below (staging_dir l) \<union> above (BackupsDir l))) fs)
    (same_on (- (below (staging_dir l) \<union> above (BackupsDir l))) fs) fs"
  by (rule fwp_mono [OF fwp_AllocateWorkspace [OF assms]]) auto

theorem workspace_ready_witness:
  "fwp (AllocateWorkspace Default True)
    (\<lambda>(ws, cleanup) v. ws = \<lparr>BackupTmp = Some (staging_dir Default)\<rparr> \<and>
        cleanup = ignore (os_RemoveAll (staging_dir Default)) \<and> sub v (staging_dir Default) = empty_dir \<and>
        same_on (- (below (staging_dir Default) \<union> above (BackupsDir Default))) node_fs v)
    (\<lambda>_. same_on (- (below (staging_dir Default) \<union> above (BackupsDir Default))) node_fs)
    (same_on (- (below (staging_dir Default) \<union> above (BackupsDir Default))) node_fs) node_fs"
  by (rule workspace_ready) simp_all

text \<open>C9: \<open>Create\<close> reveals a backup whole or not at all. A normal return leaves, under the final name,
  exactly the tree \<open>snapshot\<close> describes - both live trees, the kubelet files there are, and the
  metadata - and an empty staging path; an existing backup of that name is left as it is. After an
  error, and wherever the power is lost, everything outside the staging directory is unchanged, so
  no backup of that name has appeared.\<close>

theorem create_reveals_whole:
  assumes "cp_tool cp" and "wf_fs fs" and "layout_ok l" and "sub fs (staging_dir l) = empty_dir"
    and "n \<noteq> stagingSubdir"
  shows "fwp (Create cp (staging_dir l) (BackupsDir l @ [n]) meta l)
    (\<lambda>_ v. if look fs (BackupsDir l @ [n]) = None
          then sub v (BackupsDir l @ [n]) = snapshot l meta fs \<and> sub v (staging_dir l) = no_tree \<and>
               same_on (- (below (staging_dir l) \<union> below (BackupsDir l @ [n]))) fs v
          else v = fs)
    (\<lambda>_. same_on (- below (staging_dir l)) fs) (same_on (- below (staging_dir l)) fs) fs"
  by (rule fwp_mono [OF cp_tool.fwp_Create [OF assms(1-3) staging_dir_eq assms(4) simple_apart [OF assms(5)]]])
    (auto simp: revealed_def split: if_splits)

theorem create_reveals_whole_witness:
  "fwp (Create cp_ref (staging_dir Default) (BackupsDir Default @ [Name sample_meta]) sample_meta Default)
    (\<lambda>_ v. if look staged_fs (BackupsDir Default @ [Name sample_meta]) = None
          then sub v (BackupsDir Default @ [Name sample_meta]) = snapshot Default sample_meta staged_fs \<and>
               sub v (staging_dir Default) = no_tree \<and>
               same_on (- (below (staging_dir Default) \<union> below (BackupsDir Default @ [Name sample_meta]))) staged_fs v
          else v = staged_fs)
    (\<lambda>_. same_on (- below (staging_dir Default)) staged_fs)
    (same_on (- below (staging_dir Default)) staged_fs) staged_fs"
  by (rule create_reveals_whole)
    (simp_all add: cpref.cp_tool_axioms staged_fs_ready Name_def sample_meta_def stagingSubdir_def)

text \<open>The live state a backup covers is the same in two file systems.\<close>

definition live_same :: "Layout \<Rightarrow> fsys \<Rightarrow> fsys \<Rightarrow> bool" where
  "live_same l fs v \<longleftrightarrow>
     sub v (EtcdDataDir l) = sub fs (EtcdDataDir l) \<and>
     sub v (KubernetesDir l) = sub fs (KubernetesDir l) \<and>
     (\<forall>f\<in>set kubeletStateFiles. look v (KubeletDir l @ [f]) = look fs (KubeletDir l @ [f]))"

lemma snapshot_restored:
  assumes "sub fs2 (BackupsDir l @ [n]) = snapshot l meta fs" and "restored l n fs2 v"
  shows "live_same l fs v"
proof -
  have "look fs2 (BackupsDir l @ n # q) = snapshot l meta fs q" for q
    using assms(1) by (simp add: sub_def fun_eq_iff)
  then show ?thesis
    using assms(2) by (auto simp: restored_def live_same_def sub_def backup_file_def snapshot_def fun_eq_iff)
qed

text \<open>C5: a backup made by \<open>Create\<close> brings back what it was made from. Take the state after \<open>Create\<close>
  returned, let anything happen to the machine as long as that backup directory is left alone, and
  run \<open>Restore\<close>: when it returns normally the etcd data, the Kubernetes directory and the kubelet
  files are those \<open>Create\<close> saw, and \<open>ReadMeta\<close> gives the metadata it was called with.\<close>

theorem create_restore_roundtrip:
  assumes "cp_tool cp" and "wf_fs fs" and "layout_ok l" and "sub fs (staging_dir l) = empty_dir"
    and "n \<noteq> stagingSubdir" and "simple_name n" and "look fs (BackupsDir l @ [n]) = None"
    and "boot_utf8 meta"
  shows "fwp (Create cp (staging_dir l) (BackupsDir l @ [n]) meta l)
    (\<lambda>_ fs1. \<forall>fs2. wf_fs fs2 \<longrightarrow> sub fs2 (BackupsDir l @ [n]) = sub fs1 (BackupsDir l @ [n]) \<longrightarrow>
       fwp (Restore cp l n) (\<lambda>_. live_same l fs) (\<lambda>_ _. True) (\<lambda>_. True) fs2 \<and>
       fwp (ReadMeta l n) (\<lambda>m v. m = meta \<and> v = fs2) (\<lambda>_ v. v = fs2) (\<lambda>v. v = fs2) fs2)
    (\<lambda>_ _. True) (\<lambda>_. True) fs"
proof -
  have brings: "fwp (Restore cp l n) (\<lambda>_. live_same l fs) (\<lambda>_ _. True) (\<lambda>_. True) fs2"
    if "wf_fs fs2" "sub fs2 (BackupsDir l @ [n]) = snapshot l meta fs" for fs2
    by (rule fwp_mono [OF cp_tool.fwp_Restore [OF assms(1,3,6) that(1)]])
      (auto intro: snapshot_restored [OF that(2)])
  have meta: "fwp (ReadMeta l n) (\<lambda>m v. m = meta \<and> v = fs2) (\<lambda>_ v. v = fs2) (\<lambda>v. v = fs2) fs2"
    if "sub fs2 (BackupsDir l @ [n]) = snapshot l meta fs" for fs2
  proof -
    have "look fs2 (BackupsDir l @ [n, metaFileName]) = Some (File 0x180 (Marshal meta))"
      using that by (simp add: sub_def fun_eq_iff snapshot_def metaFileName_def)
    then show ?thesis
      unfolding ReadMeta_def using assms(6,8)
      by (intro fwp_bind fwp_wrapf fwp_ReadFile fwp_case_option fwp_throw fwp_ret)
        (auto simp: path_simps Unmarshal_Marshal)
  qed
  show ?thesis
    by (rule fwp_mono [OF cp_tool.fwp_Create [OF assms(1-3) staging_dir_eq assms(4) simple_apart [OF assms(5)]]])
      (use assms(7) brings meta in \<open>auto simp: revealed_def\<close>)
qed

theorem create_restore_roundtrip_witness:
  "fwp (Create (cp_ref :: unit cp) (staging_dir Default) (BackupsDir Default @ [Name sample_meta]) sample_meta Default)
    (\<lambda>_ fs1. \<forall>fs2. wf_fs fs2 \<longrightarrow>
       sub fs2 (BackupsDir Default @ [Name sample_meta]) = sub fs1 (BackupsDir Default @ [Name sample_meta]) \<longrightarrow>
       fwp (Restore (cp_ref :: unit cp) Default (Name sample_meta)) (\<lambda>_. live_same Default staged_fs) (\<lambda>_ _. True) (\<lambda>_. True) fs2 \<and>
       fwp (ReadMeta Default (Name sample_meta)) (\<lambda>m v. m = sample_meta \<and> v = fs2) (\<lambda>_ v. v = fs2) (\<lambda>v. v = fs2) fs2)
    (\<lambda>_ _. True) (\<lambda>_. True) staged_fs"
  by (rule create_restore_roundtrip)
    (simp_all add: cpref.cp_tool_axioms staged_fs_ready Name_def sample_meta_def stagingSubdir_def
      simple_name_def boot_utf8_def byte_def, code_simp)

end
