(* ===== verification/Catalog.thy ===== *)
theory Catalog
  imports Backup "HOL-Library.Word"
begin

text \<open>
  \<open>internal/backup\<close>, the set of backups: listing them, finding the newest of a deployment, sizing
  it, pruning, and the restore marker.

  \<open>sort.Slice\<close> is a stable sort here; it is one for at most twelve entries, and no property depends
  on the order among equal times. A Go map is iterated in an order the language leaves open, which
  is the parameter \<open>order\<close> of \<open>Prune\<close>.
\<close>

section \<open>Listing\<close>

definition is_backup :: "string \<times> bool \<Rightarrow> bool" where
  "is_backup e \<longleftrightarrow> snd e \<and> \<not> (HasSuffix (fst e) ''.tmp'' \<or> HasSuffix (fst e) ''.restoring'') \<and>
     snd (snd (Cut (fst e) (CHR ''_'')))"

definition List_backups :: "Layout \<Rightarrow> ('e, string list) io" where
  "List_backups l =
     bind (attempt (os_ReadDir (BackupsDir l))) (\<lambda>r. case r of
       Inl e \<Rightarrow> if ErrNotExist e then ret [] else throw e
     | Inr entries \<Rightarrow> ret (map fst (filter is_backup entries)))"

record backupEntry =
  entry_name :: string
  entry_mtime :: int

fun stat_entries :: "Layout \<Rightarrow> string list \<Rightarrow> ('e, backupEntry list) io" where
  "stat_entries l [] = ret []"
| "stat_entries l (n # ns) =
     bind (attempt (os_Stat (Join (BackupsDir l) n))) (\<lambda>r. case r of
       Inl e \<Rightarrow>
         if ErrNotExist e then stat_entries l ns
         else throw (Wrapf (''stat backup '' @ n) e)
     | Inr (_, t) \<Rightarrow>
         bind (stat_entries l ns) (\<lambda>out. ret (\<lparr>entry_name = n, entry_mtime = t\<rparr> # out)))"

definition newest_first :: "backupEntry list \<Rightarrow> backupEntry list" where
  "newest_first es = sort_key (\<lambda>e. - entry_mtime e) es"

definition sortByModTimeDesc :: "Layout \<Rightarrow> string list \<Rightarrow> ('e, backupEntry list) io" where
  "sortByModTimeDesc l names = bind (stat_entries l names) (\<lambda>out. ret (newest_first out))"

definition LatestForDeployment :: "Layout \<Rightarrow> string \<Rightarrow> ('e, string) io" where
  "LatestForDeployment l deploymentID =
     bind (List_backups l) (\<lambda>names.
     bind (sortByModTimeDesc l (filter (\<lambda>n. HasPrefix n (deploymentID @ ''_'')) names)) (\<lambda>es.
       case es of [] \<Rightarrow> ret [] | e # _ \<Rightarrow> ret (entry_name e)))"

section \<open>Size\<close>

text \<open>
  \<open>filepath.WalkDir\<close>: every node under the root, directories read and regular files measured; the
  sum is a \<open>uint64\<close>.
\<close>

fun size_list :: "path list \<Rightarrow> 64 word \<Rightarrow> ('e, 64 word) io" where
  "size_list [] acc = ret acc"
| "size_list (q # qs) acc =
     bind (os_Stat q) (\<lambda>(n, _). case n of
       Dir _ \<Rightarrow> seq (os_ReadDir q) (size_list qs acc)
     | File _ b \<Rightarrow> size_list qs (acc + of_nat (length b)))"

definition dirSize :: "path \<Rightarrow> ('e, 64 word) io" where
  "dirSize root = seq (os_Stat root) (\<lambda>w. size_list (paths_under (w_fs w) root) 0 w)"

definition LatestSize :: "Layout \<Rightarrow> ('e, 64 word) io" where
  "LatestSize l =
     bind (List_backups l) (\<lambda>names.
     bind (sortByModTimeDesc l names) (\<lambda>es.
       case es of [] \<Rightarrow> ret 0 | e # _ \<Rightarrow> dirSize (Join (BackupsDir l) (entry_name e))))"

section \<open>Pruning\<close>

definition deploy_of :: "string \<Rightarrow> string" where
  "deploy_of n = fst (Cut n (CHR ''_''))"

type_synonym groups = "(string \<times> string list) list"

fun add_group :: "string \<Rightarrow> string \<Rightarrow> groups \<Rightarrow> groups" where
  "add_group d n [] = [(d, [n])]"
| "add_group d n ((d', ns) # gs) =
     (if d' = d then (d', ns @ [n]) # gs else (d', ns) # add_group d n gs)"

fun prune_unknown :: "Layout \<Rightarrow> string list \<Rightarrow> string list \<Rightarrow> groups \<Rightarrow> ('e, groups) io" where
  "prune_unknown l known [] gs = ret gs"
| "prune_unknown l known (n # ns) gs =
     (if deploy_of n \<notin> set known
      then seq (wrapf (''prune '' @ n) (os_RemoveAll (Join (BackupsDir l) n)))
             (prune_unknown l known ns gs)
      else prune_unknown l known ns (add_group (deploy_of n) n gs))"

text \<open>\<open>sorted[1:]\<close> of an empty slice is a run-time panic.\<close>

definition prune_group :: "Layout \<Rightarrow> string \<times> string list \<Rightarrow> ('e, unit) io" where
  "prune_group l g =
     (if length (snd g) \<le> 1 then ret ()
      else bind (wrapf ''sort backups for prune'' (sortByModTimeDesc l (snd g))) (\<lambda>es.
        case es of
          [] \<Rightarrow> throw (Msg ''panic: runtime error: slice bounds out of range [1:0]'')
        | _ # rest \<Rightarrow>
            each rest (\<lambda>e. wrapf (''prune '' @ entry_name e)
              (os_RemoveAll (Join (BackupsDir l) (entry_name e))))))"

definition Prune :: "(groups \<Rightarrow> groups) \<Rightarrow> Layout \<Rightarrow> string list \<Rightarrow> ('e, unit) io" where
  "Prune order l known =
     bind (List_backups l) (\<lambda>names.
     bind (prune_unknown l known names []) (\<lambda>gs. each (order gs) (prune_group l)))"

section \<open>The restore marker\<close>

definition RestoreRequested :: "Layout \<Rightarrow> ('e, bool) io" where
  "RestoreRequested l =
     bind (attempt (os_Stat (RestoreMarker l))) (\<lambda>r. case r of
       Inr _ \<Rightarrow> ret True
     | Inl e \<Rightarrow> if ErrNotExist e then ret False else throw e)"

definition ClearRestoreMarker :: "Layout \<Rightarrow> ('e, unit) io" where
  "ClearRestoreMarker l =
     on_err (os_Remove (RestoreMarker l)) (\<lambda>e. if ErrNotExist e then ret () else throw e)"

section \<open>What listing and sorting give\<close>

definition listed :: "Layout \<Rightarrow> fsys \<Rightarrow> string list" where
  "listed l fs =
     (if is_dir fs (BackupsDir l)
      then map fst (filter is_backup (map (\<lambda>c. (c, is_dir fs (BackupsDir l @ [c]))) (children fs (BackupsDir l))))
      else [])"

definition time_of :: "Layout \<Rightarrow> fsys \<Rightarrow> string \<Rightarrow> int" where
  "time_of l fs n = the (mtime fs (BackupsDir l @ [n]))"

definition entries_of :: "Layout \<Rightarrow> fsys \<Rightarrow> string list \<Rightarrow> backupEntry list" where
  "entries_of l fs ns = map (\<lambda>n. \<lparr>entry_name = n, entry_mtime = time_of l fs n\<rparr>) ns"

text \<open>Names that are single components, as every name in a directory is.\<close>

definition names_ok :: "fsys \<Rightarrow> bool" where
  "names_ok fs \<longleftrightarrow> (\<forall>p c. look fs (p @ [c]) \<noteq> None \<longrightarrow> simple_name c)"

lemma listed_in: "n \<in> set (listed l fs) \<Longrightarrow> is_dir fs (BackupsDir l @ [n]) \<and> CHR ''_'' \<in> set n"
  by (auto simp: listed_def is_backup_def Cut_found split: if_splits)

lemma listed_eq:
  "listed l fs = (if is_dir fs (BackupsDir l)
     then filter (\<lambda>c. is_backup (c, is_dir fs (BackupsDir l @ [c]))) (children fs (BackupsDir l)) else [])"
  by (simp add: listed_def filter_map comp_def)

lemma listed_distinct: "distinct (listed l fs)"
  by (simp add: listed_eq)

lemma fwp_List:
  assumes "C fs" "\<And>e. E e fs" "Q (listed l fs) fs"
  shows "fwp (List_backups l) Q E C fs"
  unfolding List_backups_def
  by (intro fwp_bind fwp_attempt fwp_ReadDir fwp_case_sum fwp_if fwp_ret fwp_throw)
    (use assms in \<open>auto simp: listed_def is_dir_look miss_def\<close>)

lemma fwp_stat_entries:
  assumes "\<forall>n\<in>set ns. simple_name n \<and> look fs (BackupsDir l @ [n]) \<noteq> None"
    and "C fs" "\<And>e. E e fs" "Q (entries_of l fs ns) fs"
  shows "fwp (stat_entries l ns :: ('e, backupEntry list) io) Q E C fs"
  using assms
proof (induction ns arbitrary: Q)
  case Nil
  then show ?case by (simp add: entries_of_def fwp_ret)
next
  case (Cons n ns)
  have rest: "fwp (stat_entries l ns :: ('e, backupEntry list) io) Q' E C fs" if "Q' (entries_of l fs ns) fs" for Q'
    by (rule Cons.IH) (use Cons.prems that in auto)
  show ?case
    unfolding stat_entries.simps
    by (intro fwp_bind fwp_attempt fwp_Stat fwp_case_sum fwp_if fwp_throw)
      (use Cons.prems in \<open>auto simp: path_simps look_def entries_of_def time_of_def mtime_def
          intro!: fwp_bind rest fwp_ret\<close>)
qed

lemma newest_first_hd:
  assumes "newest_first es = e # rest"
  shows "e \<in> set es" "\<forall>x\<in>set es. entry_mtime x \<le> entry_mtime e" "set (e # rest) = set es"
    "distinct es \<Longrightarrow> distinct (e # rest)"
proof -
  have "sorted (map (\<lambda>e. - entry_mtime e) (e # rest))"
    unfolding assms [symmetric] newest_first_def by simp
  moreover show "set (e # rest) = set es"
    unfolding assms [symmetric] newest_first_def by simp
  ultimately show "e \<in> set es" "\<forall>x\<in>set es. entry_mtime x \<le> entry_mtime e" by auto
  show "distinct es \<Longrightarrow> distinct (e # rest)"
    unfolding assms [symmetric] newest_first_def by simp
qed

lemma newest_first_Nil [simp]: "newest_first es = [] \<longleftrightarrow> es = []" "newest_first [] = []"
  unfolding newest_first_def by (metis length_0_conv length_sort, simp)

lemma fwp_sort:
  assumes "\<forall>n\<in>set ns. simple_name n \<and> look fs (BackupsDir l @ [n]) \<noteq> None"
    and "C fs" "\<And>e. E e fs" "Q (newest_first (entries_of l fs ns)) fs"
  shows "fwp (sortByModTimeDesc l ns) Q E C fs"
  unfolding sortByModTimeDesc_def
  by (intro fwp_bind fwp_stat_entries [OF assms(1)] fwp_ret) (use assms in auto)

text \<open>The newest of a group of names.\<close>

definition newest_of :: "Layout \<Rightarrow> fsys \<Rightarrow> string list \<Rightarrow> string" where
  "newest_of l fs ns = (case newest_first (entries_of l fs ns) of [] \<Rightarrow> [] | e # _ \<Rightarrow> entry_name e)"

lemma newest_of_in:
  assumes "ns \<noteq> []"
  shows "newest_of l fs ns \<in> set ns" "\<forall>m\<in>set ns. time_of l fs m \<le> time_of l fs (newest_of l fs ns)"
proof -
  obtain e rest where e: "newest_first (entries_of l fs ns) = e # rest"
    using assms by (cases "newest_first (entries_of l fs ns)") (auto simp: entries_of_def)
  note hd = newest_first_hd [OF e]
  have new: "newest_of l fs ns = entry_name e" by (simp add: newest_of_def e)
  show "newest_of l fs ns \<in> set ns" "\<forall>m\<in>set ns. time_of l fs m \<le> time_of l fs (newest_of l fs ns)"
    unfolding new using hd(1,2) by (auto simp: entries_of_def)
qed

definition matching :: "Layout \<Rightarrow> fsys \<Rightarrow> string \<Rightarrow> string list" where
  "matching l fs d = filter (\<lambda>n. HasPrefix n (d @ ''_'')) (listed l fs)"

lemma listed_ok:
  assumes "names_ok fs" "set ns \<subseteq> set (listed l fs)"
  shows "\<forall>n\<in>set ns. simple_name n \<and> look fs (BackupsDir l @ [n]) \<noteq> None"
  using assms listed_in [of _ l fs] by (fastforce simp: names_ok_def is_dir_look)

lemma fwp_LatestForDeployment:
  assumes "names_ok fs" "C fs" "\<And>e. E e fs" "Q (newest_of l fs (matching l fs d)) fs"
  shows "fwp (LatestForDeployment l d) Q E C fs"
  unfolding LatestForDeployment_def matching_def [symmetric]
  by (intro fwp_bind fwp_List fwp_sort listed_ok [OF assms(1)])
    (use assms in \<open>auto simp: newest_of_def matching_def split: list.split intro!: fwp_ret\<close>)

section \<open>Pruning\<close>

text \<open>Times are kept as well as nodes, wherever a call does not reach.\<close>

definition same_times :: "path set \<Rightarrow> fsys \<Rightarrow> fsys \<Rightarrow> bool" where
  "same_times Z fs fs' \<longleftrightarrow> (\<forall>q\<in>Z. mtime fs' q = mtime fs q)"

lemma keeps_unlinkat_times:
  assumes "q \<notin> Z" "butlast q \<notin> Z"
  shows "keeps (on_fs (same_times Z fs0)) (unlinkat q)"
  unfolding unlinkat_def
  by (rule keeps_syscall)
    (use assms in \<open>auto simp: same_times_def split: option.splits node.splits if_splits\<close>)

lemma keeps_RemoveAll_below:
  fixes p :: path
  assumes "\<And>q. prefix p q \<Longrightarrow> keeps (on_fs P) (unlinkat q :: ('e, unit) io)"
  shows "keeps (on_fs P) (os_RemoveAll p :: ('e, unit) io)"
proof -
  have ul: "keeps (on_fs P) (unlink_list ps err :: ('e, unit) io)" if "\<forall>q\<in>set ps. prefix p q" for ps err
    using that by (induction ps arbitrary: err) (auto intro!: keeps_rules assms split: option.split)
  have "keeps (on_fs P) (syscall (PathError ''unlinkat'' p)
      (\<lambda>fs t. if miss fs p = ENOENT then Inr ((), fs) else Inl (miss fs p)) :: ('e, unit) io)"
    by (rule keeps_syscall) (auto split: if_splits)
  moreover have "keeps (on_fs P) (unlink_list (rev (paths_under fs p)) None :: ('e, unit) io)" for fs
    by (rule ul) (auto simp: in_paths_under)
  ultimately show ?thesis by (auto simp: keeps_def os_RemoveAll_def wp_def)
qed

lemma prefix_butlast: "prefix p q \<Longrightarrow> q \<noteq> p \<Longrightarrow> prefix p (butlast q)"
  by (cases q rule: rev_cases) (auto simp: prefix_snoc)

lemma keeps_RemoveAll_times:
  assumes "Z \<inter> (below p \<union> {butlast p}) = {}"
  shows "keeps (on_fs (same_times Z fs0)) (os_RemoveAll p)"
proof (rule keeps_RemoveAll_below, rule keeps_unlinkat_times)
  fix q assume "prefix p q"
  then show "q \<notin> Z" using assms by auto
  show "butlast q \<notin> Z"
    using assms \<open>prefix p q\<close> prefix_butlast [of p q] by (cases "q = p") auto
qed

text \<open>
  The state of the backup directory while pruning: outside the listed backups nothing has changed,
  the backups \<open>S\<close> are as they were, the backups \<open>G\<close> are gone.
\<close>

definition pruned :: "Layout \<Rightarrow> fsys \<Rightarrow> string set \<Rightarrow> string set \<Rightarrow> fsys \<Rightarrow> bool" where
  "pruned l fs S G v \<longleftrightarrow>
     (\<forall>q. (\<forall>n\<in>set (listed l fs). \<not> prefix (BackupsDir l @ [n]) q) \<longrightarrow> look v q = look fs q) \<and>
     (\<forall>n\<in>S. sub v (BackupsDir l @ [n]) = sub fs (BackupsDir l @ [n]) \<and> time_of l v n = time_of l fs n) \<and>
     (\<forall>n\<in>G. sub v (BackupsDir l @ [n]) = no_tree)"

lemma pruned_start: "pruned l fs (set (listed l fs)) {} fs"
  by (simp add: pruned_def)

lemma pruned_mono: "pruned l fs S G v \<Longrightarrow> S' \<subseteq> S \<Longrightarrow> G' \<subseteq> G \<Longrightarrow> pruned l fs S' G' v"
  unfolding pruned_def by blast

lemma pruned_shrunk:
  assumes "pruned l fs S G v" "n \<in> set (listed l fs)" "shrunk (BackupsDir l @ [n]) v v'"
    and "same_times (- (below (BackupsDir l @ [n]) \<union> {BackupsDir l})) v v'"
  shows "pruned l fs (S - {n}) G v'"
proof -
  let ?B = "BackupsDir l"
  have same: "same_on (- below (?B @ [n])) v v'" using assms(3) by (simp add: shrunk_def)
  have other: "sub v' (?B @ [m]) = sub v (?B @ [m])" if "m \<noteq> n" for m
    using same by (rule same_on_sub) (use apart_siblings [OF that, of ?B] in \<open>auto simp: below_apart\<close>)
  have "?B @ [m] \<in> - (below (?B @ [n]) \<union> {?B})" if "m \<noteq> n" for m using that by simp
  then have times: "time_of l v' m = time_of l v m" if "m \<noteq> n" for m
    using assms(4) that unfolding same_times_def time_of_def by metis
  have "sub v' (?B @ [m]) = no_tree" if "sub v (?B @ [m]) = no_tree" for m
    using other that shrunk_no_tree [OF assms(3)] by (cases "m = n") auto
  moreover have "look v' q = look v q" if "\<forall>m\<in>set (listed l fs). \<not> prefix (?B @ [m]) q" for q
    using same that assms(2) by (auto simp: same_on_def)
  ultimately show ?thesis
    using assms(1) other times unfolding pruned_def by auto
qed

lemma fwp_prune_one:
  assumes "pruned l fs S G v" "n \<in> set (listed l fs)" "simple_name n" "Keep \<subseteq> S - {n}"
  shows "fwp (os_RemoveAll (Join (BackupsDir l) n)) (\<lambda>_. pruned l fs (S - {n}) (insert n G))
           (\<lambda>_. pruned l fs Keep {}) (pruned l fs Keep {}) v"
proof -
  let ?Z = "- (below (BackupsDir l @ [n]) \<union> {BackupsDir l})"
  have gone: "pruned l fs (S - {n}) (insert n G) v'"
    if "pruned l fs (S - {n}) G v'" "sub v' (BackupsDir l @ [n]) = no_tree" for v'
    using that by (simp add: pruned_def)
  have kept: "pruned l fs Keep {} v'" if "pruned l fs (S - {n}) G v'" for v'
    using pruned_mono [OF that assms(4)] by simp
  have keep: "keeps (on_fs (same_times ?Z v)) (os_RemoveAll (BackupsDir l @ [n]))"
    by (rule keeps_RemoveAll_times) auto
  show ?thesis
    unfolding Join_simple [OF assms(3)]
    by (rule fwp_assuming [OF keep], simp add: same_times_def, rule fwp_RemoveAll)
      (use pruned_shrunk [OF assms(1,2)] gone kept in auto)
qed

lemma fwp_prune_list:
  assumes "pruned l fs S G v" "set ns \<subseteq> set (listed l fs)" "\<forall>n\<in>set ns. simple_name n"
    and "Keep \<subseteq> S - set ns"
  shows "fwp (each ns (\<lambda>n. wrapf (s n) (os_RemoveAll (Join (BackupsDir l) n))))
           (\<lambda>_. pruned l fs (S - set ns) (set ns \<union> G)) (\<lambda>_. pruned l fs Keep {}) (pruned l fs Keep {}) v"
proof (rule fwp_each [where I = "\<lambda>dn. pruned l fs (S - set dn) (set dn \<union> G)"], goal_cases)
  case 1
  then show ?case using assms(1) by simp
next
  case (2 dn n rest v1)
  have "fwp (os_RemoveAll (Join (BackupsDir l) n)) (\<lambda>_. pruned l fs (S - set dn - {n}) (insert n (set dn \<union> G)))
      (\<lambda>_. pruned l fs Keep {}) (pruned l fs Keep {}) v1"
    by (rule fwp_prune_one [OF 2(2)]) (use 2(1) assms(2-4) in auto)
  then show ?case
    by (intro fwp_wrapf) (simp add: Diff_insert2 [symmetric] Diff_insert [symmetric] Un_insert_right)
qed simp

subsection \<open>Groups\<close>

fun group_names :: "string list \<Rightarrow> groups \<Rightarrow> groups" where
  "group_names [] gs = gs"
| "group_names (n # ns) gs = group_names ns (add_group (deploy_of n) n gs)"

text \<open>\<open>gs\<close> groups the names \<open>ns\<close> by deployment.\<close>

definition grouping :: "string list \<Rightarrow> groups \<Rightarrow> bool" where
  "grouping ns gs \<longleftrightarrow> distinct (map fst gs) \<and>
     (\<forall>d. map_of gs d =
        (if d \<in> deploy_of ` set ns then Some (filter (\<lambda>n. deploy_of n = d) ns) else None))"

lemma map_of_add_group:
  "map_of (add_group d n gs) =
   (map_of gs)(d \<mapsto> (case map_of gs d of None \<Rightarrow> [n] | Some g \<Rightarrow> g @ [n]))"
  by (induction gs) (auto simp: fun_eq_iff)

lemma add_group_keys: "set (map fst (add_group d n gs)) = insert d (set (map fst gs))"
  by (induction d n gs rule: add_group.induct) (simp_all add: insert_commute)

lemma add_group_distinct: "distinct (map fst gs) \<Longrightarrow> distinct (map fst (add_group d n gs))"
proof (induction gs)
  case (Cons a gs)
  then show ?case using add_group_keys [of d n gs] by (cases a) auto
qed simp

lemma grouping_add:
  assumes "grouping ns gs"
  shows "grouping (ns @ [n]) (add_group (deploy_of n) n gs)"
  using assms unfolding grouping_def
  by (auto simp: add_group_distinct map_of_add_group filter_empty_conv image_iff)

lemma grouping_names: "grouping ns gs \<Longrightarrow> grouping (ns @ ms) (group_names ms gs)"
proof (induction ms arbitrary: ns gs)
  case (Cons m ms)
  then show ?case using Cons.IH [OF grouping_add [OF Cons.prems]] by simp
qed simp

lemma groupingD:
  assumes "grouping ns gs"
  shows "(d, g) \<in> set gs \<Longrightarrow> g = filter (\<lambda>n. deploy_of n = d) ns \<and> g \<noteq> []"
    and "n \<in> set ns \<Longrightarrow> (deploy_of n, filter (\<lambda>m. deploy_of m = deploy_of n) ns) \<in> set gs"
    and "distinct (map fst gs)"
proof -
  show d: "distinct (map fst gs)" using assms by (simp add: grouping_def)
  show "g = filter (\<lambda>n. deploy_of n = d) ns \<and> g \<noteq> []" if "(d, g) \<in> set gs"
  proof -
    have "map_of gs d = Some g" using d that by (rule map_of_is_SomeI)
    then show ?thesis using assms by (auto simp: grouping_def filter_empty_conv split: if_splits)
  qed
  show "(deploy_of n, filter (\<lambda>m. deploy_of m = deploy_of n) ns) \<in> set gs" if "n \<in> set ns"
    using assms that by (intro map_of_SomeD) (auto simp: grouping_def)
qed

lemma fwp_prune_unknown:
  assumes "pruned l fs S G v" "set ns \<subseteq> set (listed l fs)" "\<forall>n\<in>set ns. simple_name n"
    and "Keep \<subseteq> S - {n \<in> set ns. deploy_of n \<notin> set known}"
  shows "fwp (prune_unknown l known ns gs :: ('e, groups) io)
    (\<lambda>gs' v'. gs' = group_names (filter (\<lambda>n. deploy_of n \<in> set known) ns) gs \<and>
        pruned l fs (S - {n \<in> set ns. deploy_of n \<notin> set known}) ({n \<in> set ns. deploy_of n \<notin> set known} \<union> G) v')
    (\<lambda>_. pruned l fs Keep {}) (pruned l fs Keep {}) v"
  using assms
proof (induction ns arbitrary: S G v gs)
  case Nil
  then show ?case by (simp add: fwp_ret)
next
  case (Cons n ns)
  show ?case
  proof (cases "deploy_of n \<in> set known")
    case True
    then have eq: "{m. (m = n \<or> m \<in> set ns) \<and> deploy_of m \<notin> set known} = {m \<in> set ns. deploy_of m \<notin> set known}"
      by auto
    show ?thesis using Cons.IH [of S G v] Cons.prems True by (simp add: eq)
  next
    case False
    then have eq: "{m \<in> set (n # ns). deploy_of m \<notin> set known} = insert n {m \<in> set ns. deploy_of m \<notin> set known}"
      by auto
    have "fwp (os_RemoveAll (Join (BackupsDir l) n)) (\<lambda>_. pruned l fs (S - {n}) (insert n G))
        (\<lambda>_. pruned l fs Keep {}) (pruned l fs Keep {}) v"
      by (rule fwp_prune_one [OF Cons.prems(1)]) (use Cons.prems(2-4) False in auto)
    note rm = this
    have rest: "fwp (prune_unknown l known ns gs :: ('e, groups) io)
        (\<lambda>gs' v'. gs' = group_names (filter (\<lambda>n. deploy_of n \<in> set known) ns) gs \<and>
          pruned l fs (S - {n} - {n \<in> set ns. deploy_of n \<notin> set known})
            ({n \<in> set ns. deploy_of n \<notin> set known} \<union> insert n G) v')
        (\<lambda>_. pruned l fs Keep {}) (pruned l fs Keep {}) v'" if "pruned l fs (S - {n}) (insert n G) v'" for v'
      by (rule Cons.IH [OF that]) (use Cons.prems(2-4) eq in auto)
    have "fwp (seq (wrapf s (os_RemoveAll (Join (BackupsDir l) n))) (prune_unknown l known ns gs) :: ('e, groups) io)
        (\<lambda>gs' v'. gs' = group_names (filter (\<lambda>n. deploy_of n \<in> set known) ns) gs \<and>
          pruned l fs (S - {n} - {n \<in> set ns. deploy_of n \<notin> set known})
            ({n \<in> set ns. deploy_of n \<notin> set known} \<union> insert n G) v')
        (\<lambda>_. pruned l fs Keep {}) (pruned l fs Keep {}) v" for s
      by (intro fwp_seq fwp_wrapf fwp_mono [OF rm]) (erule rest | assumption)+
    then show ?thesis
      unfolding eq using False by (simp add: Diff_insert2 [symmetric])
  qed
qed

lemma each_map: "each (map f xs) h = each xs (\<lambda>x. h (f x))"
  by (induction xs) simp_all

text \<open>The backups \<open>Prune\<close> may drop: of unknown deployments, and all but the newest of the others.\<close>

definition group_of :: "Layout \<Rightarrow> fsys \<Rightarrow> string \<Rightarrow> string list" where
  "group_of l fs d = filter (\<lambda>n. deploy_of n = d) (listed l fs)"

definition survives :: "Layout \<Rightarrow> fsys \<Rightarrow> string list \<Rightarrow> string \<Rightarrow> bool" where
  "survives l fs known n \<longleftrightarrow>
     n \<in> set (listed l fs) \<and> deploy_of n \<in> set known \<and>
     n = newest_of l fs (group_of l fs (deploy_of n))"

definition losers :: "Layout \<Rightarrow> fsys \<Rightarrow> string list \<Rightarrow> string set" where
  "losers l fs g = set g - {newest_of l fs g}"

lemma entries_same:
  "pruned l fs S G v \<Longrightarrow> set g \<subseteq> S \<Longrightarrow> entries_of l v g = entries_of l fs g"
  by (auto simp: pruned_def entries_of_def)

lemma fwp_prune_group:
  assumes v: "pruned l fs S G v" and g: "set g \<subseteq> S" "set g \<subseteq> set (listed l fs)" "distinct g"
    and names: "names_ok fs" and Keep: "Keep \<subseteq> S - losers l fs g"
  shows "fwp (prune_group l (d, g)) (\<lambda>_. pruned l fs (S - losers l fs g) (losers l fs g \<union> G))
           (\<lambda>_. pruned l fs Keep {}) (pruned l fs Keep {}) v"
proof (cases "length g \<le> 1")
  case True
  then have "losers l fs g = {}"
    by (cases g) (auto simp: losers_def newest_of_def newest_first_def entries_of_def)
  then show ?thesis using v True by (simp add: prune_group_def fwp_ret)
next
  case False
  then have ne: "g \<noteq> []" by auto
  note ok = listed_ok [OF names g(2)]
  then have simple: "\<forall>n\<in>set g. simple_name n" by blast
  have present: "\<forall>n\<in>set g. simple_name n \<and> look v (BackupsDir l @ [n]) \<noteq> None"
  proof
    fix n assume n: "n \<in> set g"
    then have "sub v (BackupsDir l @ [n]) = sub fs (BackupsDir l @ [n])"
      using v g(1) by (auto simp: pruned_def)
    then show "simple_name n \<and> look v (BackupsDir l @ [n]) \<noteq> None"
      using ok n by (simp add: look_sub_root)
  qed
  obtain e rest where es: "newest_first (entries_of l fs g) = e # rest"
    using ne by (cases "newest_first (entries_of l fs g)") (auto simp: entries_of_def)
  have "distinct (map entry_name (entries_of l fs g))" using g(3) by (simp add: entries_of_def comp_def)
  then have inj: "distinct (entries_of l fs g)" "inj_on entry_name (set (entries_of l fs g))"
    by (simp_all add: distinct_map)
  note hd = newest_first_hd [OF es]
  have "set rest = set (entries_of l fs g) - {e}" using hd(3) hd(4) [OF inj(1)] by auto
  then have "entry_name ` set rest = entry_name ` set (entries_of l fs g) - {entry_name e}"
    using inj_on_image_set_diff [OF inj(2), of "set (entries_of l fs g)" "{e}"] hd(1) by simp
  moreover have "entry_name ` set (entries_of l fs g) = set g" by (auto simp: entries_of_def image_iff)
  moreover have "newest_of l fs g = entry_name e" by (simp add: newest_of_def es)
  ultimately have rest: "set (map entry_name rest) = losers l fs g" by (simp add: losers_def)
  have drop: "fwp (each rest (\<lambda>e. wrapf (''prune '' @ entry_name e) (os_RemoveAll (Join (BackupsDir l) (entry_name e)))))
      (\<lambda>_. pruned l fs (S - losers l fs g) (losers l fs g \<union> G)) (\<lambda>_. pruned l fs Keep {}) (pruned l fs Keep {}) v"
    using fwp_prune_list [OF v, of "map entry_name rest" Keep "\<lambda>n. ''prune '' @ n"] rest g(2) simple Keep
    by (auto simp: each_map losers_def)
  have kept: "pruned l fs Keep {} v" using pruned_mono [OF v, of Keep "{}"] Keep by auto
  have "fwp (bind (wrapf ''sort backups for prune'' (sortByModTimeDesc l g)) (\<lambda>es. case es of
        [] \<Rightarrow> throw (Msg ''panic: runtime error: slice bounds out of range [1:0]'')
      | _ # rest \<Rightarrow> each rest (\<lambda>e. wrapf (''prune '' @ entry_name e)
            (os_RemoveAll (Join (BackupsDir l) (entry_name e))))))
      (\<lambda>_. pruned l fs (S - losers l fs g) (losers l fs g \<union> G)) (\<lambda>_. pruned l fs Keep {}) (pruned l fs Keep {}) v"
    by (intro fwp_bind fwp_wrapf fwp_sort [OF present])
      (simp_all only: kept entries_same [OF v g(1)] es list.case drop)
  then show ?thesis unfolding prune_group_def snd_conv if_not_P [OF False] .
qed

subsection \<open>The plan\<close>

text \<open>The groups \<open>Prune\<close> goes through, and that they decide who survives.\<close>

definition plan :: "Layout \<Rightarrow> fsys \<Rightarrow> string list \<Rightarrow> groups" where
  "plan l fs known = group_names (filter (\<lambda>n. deploy_of n \<in> set known) (listed l fs)) []"

definition unknown :: "Layout \<Rightarrow> fsys \<Rightarrow> string list \<Rightarrow> string set" where
  "unknown l fs known = {n \<in> set (listed l fs). deploy_of n \<notin> set known}"

definition lost :: "Layout \<Rightarrow> fsys \<Rightarrow> groups \<Rightarrow> string set" where
  "lost l fs ps = \<Union> (losers l fs ` snd ` set ps)"

lemma plan_grouping:
  "grouping (filter (\<lambda>n. deploy_of n \<in> set known) (listed l fs)) (plan l fs known)"
proof -
  have "grouping [] []" by (simp add: grouping_def)
  then show ?thesis using grouping_names [of "[]" "[]"] by (simp add: plan_def)
qed

lemma plan_distinct: "distinct (map fst (plan l fs known))" "distinct (plan l fs known)"
  using groupingD(3) [OF plan_grouping] by (simp_all add: distinct_map)

lemma plan_group:
  assumes "(d, g) \<in> set (plan l fs known)"
  shows "g = group_of l fs d" "d \<in> set known" "g \<noteq> []"
proof -
  let ?N = "filter (\<lambda>n. deploy_of n \<in> set known) (listed l fs)"
  have g: "g = filter (\<lambda>n. deploy_of n = d) ?N" and ne: "g \<noteq> []"
    using groupingD(1) [OF plan_grouping assms] by auto
  have "hd g \<in> set g" using ne by simp
  then show d: "d \<in> set known" using g by auto
  show "g = group_of l fs d" unfolding g group_of_def filter_filter using d by (auto intro: filter_cong)
  show "g \<noteq> []" by (rule ne)
qed

lemma plan_covers:
  assumes "n \<in> set (listed l fs)" "deploy_of n \<in> set known"
  shows "(deploy_of n, group_of l fs (deploy_of n)) \<in> set (plan l fs known)"
proof -
  have "(deploy_of n, filter (\<lambda>m. deploy_of m = deploy_of n) (filter (\<lambda>n. deploy_of n \<in> set known) (listed l fs)))
      \<in> set (plan l fs known)"
    by (rule groupingD(2) [OF plan_grouping]) (use assms in simp)
  from plan_group(1) [OF this] this show ?thesis by simp
qed

lemma survivors:
  "{n. survives l fs known n} = set (listed l fs) - unknown l fs known - lost l fs (plan l fs known)"
proof (intro set_eqI iffI)
  fix n assume "n \<in> {n. survives l fs known n}"
  then have n: "n \<in> set (listed l fs)" "deploy_of n \<in> set known" "n = newest_of l fs (group_of l fs (deploy_of n))"
    by (auto simp: survives_def)
  have "n \<notin> losers l fs g" if "(d, g) \<in> set (plan l fs known)" for d g
  proof
    assume "n \<in> losers l fs g"
    then have "n \<in> set g" "n \<noteq> newest_of l fs g" by (auto simp: losers_def)
    with plan_group(1) [OF that] n(3) show False by (auto simp: group_of_def)
  qed
  then show "n \<in> set (listed l fs) - unknown l fs known - lost l fs (plan l fs known)"
    using n by (auto simp: unknown_def lost_def)
next
  fix n assume n: "n \<in> set (listed l fs) - unknown l fs known - lost l fs (plan l fs known)"
  then have known: "deploy_of n \<in> set known" "n \<in> set (group_of l fs (deploy_of n))"
    by (auto simp: unknown_def group_of_def)
  have "n \<notin> losers l fs (group_of l fs (deploy_of n))"
    using n plan_covers [OF _ known(1)] by (force simp: lost_def)
  then show "n \<in> {n. survives l fs known n}" using n known by (auto simp: losers_def survives_def)
qed

lemma fwp_Prune_groups:
  fixes l :: Layout and known :: "string list" and fs :: fsys
  defines "Keep \<equiv> {n. survives l fs known n}"
  assumes names: "names_ok fs" and perm: "set ps = set (plan l fs known)" "distinct ps"
    and v: "pruned l fs (set (listed l fs) - unknown l fs known) (unknown l fs known) v"
  shows "fwp (each ps (prune_group l)) (\<lambda>_. pruned l fs Keep (set (listed l fs) - Keep))
      (\<lambda>_. pruned l fs Keep {}) (pruned l fs Keep {}) v"
proof -
  let ?S = "set (listed l fs) - unknown l fs known" and ?U = "unknown l fs known"
  have lost_ps: "lost l fs ps = lost l fs (plan l fs known)" using perm(1) by (simp add: lost_def)
  show ?thesis
  proof (rule fwp_each [where I = "\<lambda>dn. pruned l fs (?S - lost l fs dn) (lost l fs dn \<union> ?U)"], goal_cases)
    case 1
    then show ?case using v by (simp add: lost_def)
  next
    case (2 dn p rest v1)
    obtain d g where p: "p = (d, g)" by (cases p)
    have in_plan: "set dn \<subseteq> set (plan l fs known)" "(d, g) \<in> set (plan l fs known)"
      using perm(1) 2(1) p by auto
    note g = plan_group [OF in_plan(2)]
    have "m \<notin> lost l fs dn" if m: "m \<in> set g" for m
    proof
      assume "m \<in> lost l fs dn"
      then obtain d' g' where dg: "(d', g') \<in> set dn" "m \<in> set g'" by (auto simp: lost_def losers_def)
      then have "d' = d" using plan_group(1) [of d' g' l fs known] in_plan(1) m g(1) by (auto simp: group_of_def)
      then have "(d, g) \<in> set dn" using dg plan_group(1) [of d' g' l fs known] in_plan(1) g(1) by auto
      then show False using perm(2) 2(1) p by auto
    qed
    then have sub: "set g \<subseteq> ?S - lost l fs dn" using g by (auto simp: group_of_def unknown_def)
    have ok: "set g \<subseteq> set (listed l fs)" "distinct g"
      using g(1) listed_distinct by (auto simp: group_of_def)
    have next_eq: "?S - lost l fs dn - losers l fs g = ?S - lost l fs (dn @ [p])"
      "losers l fs g \<union> (lost l fs dn \<union> ?U) = lost l fs (dn @ [p]) \<union> ?U"
      by (auto simp: lost_def p)
    have "lost l fs (dn @ [p]) \<subseteq> lost l fs (plan l fs known)" using in_plan by (auto simp: lost_def p)
    then have "Keep \<subseteq> ?S - lost l fs dn - losers l fs g"
      unfolding Keep_def survivors next_eq by blast
    from fwp_prune_group [OF 2(2) sub ok names this] show ?case unfolding next_eq p .
  next
    case (3 v1)
    have "Keep = ?S - lost l fs ps" unfolding Keep_def survivors lost_ps ..
    moreover from this have "set (listed l fs) - Keep \<subseteq> lost l fs ps \<union> ?U" by auto
    ultimately show ?case using pruned_mono [OF 3] by blast
  qed
qed

lemma fwp_Prune:
  fixes l :: Layout and known :: "string list" and fs :: fsys
  defines "Keep \<equiv> {n. survives l fs known n}"
  assumes names: "names_ok fs"
    and order: "\<And>gs. distinct gs \<Longrightarrow> set (order gs) = set gs \<and> distinct (order gs)"
  shows "fwp (Prune order l known :: ('e, unit) io) (\<lambda>_. pruned l fs Keep (set (listed l fs) - Keep))
           (\<lambda>_. pruned l fs Keep {}) (pruned l fs Keep {}) fs"
proof -
  let ?L = "listed l fs"
  have Keep: "Keep \<subseteq> set ?L - unknown l fs known" unfolding Keep_def survivors by blast
  have simple: "\<forall>n\<in>set ?L. simple_name n" using listed_ok [OF names, of ?L l] by blast
  have "fwp (prune_unknown l known ?L []) (\<lambda>gs v. gs = plan l fs known \<and>
      pruned l fs (set ?L - unknown l fs known) (unknown l fs known) v)
      (\<lambda>_. pruned l fs Keep {}) (pruned l fs Keep {}) fs"
    using fwp_prune_unknown [OF pruned_start subset_refl simple Keep [unfolded unknown_def], of "[]"]
    by (simp add: plan_def unknown_def)
  note first = this
  have start: "pruned l fs Keep {} fs" using pruned_mono [OF pruned_start, of Keep] Keep by auto
  have loop: "fwp (each (order (plan l fs known)) (prune_group l) :: ('e, unit) io)
      (\<lambda>_. pruned l fs Keep (set ?L - Keep)) (\<lambda>_. pruned l fs Keep {}) (pruned l fs Keep {}) v"
    if "pruned l fs (set ?L - unknown l fs known) (unknown l fs known) v" for v
    unfolding Keep_def using fwp_Prune_groups [OF names _ _ that] order [OF plan_distinct(2)] by blast
  show ?thesis
    unfolding Prune_def
    by (intro fwp_bind fwp_List fwp_mono [OF first]) (use start loop in auto)
qed

section \<open>Properties\<close>

text \<open>C22: \<open>LatestForDeployment\<close> returns the name of a listed backup that starts with the deployment id
  and an underscore and is at least as new as every other such backup, or the empty name when there
  is none. It changes nothing.\<close>

theorem latest_is_newest:
  assumes "names_ok fs"
  shows "fwp (LatestForDeployment l d)
    (\<lambda>n fs'. fs' = fs \<and>
       (if matching l fs d = [] then n = []
        else n \<in> set (listed l fs) \<and> HasPrefix n (d @ ''_'') \<and>
             (\<forall>m\<in>set (listed l fs). HasPrefix m (d @ ''_'') \<longrightarrow> time_of l fs m \<le> time_of l fs n)))
    (\<lambda>_ fs'. fs' = fs) (\<lambda>fs'. fs' = fs) fs"
proof (rule fwp_LatestForDeployment [OF assms], simp, simp)
  show "fs = fs \<and> (if matching l fs d = [] then newest_of l fs (matching l fs d) = []
      else newest_of l fs (matching l fs d) \<in> set (listed l fs) \<and>
        HasPrefix (newest_of l fs (matching l fs d)) (d @ ''_'') \<and>
        (\<forall>m\<in>set (listed l fs). HasPrefix m (d @ ''_'') \<longrightarrow>
           time_of l fs m \<le> time_of l fs (newest_of l fs (matching l fs d))))"
    using newest_of_in [of "matching l fs d" l fs]
    by (auto simp: newest_of_def entries_of_def matching_def)
qed

text \<open>A node with several backups.\<close>

definition backup_at :: "string \<Rightarrow> int \<Rightarrow> fsys" where
  "backup_at n t = [([''var'', ''lib'', ''picokube'', ''backups'', n], Dir 0x1C0, t),
     ([''var'', ''lib'', ''picokube'', ''backups'', n, ''meta.json''], File 0x180 ''{}'', t)]"

definition shelf_fs :: fsys where
  "shelf_fs = node_fs @ backup_at ''d.0_b0'' 3 @ backup_at ''d.1_b4'' 9 @ backup_at ''e.7_b2'' 5 @
     backup_at ''d.1_b3'' 8"

lemma names_ok_code [code]: "names_ok fs \<longleftrightarrow> list_all (\<lambda>e. fst e = [] \<or> simple_name (last (fst e))) fs"
proof -
  have "names_ok fs \<longleftrightarrow> (\<forall>p. p \<noteq> [] \<longrightarrow> look fs p \<noteq> None \<longrightarrow> simple_name (last p))"
    unfolding names_ok_def by (metis append_butlast_last_id last_snoc snoc_eq_iff_butlast)
  then show ?thesis unfolding look_None_iff list_all_iff by blast
qed

lemma shelf_ok: "names_ok shelf_fs" "wf_fs shelf_fs"
  by code_simp+

theorem latest_is_newest_witness:
  "fwp (LatestForDeployment Default ''d.1'')
    (\<lambda>n fs'. fs' = shelf_fs \<and>
       (if matching Default shelf_fs ''d.1'' = [] then n = []
        else n \<in> set (listed Default shelf_fs) \<and> HasPrefix n (''d.1'' @ ''_'') \<and>
             (\<forall>m\<in>set (listed Default shelf_fs). HasPrefix m (''d.1'' @ ''_'') \<longrightarrow>
                time_of Default shelf_fs m \<le> time_of Default shelf_fs n)))
    (\<lambda>_ fs'. fs' = shelf_fs) (\<lambda>fs'. fs' = shelf_fs) shelf_fs \<and>
   matching Default shelf_fs ''d.1'' = [''d.1_b3'', ''d.1_b4'']"
  by (rule conjI [OF latest_is_newest [OF shelf_ok(1)]]) code_simp

text \<open>C16: \<open>Prune\<close> keeps, of every known deployment, exactly one backup, and that is one of its newest;
  everything else in the list goes. On a normal return the survivors are untouched and all other
  listed backups are gone; on an error, and wherever the power is lost, the survivors and everything
  that is not a listed backup are untouched. This holds for every order in which the map of groups
  is iterated.\<close>

theorem prune_keeps_newest:
  assumes "names_ok fs" and "\<And>gs. distinct gs \<Longrightarrow> set (order gs) = set gs \<and> distinct (order gs)"
  shows "fwp (Prune order l known)
    (\<lambda>_. pruned l fs {n. survives l fs known n} (set (listed l fs) - {n. survives l fs known n}))
    (\<lambda>_. pruned l fs {n. survives l fs known n} {}) (pruned l fs {n. survives l fs known n} {}) fs \<and>
   (\<forall>d\<in>set known. group_of l fs d \<noteq> [] \<longrightarrow>
      (\<exists>!n. survives l fs known n \<and> deploy_of n = d) \<and>
      (\<forall>n m. survives l fs known n \<longrightarrow> deploy_of n = d \<longrightarrow> m \<in> set (group_of l fs d) \<longrightarrow>
         time_of l fs m \<le> time_of l fs n))"
proof (intro conjI ballI impI)
  show "fwp (Prune order l known)
    (\<lambda>_. pruned l fs {n. survives l fs known n} (set (listed l fs) - {n. survives l fs known n}))
    (\<lambda>_. pruned l fs {n. survives l fs known n} {}) (pruned l fs {n. survives l fs known n} {}) fs"
    by (rule fwp_Prune [OF assms])
  fix d assume d: "d \<in> set known" "group_of l fs d \<noteq> []"
  note new = newest_of_in [OF d(2), of l fs]
  have in_group: "newest_of l fs (group_of l fs d) \<in> set (listed l fs)"
    "deploy_of (newest_of l fs (group_of l fs d)) = d"
    using new(1) unfolding group_of_def by auto
  have only: "survives l fs known n \<and> deploy_of n = d \<longleftrightarrow> n = newest_of l fs (group_of l fs d)" for n
    using d(1) in_group by (auto simp: survives_def)
  then show "\<exists>!n. survives l fs known n \<and> deploy_of n = d" by auto
  show "\<forall>n m. survives l fs known n \<longrightarrow> deploy_of n = d \<longrightarrow> m \<in> set (group_of l fs d) \<longrightarrow>
      time_of l fs m \<le> time_of l fs n"
  proof (intro allI impI)
    fix n m assume "survives l fs known n" "deploy_of n = d" "m \<in> set (group_of l fs d)"
    then show "time_of l fs m \<le> time_of l fs n" using only [of n] new(2) by simp
  qed
qed

theorem prune_keeps_newest_witness:
  "fwp (Prune rev Default [''d.1'', ''d.2''])
    (\<lambda>_. pruned Default shelf_fs {n. survives Default shelf_fs [''d.1'', ''d.2''] n}
        (set (listed Default shelf_fs) - {n. survives Default shelf_fs [''d.1'', ''d.2''] n}))
    (\<lambda>_. pruned Default shelf_fs {n. survives Default shelf_fs [''d.1'', ''d.2''] n} {})
    (pruned Default shelf_fs {n. survives Default shelf_fs [''d.1'', ''d.2''] n} {}) shelf_fs \<and>
   filter (survives Default shelf_fs [''d.1'', ''d.2'']) (listed Default shelf_fs) = [''d.1_b4'']"
proof
  show "fwp (Prune rev Default [''d.1'', ''d.2''])
    (\<lambda>_. pruned Default shelf_fs {n. survives Default shelf_fs [''d.1'', ''d.2''] n}
        (set (listed Default shelf_fs) - {n. survives Default shelf_fs [''d.1'', ''d.2''] n}))
    (\<lambda>_. pruned Default shelf_fs {n. survives Default shelf_fs [''d.1'', ''d.2''] n} {})
    (pruned Default shelf_fs {n. survives Default shelf_fs [''d.1'', ''d.2''] n} {}) shelf_fs"
    by (rule prune_keeps_newest [THEN conjunct1]) (simp_all add: shelf_ok)
  show "filter (survives Default shelf_fs [''d.1'', ''d.2'']) (listed Default shelf_fs) = [''d.1_b4'']"
    by code_simp
qed

text \<open>C38: \<open>Prune\<close> takes the part of a backup's name before the first underscore for the deployment. Where the id of a
  deployment has an underscore itself and that part is not a known id, every backup of the deployment is gone after a
  normal return, even if the deployment is known - one that rpm-ostree still lists, and that may be rolled back to.
  This holds for every order in which the map of groups is iterated, and for every fate of the system calls.\<close>

theorem prune_underscore_ids:
  assumes "names_ok fs" and "\<And>gs. distinct gs \<Longrightarrow> set (order gs) = set gs \<and> distinct (order gs)"
    and "CHR ''_'' \<in> set (DeploymentID meta)" and "takeWhile (\<lambda>c. c \<noteq> CHR ''_'') (DeploymentID meta) \<notin> set known"
    and "Name meta \<in> set (listed l fs)"
  shows "fwp (Prune order l known) (\<lambda>_ v. sub v (BackupsDir l @ [Name meta]) = no_tree) (\<lambda>_ _. True) (\<lambda>_. True) fs"
proof -
  have cut: "fst (Cut (s @ t) (CHR ''_'')) = takeWhile (\<lambda>c. c \<noteq> CHR ''_'') s" if "CHR ''_'' \<in> set s" for s t
    using that by (induction s) (auto split: prod.splits)
  have "deploy_of (Name meta) \<notin> set known"
    using assms(4) cut [OF assms(3)] by (simp add: deploy_of_def Name_def)
  then have "Name meta \<in> set (listed l fs) - {n. survives l fs known n}" using assms(5) by (simp add: survives_def)
  then show ?thesis
    by (intro fwp_mono [OF fwp_Prune [OF assms(1,2)]]) (auto simp: pruned_def)
qed

text \<open>rpm-ostree knows the deployment \<open>my_os.0\<close>, and its only backup is removed.\<close>

definition my_os_fs :: fsys where
  "my_os_fs = node_fs @ backup_at ''my_os.0_b'' 3"

theorem prune_underscore_ids_witness:
  "\<exists>w. Prune rev Default [''my_os.0''] (world_at calm_orc my_os_fs) = (Ok (), w) \<and>
     ''my_os.0_b'' \<in> set (listed Default my_os_fs) \<and> sub (w_fs w) (BackupsDir Default @ [''my_os.0_b'']) = no_tree"
proof -
  let ?r = "Prune rev Default [''my_os.0''] (world_at calm_orc my_os_fs)"
  let ?meta = "\<lparr>Version = ''1'', DeploymentID = ''my_os.0'', BootID = ''b''\<rparr>"
  have "fst ?r = Ok ()" by code_simp
  then obtain w where r: "?r = (Ok (), w)" by (cases ?r) simp
  have fs: "names_ok my_os_fs" "''my_os.0_b'' \<in> set (listed Default my_os_fs)" by code_simp+
  have "fwp (Prune rev Default [''my_os.0''] :: (unit, unit) io) (\<lambda>_ v. sub v (BackupsDir Default @ [Name ?meta]) = no_tree)
      (\<lambda>_ _. True) (\<lambda>_. True) my_os_fs"
    by (rule prune_underscore_ids) (use fs in \<open>simp_all add: Name_def\<close>)
  from fwp_Ok [OF this _ r] fs(2) r show ?thesis by (simp add: Name_def)
qed

definition tree_bytes :: "fsys \<Rightarrow> path \<Rightarrow> nat" where
  "tree_bytes fs root = sum_list (map (\<lambda>q. case look fs q of Some (File _ b) \<Rightarrow> length b | _ \<Rightarrow> 0)
     (paths_under fs root))"

lemma fwp_size_list:
  assumes "C fs" "\<And>e. E e fs"
    and "Q (acc + of_nat (sum_list (map (\<lambda>q. case look fs q of Some (File _ b) \<Rightarrow> length b | _ \<Rightarrow> 0) qs))) fs"
  shows "fwp (size_list qs acc :: ('e, 64 word) io) Q E C fs"
  using assms
proof (induction qs arbitrary: acc)
  case Nil
  then show ?case by (simp add: fwp_ret)
next
  case (Cons q qs)
  have rest: "fwp (size_list qs acc' :: ('e, 64 word) io) Q E C fs"
    if "acc' = acc + of_nat (case look fs q of Some (File _ b) \<Rightarrow> length b | _ \<Rightarrow> 0)" for acc'
    by (rule Cons.IH) (use Cons.prems that in \<open>auto simp: add.assoc\<close>)
  show ?case
    unfolding size_list.simps
    by (intro fwp_bind fwp_Stat)
      (use Cons.prems in \<open>auto simp: look_def intro!: fwp_seq fwp_ReadDir rest split: node.split\<close>)
qed

lemma fwp_dirSize:
  assumes "C fs" "\<And>e. E e fs" "Q (of_nat (tree_bytes fs root)) fs"
  shows "fwp (dirSize root) Q E C fs"
proof -
  have "fwp (\<lambda>w. size_list (paths_under (w_fs w) root) 0 w) Q E C fs"
    using fwp_size_list [of C fs E Q 0 "paths_under fs root"] assms
    by (simp add: fwp_def wp_def tree_bytes_def)
  then show ?thesis
    unfolding dirSize_def by (intro fwp_seq fwp_Stat) (use assms in auto)
qed

text \<open>\<open>dirSize\<close> adds up the sizes of the regular files of the tree, modulo 2 to the 64.\<close>

theorem dir_size_sums:
  "fwp (dirSize root) (\<lambda>n fs'. fs' = fs \<and> n = of_nat (tree_bytes fs root)) (\<lambda>_ fs'. fs' = fs) (\<lambda>fs'. fs' = fs) fs"
  by (rule fwp_dirSize) auto

end
