(* ===== verification/Ostree.thy ===== *)
theory Ostree
  imports Go_Json Go_Os
begin

text \<open>
  \<open>internal/ostree\<close>: whether the system is an ostree deployment, and the deployment ids
  \<open>rpm-ostree status --json\<close> reports. The command itself is a parameter: a computation that
  gives the standard output, or an error whose text is the exit status and the standard error.
  The decoding of its output is \<open>json.Unmarshal\<close> into the source's two structs: unknown members
  are skipped, names are compared without regard to case, \<open>null\<close> leaves a field as it is, an
  array replaces the slice, and a value of another type is an error.
\<close>

section \<open>Decoding\<close>

record deployment =
  ID :: string
  Booted :: bool

fun decode_deployment :: "json \<Rightarrow> deployment option" where
  "decode_deployment (JObj ms) =
     (case (decode_string ''id'' ms [], decode_bool ''booted'' ms False) of
        (Some i, Some b) \<Rightarrow> Some \<lparr>ID = i, Booted = b\<rparr>
      | _ \<Rightarrow> None)"
| "decode_deployment JNull = Some \<lparr>ID = [], Booted = False\<rparr>"
| "decode_deployment _ = None"

fun decode_deployments :: "(string \<times> json) list \<Rightarrow> deployment list \<Rightarrow> deployment list option" where
  "decode_deployments [] acc = Some acc"
| "decode_deployments ((k, v) # ms) acc =
     (if same_field ''deployments'' k then
        (case v of
           JArr vs \<Rightarrow> (case those (map decode_deployment vs) of
               None \<Rightarrow> None
             | Some ds \<Rightarrow> decode_deployments ms ds)
         | JNull \<Rightarrow> decode_deployments ms []
         | _ \<Rightarrow> None)
      else decode_deployments ms acc)"

definition status_deployments :: "string \<Rightarrow> deployment list option" where
  "status_deployments b = (case json_parse b of
     Some (JObj ms) \<Rightarrow> decode_deployments ms []
   | Some JNull \<Rightarrow> Some []
   | _ \<Rightarrow> None)"

section \<open>Operations\<close>

type_synonym 'e rpm_ostree = "('e, string) io"

definition OSTreeBootedMarker :: path where
  "OSTreeBootedMarker = abs_path ''/run/ostree-booted''"

definition IsOSTree :: "('e, bool) io" where
  "IsOSTree =
     bind (attempt (os_Stat OSTreeBootedMarker)) (\<lambda>r. case r of
       Inr _ \<Rightarrow> ret True
     | Inl e \<Rightarrow>
         if ErrNotExist e then ret False
         else throw (Wrapf (''stat '' @ path_text OSTreeBootedMarker) e))"

definition allDeployments :: "'e rpm_ostree \<Rightarrow> ('e, deployment list) io" where
  "allDeployments rpm =
     bind (on_err rpm (\<lambda>e. throw (Msg (''rpm-ostree status: '' @ Error e)))) (\<lambda>b.
       case status_deployments b of
         None \<Rightarrow> throw (Wrapf ''parse rpm-ostree status'' (Msg ''json''))
       | Some ds \<Rightarrow> ret ds)"

fun first_booted :: "deployment list \<Rightarrow> ('e, string) io" where
  "first_booted [] = throw (Msg ''no booted deployment in rpm-ostree status output'')"
| "first_booted (d # ds) = (if Booted d then ret (ID d) else first_booted ds)"

definition BootedDeploymentID :: "'e rpm_ostree \<Rightarrow> ('e, string) io" where
  "BootedDeploymentID rpm =
     bind IsOSTree (\<lambda>ok.
       if \<not> ok then ret [] else bind (allDeployments rpm) first_booted)"

definition AllDeploymentIDs :: "'e rpm_ostree \<Rightarrow> ('e, string list) io" where
  "AllDeploymentIDs rpm =
     bind IsOSTree (\<lambda>ok.
       if \<not> ok then ret [] else bind (allDeployments rpm) (\<lambda>ds. ret (map ID ds)))"

section \<open>What they do\<close>

lemma fwp_IsOSTree [fwp_rules]:
  assumes "C fs" "\<And>e. E e fs" "Q (look fs OSTreeBootedMarker \<noteq> None) fs"
  shows "fwp IsOSTree Q E C fs"
  unfolding IsOSTree_def
  by (intro fwp_bind fwp_attempt fwp_Stat fwp_case_sum fwp_if fwp_ret fwp_throw)
    (use assms in \<open>auto simp: look_def\<close>)

lemma keeps_IsOSTree [keeps_rules]: "keeps (on_fs P) IsOSTree"
  unfolding IsOSTree_def by (intro keeps_rules)

lemma keeps_first_booted [keeps_rules]: "keeps I (first_booted ds)"
  by (induction ds) (auto intro: keeps_rules)

lemma keeps_allDeployments [keeps_rules]: "keeps I rpm \<Longrightarrow> keeps I (allDeployments rpm)"
  unfolding allDeployments_def by (intro keeps_rules) assumption

lemma keeps_BootedDeploymentID [keeps_rules]:
  "keeps (on_fs P) rpm \<Longrightarrow> keeps (on_fs P) (BootedDeploymentID rpm)"
  unfolding BootedDeploymentID_def by (intro keeps_rules)

lemma keeps_AllDeploymentIDs [keeps_rules]:
  "keeps (on_fs P) rpm \<Longrightarrow> keeps (on_fs P) (AllDeploymentIDs rpm)"
  unfolding AllDeploymentIDs_def by (intro keeps_rules)

lemma fwp_first_booted:
  assumes "\<And>e. list_all (\<lambda>d. \<not> Booted d) ds \<Longrightarrow> E e fs"
    and "\<And>d as bs. ds = as @ d # bs \<Longrightarrow> Booted d \<Longrightarrow> list_all (\<lambda>d. \<not> Booted d) as \<Longrightarrow> Q (ID d) fs"
  shows "fwp (first_booted ds :: ('e, string) io) Q E C fs"
  using assms
proof (induction ds)
  case Nil
  then show ?case by (auto intro: fwp_throw)
next
  case (Cons d ds)
  show ?case
  proof (cases "Booted d")
    case True
    then show ?thesis using Cons.prems(2) [where as = "[]" and d = d and bs = ds] by (auto intro: fwp_ret)
  next
    case False
    have "fwp (first_booted ds :: ('e, string) io) Q E C fs"
    proof (rule Cons.IH, goal_cases)
      case (2 as e bs)
      then show ?case using Cons.prems(2) [where as = "d # as" and d = e and bs = bs] False by simp
    qed (use Cons.prems(1) False in auto)
    then show ?thesis using False by simp
  qed
qed

text \<open>With one fixed output of the command, nothing but the deployments it lists is reported.\<close>

lemma fwp_allDeployments:
  assumes "\<And>ds. status_deployments b = Some ds \<Longrightarrow> Q ds fs"
    and "\<And>e. status_deployments b = None \<Longrightarrow> E e fs"
  shows "fwp (allDeployments (ret b)) Q E C fs"
  unfolding allDeployments_def
  by (intro fwp_bind fwp_on_err fwp_ret fwp_case_option fwp_throw) (use assms in auto)

section \<open>Properties\<close>

text \<open>What a node's status says of the booted deployment: the first one with the flag.\<close>

definition booted_of :: "deployment list \<Rightarrow> string option" where
  "booted_of ds = map_option ID (find Booted ds)"

lemma find_first: "list_all (\<lambda>d. \<not> P d) as \<Longrightarrow> P d \<Longrightarrow> find P (as @ d # bs) = Some d"
  by (induction as) auto

text \<open>C40: Off ostree both queries return nothing and no error; on ostree the booted id is the id of
  the first deployment whose flag is set, and it is one of the ids \<open>AllDeploymentIDs\<close> returns for
  the same status, so that pruning by these ids never counts the running deployment as gone. A status
  without a booted deployment, or one that does not decode, is an error; nothing is changed.\<close>

theorem booted_is_listed:
  "fwp (bind (BootedDeploymentID (ret b)) (\<lambda>i. bind (AllDeploymentIDs (ret b)) (\<lambda>ids. ret (i, ids))))
     (\<lambda>(i, ids) v. v = fs \<and>
        (if look fs OSTreeBootedMarker = None then i = [] \<and> ids = []
         else \<exists>ds. status_deployments b = Some ds \<and> booted_of ds = Some i \<and> ids = map ID ds \<and> i \<in> set ids))
     (\<lambda>_ v. v = fs) (\<lambda>v. v = fs) fs"
  unfolding BootedDeploymentID_def AllDeploymentIDs_def
  by (intro fwp_bind fwp_IsOSTree fwp_if fwp_ret fwp_allDeployments fwp_first_booted)
    (auto simp: booted_of_def find_first)

end
