(* ===== verification/Preflight.thy ===== *)
theory Preflight
  imports Catalog
begin

text \<open>
  \<open>internal/preflight\<close> and the space check of \<open>internal/backup/preflight.go\<close>: the gates a boot or
  an init passes before it changes anything. The \<open>Preflighter\<close> interface is the locale
  \<open>preflighter\<close>: a check answers a cancelled context with its error, changes nothing that was
  there, and when it passes something holds (its \<open>gate\<close>) that later checks cannot undo.

  \<open>statfs\<close> is a parameter: it gives \<open>f_bavail\<close> and \<open>f_bsize\<close>. The headroom is a float64; the
  non-negative ones are written \<open>n / 2\<^sup>k\<close> and products are rounded to 53 bits, ties to even.
  What the conversion of a float64 above the range of \<open>uint64\<close> gives is up to the platform, the
  parameter \<open>big\<close>.
\<close>

section \<open>Running checks\<close>

type_synonym 'e check = "ctx \<Rightarrow> ('e, unit) io"

definition preflight_Run :: "ctx \<Rightarrow> 'e check list \<Rightarrow> ('e, unit) io" where
  "preflight_Run ctx checks = each checks (\<lambda>c. seq (check_ctx ctx) (c ctx))"

definition writeProbe :: "path \<Rightarrow> ('e, unit) io" where
  "writeProbe dir =
     seq (os_MkdirAll dir 0x1ED)
       (bind (os_CreateTemp dir ''.preflight-'') (\<lambda>name.
         seq (ignore (file_Close name)) (os_Remove name)))"

definition FSWritable :: "path list \<Rightarrow> 'e check" where
  "FSWritable dirs ctx = each dirs (\<lambda>d.
     seq (check_ctx ctx) (wrapf (''write probe '' @ path_text d) (writeProbe d)))"

section \<open>Space\<close>

record float64 =
  fl_num :: nat
  fl_exp :: nat

fun bit_len :: "nat \<Rightarrow> nat" where
  "bit_len n = (if n = 0 then 0 else Suc (bit_len (n div 2)))"

declare bit_len.simps [simp del]

definition round53 :: "nat \<Rightarrow> nat" where
  "round53 n =
     (if n < 2 ^ 53 then n
      else let s = bit_len n - 53; q = n div 2 ^ s; r = n mod 2 ^ s; half = 2 ^ (s - 1) in
           (if r > half \<or> (r = half \<and> odd q) then q + 1 else q) * 2 ^ s)"

definition float_of :: "64 word \<Rightarrow> float64" where
  "float_of w = \<lparr>fl_num = round53 (unat w), fl_exp = 0\<rparr>"

definition float_mul :: "float64 \<Rightarrow> float64 \<Rightarrow> float64" where
  "float_mul a b = \<lparr>fl_num = round53 (fl_num a * fl_num b), fl_exp = fl_exp a + fl_exp b\<rparr>"

definition to_uint64 :: "64 word \<Rightarrow> float64 \<Rightarrow> 64 word" where
  "to_uint64 big f = (let n = fl_num f div 2 ^ fl_exp f in if n < 2 ^ 64 then of_nat n else big)"

definition DefaultMinFreeBytes :: "64 word" where
  "DefaultMinFreeBytes = 2 * 1024 * 1024 * 1024"

definition DefaultHeadroomFactor :: float64 where
  "DefaultHeadroomFactor = \<lparr>fl_num = 3, fl_exp = 1\<rparr>"

text \<open>The verb \<open>%.1f\<close>: the exact value with one decimal, ties to even.\<close>

definition fmt_1f :: "float64 \<Rightarrow> string" where
  "fmt_1f f =
     (let n = 10 * fl_num f; d = 2 ^ fl_exp f; q = n div d; r = n mod d;
          t = (if 2 * r > d \<or> (2 * r = d \<and> odd q) then q + 1 else q) in
      itoa (t div 10) @ ''.'' @ itoa (t mod 10))"

record SpacePreflighter =
  sp_Layout :: Layout
  MinFreeBytes :: "64 word"
  Headroom :: float64

definition space_for :: "Layout \<Rightarrow> SpacePreflighter" where
  "space_for l = \<lparr>sp_Layout = l, MinFreeBytes = 0, Headroom = \<lparr>fl_num = 0, fl_exp = 0\<rparr>\<rparr>"

type_synonym 'e statfs = "path \<Rightarrow> ('e, 64 word \<times> 64 word) io"

definition SpacePreflight :: "'e statfs \<Rightarrow> 64 word \<Rightarrow> SpacePreflighter \<Rightarrow> 'e check" where
  "SpacePreflight statfs big s ctx =
     (let minFree = (if MinFreeBytes s = 0 then DefaultMinFreeBytes else MinFreeBytes s);
          head = (if fl_num (Headroom s) = 0 then DefaultHeadroomFactor else Headroom s);
          dir = BackupsDir (sp_Layout s) in
      seq (check_ctx ctx)
     (seq (wrapf (''mkdir '' @ path_text dir) (os_MkdirAll dir 0x1ED))
     (bind (wrapf (''statfs '' @ path_text dir) (statfs dir)) (\<lambda>(bavail, bsize).
       let free = bavail * bsize in
       if free < minFree then
         throw (Msg (path_text dir @ '': free '' @ itoa (unat free) @ '' bytes below minimum '' @ itoa (unat minFree)))
       else bind (wrapf ''read latest backup size'' (LatestSize (sp_Layout s))) (\<lambda>latest.
         let needed = to_uint64 big (float_mul (float_of latest) head) in
         if free < needed then
           throw (Msg (path_text dir @ '': free '' @ itoa (unat free) @ '' bytes below '' @ itoa (unat needed) @
             '' ('' @ fmt_1f head @ ''x latest backup '' @ itoa (unat latest) @ '')''))
         else ret ())))))"

section \<open>Arithmetic of the headroom\<close>

lemma bit_len_bounds: "n \<noteq> 0 \<Longrightarrow> 2 ^ (bit_len n - 1) \<le> n \<and> n < 2 ^ bit_len n"
proof (induction n rule: bit_len.induct)
  case (1 n)
  show ?case
  proof (cases "n div 2 = 0")
    case True
    then show ?thesis using 1(2) by (subst (1 2) bit_len.simps) (simp add: bit_len.simps [of 0])
  next
    case False
    let ?k = "bit_len (n div 2)"
    have ih: "2 ^ (?k - 1) \<le> n div 2" "n div 2 < 2 ^ ?k" using 1 False by auto
    have "0 < ?k" using ih(2) False by (cases ?k) auto
    then have "(2::nat) ^ ?k = 2 * 2 ^ (?k - 1)" by (cases ?k) auto
    moreover have "2 * (n div 2) \<le> n" "n < 2 * (n div 2) + 2" by simp_all
    ultimately have "2 ^ ?k \<le> n" "n < 2 ^ Suc ?k" using ih unfolding power_Suc by linarith+
    moreover have "bit_len n = Suc ?k" using 1(2) by (simp add: bit_len.simps [of n])
    ultimately show ?thesis by simp
  qed
qed

lemma round53_small: "n < 2 ^ 53 \<Longrightarrow> round53 n = n"
  by (simp add: round53_def)

text \<open>Rounding never loses more than one part in 2 to the 53.\<close>

lemma round53_close: "n \<le> round53 n + n div 2 ^ 53" "round53 n \<le> n + n div 2 ^ 53"
proof -
  consider "n < 2 ^ 53" | "2 ^ 53 \<le> n" by linarith
  then have "n \<le> round53 n + n div 2 ^ 53 \<and> round53 n \<le> n + n div 2 ^ 53"
  proof cases
    case 1
    then show ?thesis by (simp add: round53_small)
  next
    case 2
    define s where "s = bit_len n - 53"
    define q r where "q = n div 2 ^ s" and "r = n mod 2 ^ s"
    have n: "n \<noteq> 0" using 2 by (cases n) auto
    note b = bit_len_bounds [OF this]
    have "53 < bit_len n"
    proof (rule ccontr)
      assume "\<not> 53 < bit_len n"
      then have "(2::nat) ^ bit_len n \<le> 2 ^ 53" by (intro power_increasing) auto
      with b 2 show False by linarith
    qed
    then have s: "0 < s" and len: "bit_len n - 1 = 52 + s" "bit_len n = 53 + s" by (auto simp: s_def)
    have half: "(2::nat) ^ s = 2 * 2 ^ (s - 1)" using s by (cases s) auto
    have qr: "n = q * 2 ^ s + r" "r < 2 ^ s" unfolding q_def r_def by (rule div_mult_mod_eq [symmetric], simp)
    have gap: "2 ^ (s - 1) \<le> n div 2 ^ 53"
    proof -
      have "(2::nat) ^ (s - 1) * 2 ^ 53 = 2 ^ (52 + s)" using s by (cases s) (simp_all add: power_add)
      then have "2 ^ (s - 1) * 2 ^ 53 \<le> n" using b len(1) by simp
      then show ?thesis by (simp add: less_eq_div_iff_mult_less_eq)
    qed
    have eq: "round53 n = (if r > 2 ^ (s - 1) \<or> (r = 2 ^ (s - 1) \<and> odd q) then q + 1 else q) * 2 ^ s"
      using 2 by (simp add: round53_def Let_def s_def q_def r_def)
    show ?thesis
    proof (cases "r > 2 ^ (s - 1) \<or> (r = 2 ^ (s - 1) \<and> odd q)")
      case True
      then have "round53 n = q * 2 ^ s + 2 ^ s" using eq by simp
      with True qr half gap show ?thesis by linarith
    next
      case False
      then have "round53 n = q * 2 ^ s" "r \<le> 2 ^ (s - 1)" using eq by auto
      with qr gap show ?thesis by linarith
    qed
  qed
  then show "n \<le> round53 n + n div 2 ^ 53" "round53 n \<le> n + n div 2 ^ 53" by simp_all
qed

text \<open>
  The space that is asked for beside a newest backup of \<open>n\<close> bytes: the machine's one and a half times \<open>n\<close>. It is exact
  below 2 to the 51 (two pebibytes), and for every other size off by less than one part in 2 to the 50.
\<close>

definition space_need :: "nat \<Rightarrow> nat" where
  "space_need n = round53 (round53 n * 3) div 2"

lemma space_need_exact: "n < 2 ^ 51 \<Longrightarrow> space_need n = 3 * n div 2"
  by (simp add: space_need_def round53_small mult.commute)

lemma space_need_close:
  "2 ^ 50 * (2 * space_need n) \<le> (3 * 2 ^ 50 + 1) * n" "3 * 2 ^ 50 * n \<le> 2 ^ 50 * (2 * space_need n + 1) + n"
proof -
  define a b where "a = round53 n" and "b = round53 (a * 3)"
  have a: "n \<le> a + n div 2 ^ 53" "a \<le> n + n div 2 ^ 53" unfolding a_def by (rule round53_close)+
  have b: "a * 3 \<le> b + a * 3 div 2 ^ 53" "b \<le> a * 3 + a * 3 div 2 ^ 53" unfolding b_def by (rule round53_close)+
  have d: "n div 2 ^ 53 * 2 ^ 53 \<le> n" "a * 3 div 2 ^ 53 * 2 ^ 53 \<le> a * 3" by (rule div_times_less_eq_dividend)+
  have "2 * space_need n \<le> b" "b \<le> 2 * space_need n + 1" unfolding space_need_def a_def b_def by simp_all
  with a b d show "2 ^ 50 * (2 * space_need n) \<le> (3 * 2 ^ 50 + 1) * n" "3 * 2 ^ 50 * n \<le> 2 ^ 50 * (2 * space_need n + 1) + n"
    by simp_all
qed

lemma headroom_need:
  assumes "n < 2 ^ 63"
  shows "to_uint64 big (float_mul (float_of (of_nat n)) DefaultHeadroomFactor) = of_nat (space_need n)" "space_need n < 2 ^ 64"
proof -
  show need: "space_need n < 2 ^ 64" using space_need_close(1) [of n] assms by simp
  have "unat (of_nat n :: 64 word) = n" using assms by (simp add: unat_of_nat take_bit_nat_eq_self)
  then show "to_uint64 big (float_mul (float_of (of_nat n)) DefaultHeadroomFactor) = of_nat (space_need n)"
    using need by (simp add: to_uint64_def float_mul_def float_of_def DefaultHeadroomFactor_def Let_def space_need_def)
qed

section \<open>The contract of a check\<close>

text \<open>Nothing that was there has been changed or removed.\<close>

definition kept :: "fsys \<Rightarrow> fsys \<Rightarrow> bool" where
  "kept fs v \<longleftrightarrow> (\<forall>q n. look fs q = Some n \<longrightarrow> look v q = Some n)"

lemma kept_refl [simp]: "kept fs fs"
  by (simp add: kept_def)

lemma kept_trans: "kept fs v \<Longrightarrow> kept v v' \<Longrightarrow> kept fs v'"
  by (simp add: kept_def)

lemma kept_grown: "grown p m fs v \<Longrightarrow> kept fs v"
  by (auto simp: kept_def dest: grown_keeps_present)

lemma kept_dir: "kept fs v \<Longrightarrow> is_dir fs p \<Longrightarrow> is_dir v p"
  by (auto simp: kept_def is_dir_look)

lemma kept_there: "kept fs v \<Longrightarrow> look fs p \<noteq> None \<Longrightarrow> look v p \<noteq> None"
  by (auto simp: kept_def)

locale preflighter =
  fixes check :: "'e check"
    and gate :: "fsys \<Rightarrow> bool"
  assumes passes: "\<And>c fs. fwp (check c) (\<lambda>_ v. kept fs v \<and> gate v) (\<lambda>_. kept fs) (kept fs) fs"
    and gate_kept: "\<And>fs v. gate fs \<Longrightarrow> kept fs v \<Longrightarrow> gate v"
    and cancelled: "\<And>c w e. ctx_Err c w = Some e \<Longrightarrow> check c w = (Err e, w)"

text \<open>
  A run of checks changes nothing that was there either, and after it every gate holds at once. It
  stops at the first check that fails.
\<close>

lemma fwp_preflight_Run:
  assumes "\<And>c g. (c, g) \<in> set cgs \<Longrightarrow> preflighter (c :: 'e check) g"
  shows "fwp (preflight_Run ctx (map fst cgs))
     (\<lambda>_ v. kept fs v \<and> (\<forall>(c, g)\<in>set cgs. g v)) (\<lambda>_. kept fs) (kept fs) fs"
proof -
  have "fwp (each (map fst cgs) (\<lambda>c. seq (check_ctx ctx) (c ctx)))
     (\<lambda>_ v. kept fs v \<and> (\<forall>(c, g)\<in>set cgs. g v)) (\<lambda>_. kept fs) (kept fs) fs"
    using assms
  proof (induction cgs arbitrary: fs)
    case Nil
    then show ?case by (simp add: fwp_ret)
  next
    case (Cons cg cgs)
    obtain c g where cg: "cg = (c, g)" by (cases cg)
    have pf: "preflighter c g" using Cons.prems cg by simp
    have rest: "fwp (each (map fst cgs) (\<lambda>c. seq (check_ctx ctx) (c ctx)))
        (\<lambda>_ v. kept fs v \<and> (\<forall>(c, g)\<in>set (cg # cgs). g v)) (\<lambda>_. kept fs) (kept fs) v"
      if v: "kept fs v" "g v" for v
      by (rule fwp_mono [OF Cons.IH [of v]])
        (use Cons.prems v cg kept_trans preflighter.gate_kept [OF pf] in auto)
    show ?case
      unfolding list.map each.simps cg fst_conv
      by (intro fwp_seq fwp_check_ctx fwp_mono [OF preflighter.passes [OF pf]])
        (use rest cg in auto)
  qed
  then show ?thesis by (simp add: preflight_Run_def)
qed

section \<open>The checks meet it\<close>

lemma fwp_writeProbe:
  assumes "d \<noteq> []"
  shows "fwp (writeProbe d) (\<lambda>_ v. kept fs v \<and> is_dir v d) (\<lambda>_. kept fs) (kept fs) fs"
proof -
  have fresh: "kept fs v1" "is_dir fs0 d \<Longrightarrow> is_dir v1 d"
    if "kept fs fs0" "look fs0 t = None" "same_on (- {t}) fs0 v1" for fs0 t v1
    using that unfolding kept_def same_on_def is_dir_look
    by (metis ComplI option.distinct(1) singletonD)+
  have gone: "kept fs v2" "is_dir fs0 d \<Longrightarrow> is_dir v2 d"
    if "kept fs fs0" "look fs0 t = None" "same_on (- {t}) fs0 v1" "\<forall>q. look v2 q = (if q = t then None else look v1 q)"
    for fs0 t v1 v2
    using that unfolding kept_def same_on_def is_dir_look
    by (metis ComplI option.distinct(1) singletonD)+
  show ?thesis
    unfolding writeProbe_def
    by (intro fwp_seq fwp_MkdirAll [OF assms] fwp_bind fwp_CreateTemp fwp_ignore fwp_Close fwp_Remove)
      (use fresh gone kept_grown in blast)+
qed

lemma preflighter_FSWritable:
  assumes "ds \<noteq> []" "[] \<notin> set ds"
  shows "preflighter (FSWritable ds :: 'e check) (\<lambda>v. \<forall>d\<in>set ds. is_dir v d)"
proof
  fix c fs
  show "fwp (FSWritable ds c) (\<lambda>_ v. kept fs v \<and> (\<forall>d\<in>set ds. is_dir v d)) (\<lambda>_. kept fs) (kept fs) fs"
    unfolding FSWritable_def
  proof (rule fwp_each [where I = "\<lambda>dn v. kept fs v \<and> (\<forall>d\<in>set dn. is_dir v d)"], goal_cases)
    case (2 dn d rest v)
    then have "d \<noteq> []" using assms(2) by auto
    then show ?case
      by (intro fwp_seq fwp_check_ctx fwp_wrapf fwp_mono [OF fwp_writeProbe])
        (use 2 kept_trans [of fs v] kept_dir [of v] in auto)
  qed auto
next
  fix fs v
  show "\<forall>d\<in>set ds. is_dir fs d \<Longrightarrow> kept fs v \<Longrightarrow> \<forall>d\<in>set ds. is_dir v d"
    using kept_dir by blast
next
  fix c and w :: "'e world" and e
  show "ctx_Err c w = Some e \<Longrightarrow> FSWritable ds c w = (Err e, w)"
    using assms(1) by (cases ds) (simp_all add: FSWritable_def seq_def bind_def check_ctx_def)
qed

lemma keeps_size_list [keeps_rules]: "keeps (on_fs P) (size_list qs acc)"
  by (induction qs arbitrary: acc) (auto intro!: keeps_rules split: node.split)

lemma keeps_stat_entries [keeps_rules]: "keeps (on_fs P) (stat_entries l ns)"
  by (induction ns) (auto intro!: keeps_rules)

lemma keeps_LatestSize [keeps_rules]: "keeps (on_fs P) (LatestSize l)"
proof -
  have "keeps (on_fs P) (\<lambda>w. size_list (paths_under (w_fs w) root) 0 w)" for root
    by (rule keeps_peek) (rule keeps_size_list)
  then have "keeps (on_fs P) (dirSize root)" for root
    unfolding dirSize_def by (intro keeps_rules)
  then show ?thesis
    unfolding LatestSize_def List_backups_def sortByModTimeDesc_def
    by (auto intro!: keeps_rules split: list.split)
qed

lemma preflighter_Space:
  assumes "\<And>P p. keeps (on_fs P) (statfs p :: ('e, 64 word \<times> 64 word) io)" "BackupsDir (sp_Layout s) \<noteq> []"
  shows "preflighter (SpacePreflight statfs big s) (\<lambda>v. is_dir v (BackupsDir (sp_Layout s)))"
proof
  fix c fs
  have reads: "keeps (on_fs P) (bind (wrapf x (statfs p)) f)" if "\<And>r. keeps (on_fs P) (f r)" for P x p
    and f :: "64 word \<times> 64 word \<Rightarrow> ('e, unit) io"
    using that assms(1) by (intro keeps_rules)
  show "fwp (SpacePreflight statfs big s c) (\<lambda>_ v. kept fs v \<and> is_dir v (BackupsDir (sp_Layout s))) (\<lambda>_. kept fs) (kept fs) fs"
    unfolding SpacePreflight_def Let_def
  proof (intro fwp_seq fwp_check_ctx fwp_wrapf fwp_MkdirAll [OF assms(2)], goal_cases)
    case (3 v)
    then have here: "kept fs v \<and> is_dir v (BackupsDir (sp_Layout s))" using kept_grown by blast
    show ?case
    proof (rule fwp_mono [OF fwp_keeps [where P = "\<lambda>v. kept fs v \<and> is_dir v (BackupsDir (sp_Layout s))", OF reads here]], goal_cases)
      case (1 r)
      then show ?case by (cases r) (auto intro!: keeps_rules)
    qed auto
  qed (use kept_grown in auto)
next
  fix fs v
  show "is_dir fs (BackupsDir (sp_Layout s)) \<Longrightarrow> kept fs v \<Longrightarrow> is_dir v (BackupsDir (sp_Layout s))"
    by (rule kept_dir)
next
  fix c and w :: "'e world" and e
  show "ctx_Err c w = Some e \<Longrightarrow> SpacePreflight statfs big s c w = (Err e, w)"
    by (simp add: SpacePreflight_def Let_def seq_def bind_def check_ctx_def)
qed

interpretation fswritable: preflighter "FSWritable [PicoKubeVarDir Default, KubernetesDir Default]"
  "\<lambda>v. \<forall>d\<in>set [PicoKubeVarDir Default, KubernetesDir Default]. is_dir v d"
  by (rule preflighter_FSWritable) simp_all

interpretation space: preflighter "SpacePreflight (\<lambda>_. ret (bavail, bsize)) big (space_for Default)"
  "\<lambda>v. is_dir v (BackupsDir (sp_Layout (space_for Default)))" for bavail bsize big
  by (rule preflighter_Space) (simp_all add: space_for_def keeps_ret)

section \<open>Properties\<close>

text \<open>\<open>Run\<close> calls the checks in order and stops at the first failure: its error is the result,
  the state is the one that check left, and no later check is called. When the context has been
  cancelled or has expired, its error is the result and no check is called at all.\<close>

theorem preflight_stops:
  "(preflight_Run ctx xs w = (Ok (), w1) \<and> ctx_Err ctx w1 = None \<and> c ctx w1 = (Err e, w2) \<longrightarrow>
      preflight_Run ctx (xs @ c # ys) w = (Err e, w2)) \<and>
   (ctx_Err ctx w = Some e \<longrightarrow> preflight_Run ctx (c # ys) w = (Err e, w))"
proof -
  have "preflight_Run ctx (xs @ c # ys) w = (Err e, w2)"
    if "preflight_Run ctx xs w = (Ok (), w1)" "ctx_Err ctx w1 = None" "c ctx w1 = (Err e, w2)"
    using that
  proof (induction xs arbitrary: w)
    case Nil
    then show ?case by (simp add: preflight_Run_def ret_def seq_def bind_def check_ctx_def)
  next
    case (Cons x xs)
    then obtain w' where "seq (check_ctx ctx) (x ctx) w = (Ok (), w')" "preflight_Run ctx xs w' = (Ok (), w1)"
      by (auto simp: preflight_Run_def seq_def bind_def split: outcome.splits prod.splits)
    then show ?case using Cons.IH [of w'] Cons.prems
      by (auto simp: preflight_Run_def seq_def bind_def split: outcome.splits prod.splits)
  qed
  moreover have "preflight_Run ctx (c # ys) w = (Err e, w)" if "ctx_Err ctx w = Some e"
    using that by (simp add: preflight_Run_def seq_def bind_def check_ctx_def)
  ultimately show ?thesis by blast
qed

theorem preflight_stops_witness:
  "preflight_Run Background [\<lambda>_. logf ''a'', \<lambda>_. throw (Msg ''boom''), \<lambda>_. logf ''never''] (world_at calm_orc []) =
     (Err (Msg ''boom''), (world_at calm_orc [])\<lparr>w_out := [''a'']\<rparr>)"
  using preflight_stops [of Background "[\<lambda>_. logf ''a'']" "world_at calm_orc []"
      "(world_at calm_orc [])\<lparr>w_out := [''a'']\<rparr>" "\<lambda>_. throw (Msg ''boom'')" "Msg ''boom''"
      "(world_at calm_orc [])\<lparr>w_out := [''a'']\<rparr>" "[\<lambda>_. logf ''never'']"]
  by (simp add: preflight_Run_def seq_def bind_def ret_def logf_def throw_def check_ctx_def ctx_Err_def
      Background_def world_at_def calm_orc_def)

text \<open>The size of the newest backup, 0 when there is none.\<close>

definition latest_bytes :: "Layout \<Rightarrow> fsys \<Rightarrow> nat" where
  "latest_bytes l fs = (if listed l fs = [] then 0
     else tree_bytes fs (BackupsDir l @ [newest_of l fs (listed l fs)]))"

lemma fwp_LatestSize:
  assumes "names_ok fs" "C fs" "\<And>e. E e fs" "Q (of_nat (latest_bytes l fs)) fs"
  shows "fwp (LatestSize l) Q E C fs"
proof -
  have new: "simple_name (newest_of l fs (listed l fs))" if "listed l fs \<noteq> []"
    using newest_of_in(1) [OF that] listed_ok [OF assms(1), of "listed l fs"] by auto
  have size: "fwp (case newest_first (entries_of l fs (listed l fs)) of [] \<Rightarrow> ret 0
      | e # _ \<Rightarrow> dirSize (Join (BackupsDir l) (entry_name e))) Q E C fs"
  proof (cases "newest_first (entries_of l fs (listed l fs))")
    case Nil
    then show ?thesis using assms by (auto simp: entries_of_def latest_bytes_def intro: fwp_ret)
  next
    case (Cons e es)
    then have ne: "listed l fs \<noteq> []" by (auto simp: entries_of_def)
    have e: "entry_name e = newest_of l fs (listed l fs)" by (simp add: newest_of_def Cons)
    show ?thesis
      using assms new [OF ne] ne
      by (auto simp: Cons e path_simps latest_bytes_def intro!: fwp_dirSize)
  qed
  show ?thesis
    unfolding LatestSize_def
    by (intro fwp_bind fwp_List fwp_sort) (use assms size listed_ok [OF assms(1), of "listed l fs"] in auto)
qed

lemma mkdir_from_there: "wf_fs (w_fs w) \<Longrightarrow> is_dir (w_fs w) (p @ cs) \<Longrightarrow> mkdir_from p cs m w = (Ok (), w)"
proof (induction cs arbitrary: p)
  case (Cons c cs)
  have "prefix (p @ [c]) (p @ c # cs)" by simp
  then have "is_dir (w_fs w) (p @ [c])"
    using Cons.prems wf_fs_prefix_dir [of "w_fs w" "p @ c # cs" "p @ [c]"]
    by (cases "cs = []") (auto simp: is_dir_look strict_prefix_def)
  then show ?case using Cons by (auto simp: is_dir_look)
qed (simp add: ret_def)

lemma fwp_MkdirAll_there:
  assumes "wf_fs fs" "is_dir fs p" "C fs" "Q () fs"
  shows "fwp (os_MkdirAll p m :: ('e, unit) io) Q E C fs"
proof -
  have "fwp (mkdir_from [] p m :: ('e, unit) io) Q E C fs"
    using assms by (simp add: fwp_def wp_def mkdir_from_there)
  then show ?thesis
    unfolding os_MkdirAll_def
    by (intro fwp_bind fwp_attempt fwp_Stat)
      (use assms in \<open>auto simp: is_dir_look look_def intro!: fwp_ret split: node.split\<close>)
qed

section \<open>When nothing goes wrong\<close>

text \<open>In a calm world no system call fails for a reason of its own; then these reads return.\<close>

definition cwp :: "('e, 'a) io \<Rightarrow> ('a \<Rightarrow> fsys \<Rightarrow> bool) \<Rightarrow> fsys \<Rightarrow> bool" where
  "cwp m Q fs \<longleftrightarrow> (\<forall>w. calm w \<and> w_fs w = fs \<longrightarrow> wp m (\<lambda>x v. calm v \<and> Q x (w_fs v)) (\<lambda>_ _. False) (\<lambda>_. False) w)"

lemma cwp_ret: "Q x fs \<Longrightarrow> cwp (ret x) Q fs"
  by (simp add: cwp_def wp_ret)

lemma cwp_bind: "cwp m (\<lambda>x. cwp (f x) Q) fs \<Longrightarrow> cwp (bind m f) Q fs"
  unfolding cwp_def wp_bind by (blast intro: wp_mono)

lemma cwp_seq: "cwp m (\<lambda>_. cwp k Q) fs \<Longrightarrow> cwp (seq m k) Q fs"
  unfolding seq_def by (rule cwp_bind)

lemma cwp_attempt: "cwp m (\<lambda>x. Q (Inr x)) fs \<Longrightarrow> cwp (attempt m) Q fs"
  unfolding cwp_def wp_attempt by (auto elim!: wp_mono)

lemma cwp_wrapf: "cwp m Q fs \<Longrightarrow> cwp (wrapf s m) Q fs"
  by (simp add: cwp_def wp_wrapf)

lemma cwp_Stat: "map_of fs p = Some e \<Longrightarrow> Q e fs \<Longrightarrow> cwp (os_Stat p) Q fs"
  by (simp add: cwp_def os_Stat_def wp_syscall_calm)

lemma cwp_ReadDir:
  "is_dir fs p \<Longrightarrow> Q (map (\<lambda>c. (c, is_dir fs (p @ [c]))) (children fs p)) fs \<Longrightarrow> cwp (os_ReadDir p) Q fs"
  by (auto simp: cwp_def os_ReadDir_def wp_syscall_calm is_dir_look)

lemma cwp_weaken: "cwp m Q fs \<Longrightarrow> (\<And>x v. Q x v \<Longrightarrow> Q' x v) \<Longrightarrow> cwp m Q' fs"
  unfolding cwp_def by (blast intro: wp_mono)

lemma cwp_checked:
  "cwp m Q fs \<Longrightarrow> w_fs w = fs \<Longrightarrow> calm w \<Longrightarrow> ctx_Err c w = None \<Longrightarrow>
   wp (seq (check_ctx c) m) (\<lambda>_ _. True) (\<lambda>_ _. False) (\<lambda>_. False) w"
  unfolding cwp_def wp_seq by (auto simp: wp_def check_ctx_def split: prod.splits outcome.splits)

lemma there_entry: "look fs p \<noteq> None \<Longrightarrow> \<exists>n t. map_of fs p = Some (n, t)"
  by (auto simp: look_def)

lemma cwp_stat_entries:
  assumes "\<forall>n\<in>set ns. simple_name n \<and> look fs (BackupsDir l @ [n]) \<noteq> None" and "Q (entries_of l fs ns) fs"
  shows "cwp (stat_entries l ns :: ('e, backupEntry list) io) Q fs"
  using assms
proof (induction ns arbitrary: Q)
  case Nil
  then show ?case by (simp add: entries_of_def cwp_ret)
next
  case (Cons n ns)
  obtain k t where e: "map_of fs (BackupsDir l @ [n]) = Some (k, t)" using Cons.prems(1) there_entry by fastforce
  have later: "cwp (stat_entries l ns :: ('e, backupEntry list) io) Q' fs" if "Q' (entries_of l fs ns) fs" for Q'
    by (rule Cons.IH) (use Cons.prems that in auto)
  have here: "map_of fs (Join (BackupsDir l) n) = Some (k, t)" using e Cons.prems(1) by (simp add: path_simps)
  show ?case
    unfolding stat_entries.simps
    by (rule cwp_bind, rule cwp_attempt, rule cwp_Stat [OF here], unfold sum.case prod.case, intro cwp_bind later cwp_ret)
      (use Cons.prems e in \<open>auto simp: entries_of_def time_of_def mtime_def\<close>)
qed

lemma cwp_size_list:
  assumes "\<forall>q\<in>set qs. look fs q \<noteq> None"
    and "Q (acc + of_nat (sum_list (map (\<lambda>q. case look fs q of Some (File _ b) \<Rightarrow> length b | _ \<Rightarrow> 0) qs))) fs"
  shows "cwp (size_list qs acc :: ('e, 64 word) io) Q fs"
  using assms
proof (induction qs arbitrary: acc)
  case Nil
  then show ?case by (simp add: cwp_ret)
next
  case (Cons q qs)
  obtain k t where e: "map_of fs q = Some (k, t)" using Cons.prems(1) there_entry by fastforce
  then have look: "look fs q = Some k" by (simp add: look_def)
  have rest: "cwp (size_list qs acc' :: ('e, 64 word) io) Q fs"
    if "acc' = acc + of_nat (case look fs q of Some (File _ b) \<Rightarrow> length b | _ \<Rightarrow> 0)" for acc'
    by (rule Cons.IH) (use Cons.prems that in \<open>auto simp: add.assoc\<close>)
  show ?case
    unfolding size_list.simps
    by (intro cwp_bind cwp_Stat [OF e])
      (use look in \<open>auto simp: is_dir_look intro!: cwp_seq cwp_ReadDir rest split: node.split\<close>)
qed

lemma cwp_LatestSize:
  assumes "names_ok fs" and "is_dir fs (BackupsDir l)" and "Q (of_nat (latest_bytes l fs)) fs"
  shows "cwp (LatestSize l) Q fs"
proof -
  have ok: "\<forall>n\<in>set (listed l fs). simple_name n \<and> look fs (BackupsDir l @ [n]) \<noteq> None"
    using listed_ok [OF assms(1), of "listed l fs"] by auto
  have size: "cwp (case newest_first (entries_of l fs (listed l fs)) of [] \<Rightarrow> ret 0
      | e # _ \<Rightarrow> dirSize (Join (BackupsDir l) (entry_name e))) Q fs"
  proof (cases "newest_first (entries_of l fs (listed l fs))")
    case Nil
    then show ?thesis using assms by (auto simp: entries_of_def latest_bytes_def intro: cwp_ret)
  next
    case (Cons e es)
    let ?root = "BackupsDir l @ [newest_of l fs (listed l fs)]"
    have ne: "listed l fs \<noteq> []" using Cons by (auto simp: entries_of_def)
    have e: "entry_name e = newest_of l fs (listed l fs)" by (simp add: newest_of_def Cons)
    have new: "simple_name (newest_of l fs (listed l fs))" "look fs ?root \<noteq> None"
      using newest_of_in(1) [OF ne] ok by auto
    obtain k t where root: "map_of fs ?root = Some (k, t)" using new(2) there_entry by fastforce
    have "\<forall>q\<in>set (paths_under fs ?root). look fs q \<noteq> None" by (auto simp: paths_under_def look_def dest: weak_map_of_SomeI)
    then have "cwp (\<lambda>w. size_list (paths_under (w_fs w) ?root) 0 w) Q fs"
      using cwp_size_list [of "paths_under fs ?root" fs Q 0] assms(3) ne by (simp add: cwp_def wp_def tree_bytes_def latest_bytes_def)
    then have "cwp (dirSize ?root) Q fs" unfolding dirSize_def by (intro cwp_seq cwp_Stat [OF root])
    then show ?thesis using new(1) by (simp add: Cons e path_simps)
  qed
  have "cwp (List_backups l) (\<lambda>ns fs'. ns = listed l fs \<and> fs' = fs) fs"
    unfolding List_backups_def
    by (intro cwp_bind cwp_attempt cwp_ReadDir [OF assms(2)]) (use assms(2) in \<open>auto simp: listed_def intro: cwp_ret\<close>)
  moreover have "cwp (sortByModTimeDesc l (listed l fs)) (\<lambda>es fs'. es = newest_first (entries_of l fs (listed l fs)) \<and> fs' = fs) fs"
    unfolding sortByModTimeDesc_def by (intro cwp_bind cwp_stat_entries [OF ok] cwp_ret) simp
  ultimately show ?thesis
    unfolding LatestSize_def using size
    by (intro cwp_bind) (auto elim!: cwp_weaken intro!: cwp_bind)
qed

lemma cwp_MkdirAll_there: "is_dir fs p \<Longrightarrow> Q () fs \<Longrightarrow> cwp (os_MkdirAll p m) Q fs"
proof -
  assume a: "is_dir fs p" "Q () fs"
  then obtain k t where "map_of fs p = Some (Dir k, t)" by (auto simp: is_dir_look look_def)
  then show ?thesis
    unfolding os_MkdirAll_def by (intro cwp_bind cwp_attempt, elim cwp_Stat) (simp add: a(2) cwp_ret)
qed

text \<open>C29: with its defaults, and \<open>need\<close> bytes for one and a half times the size of the newest backup (exactly, up to
  two pebibytes; above, as the float64 arithmetic rounds it), the check passes only when at least two gibibytes and
  \<open>need\<close> bytes are free, and it says that there is too little space only when there is less. When no call fails for a
  reason of its own and the context is not done, it passes exactly when there is enough. The block count and block
  size are whatever the kernel reports, their product is that of the machine, and no way out changes a file.\<close>

theorem space_gate:
  assumes "names_ok fs" and "wf_fs fs" and "is_dir fs (BackupsDir l)" and "latest_bytes l fs < 2 ^ 63"
  shows "\<exists>need. (latest_bytes l fs < 2 ^ 51 \<longrightarrow> need = 3 * latest_bytes l fs div 2) \<and>
    2 ^ 50 * (2 * need) \<le> (3 * 2 ^ 50 + 1) * latest_bytes l fs \<and>
    3 * 2 ^ 50 * latest_bytes l fs \<le> 2 ^ 50 * (2 * need + 1) + latest_bytes l fs \<and>
    fwp (SpacePreflight (\<lambda>_. ret (bavail, bsize)) big (space_for l) c :: ('e, unit) io)
      (\<lambda>_ v. v = fs \<and> 2 ^ 31 \<le> unat (bavail * bsize) \<and> need \<le> unat (bavail * bsize))
      (\<lambda>e v. v = fs \<and> (\<forall>s. e = Msg s \<longrightarrow> \<not> (2 ^ 31 \<le> unat (bavail * bsize) \<and> need \<le> unat (bavail * bsize))))
      (\<lambda>v. v = fs) fs \<and>
    (\<forall>w :: 'e world. w_fs w = fs \<longrightarrow> calm w \<longrightarrow> ctx_Err c w = None \<longrightarrow>
      (fst (SpacePreflight (\<lambda>_. ret (bavail, bsize)) big (space_for l) c w) = Ok () \<longleftrightarrow>
       2 ^ 31 \<le> unat (bavail * bsize) \<and> need \<le> unat (bavail * bsize)))"
    (is "\<exists>need. ?A need \<and> ?B need \<and> ?C need \<and> ?always need \<and> ?calm need")
proof -
  let ?need = "space_need (latest_bytes l fs)" and ?free = "bavail * bsize"
  have min: "2 ^ 31 \<le> unat ?free \<longleftrightarrow> \<not> ?free < DefaultMinFreeBytes"
    by (simp add: DefaultMinFreeBytes_def word_less_nat_alt not_less)
  have "unat (of_nat ?need :: 64 word) = ?need"
    using headroom_need(2) [OF assms(4)] by (simp add: unat_of_nat take_bit_nat_eq_self)
  then have need: "?need \<le> unat ?free \<longleftrightarrow> \<not> ?free < of_nat ?need"
    by (simp add: word_less_nat_alt not_less)
  have always: "?always ?need"
    unfolding SpacePreflight_def Let_def
  proof (intro fwp_seq fwp_check_ctx fwp_wrapf fwp_MkdirAll_there fwp_bind fwp_ret, unfold prod.case, goal_cases)
    case 4
    show ?case
      by (intro fwp_if fwp_throw fwp_bind fwp_wrapf fwp_LatestSize [OF assms(1)] fwp_ret)
        (use min need in \<open>simp_all add: space_for_def headroom_need(1) [OF assms(4)]\<close>)
  qed (use assms in \<open>simp_all add: space_for_def\<close>)
  have calm: "fst (SpacePreflight (\<lambda>_. ret (bavail, bsize)) big (space_for l) c w) = Ok () \<longleftrightarrow>
      2 ^ 31 \<le> unat ?free \<and> ?need \<le> unat ?free" if w: "w_fs w = fs" "calm w" "ctx_Err c w = None" for w :: "'e world"
  proof
    assume "fst (SpacePreflight (\<lambda>_. ret (bavail, bsize)) big (space_for l) c w) = Ok ()"
    then obtain v where "SpacePreflight (\<lambda>_. ret (bavail, bsize)) big (space_for l) c w = (Ok (), v)"
      by (cases "SpacePreflight (\<lambda>_. ret (bavail, bsize)) big (space_for l) c w") auto
    from fwp_Ok [OF always w(1) this] show "2 ^ 31 \<le> unat ?free \<and> ?need \<le> unat ?free" by simp
  next
    assume enough: "2 ^ 31 \<le> unat ?free \<and> ?need \<le> unat ?free"
    have "wp (SpacePreflight (\<lambda>_. ret (bavail, bsize)) big (space_for l) c) (\<lambda>_ _. True) (\<lambda>_ _. False) (\<lambda>_. False) w"
      unfolding SpacePreflight_def Let_def
      by (rule cwp_checked [OF _ w], intro cwp_seq cwp_bind cwp_wrapf cwp_MkdirAll_there cwp_ret)
        (use enough assms(3) min need in \<open>auto simp: space_for_def headroom_need(1) [OF assms(4)]
            intro!: cwp_bind cwp_wrapf cwp_LatestSize [OF assms(1)] cwp_ret\<close>)
    then show "fst (SpacePreflight (\<lambda>_. ret (bavail, bsize)) big (space_for l) c w) = Ok ()"
      by (auto simp: wp_def split: prod.splits outcome.splits)
  qed
  show ?thesis
    using always calm space_need_close [of "latest_bytes l fs"] space_need_exact [of "latest_bytes l fs"]
    by (intro exI [of _ ?need]) blast
qed

text \<open>Three gibibytes are enough for the small backups of the example, one is not.\<close>

theorem space_gate_witness:
  "fst (SpacePreflight (\<lambda>_. ret (3, 2 ^ 30)) 0 (space_for Default) Background (world_at calm_orc shelf_fs)) = Ok () \<and>
   fst (SpacePreflight (\<lambda>_. ret (1, 2 ^ 30)) 0 (space_for Default) Background (world_at calm_orc shelf_fs)) \<noteq> Ok ()"
proof -
  have b: "is_dir shelf_fs (BackupsDir Default)" "latest_bytes Default shelf_fs = 2" by code_simp+
  then have l: "latest_bytes Default shelf_fs < 2 ^ 63" by simp
  have s: "ctx_Err Background (world_at calm_orc shelf_fs) = None" by code_simp
  have n: "unat (3 * 2 ^ 30 :: 64 word) = 3 * 2 ^ 30" "unat (1 * 2 ^ 30 :: 64 word) = 2 ^ 30" by simp_all
  note gate = space_gate [where 'e = unit, OF shelf_ok(1,2) b(1) l, where c = Background and big = 0]
  show ?thesis
    using gate [of 3 "2 ^ 30"] gate [of 1 "2 ^ 30"] s b(2) n by auto
qed

end
