(* ===== verification/Certs.thy ===== *)
theory Certs
  imports Preflight
begin

text \<open>
  \<open>internal/certs\<close>, the certificates and when they are rotated: the kinds of CAs and leaves and
  where they are stored (\<open>types.go\<close>), the reports on their expiry and the rotation thresholds
  (\<open>expiry.go\<close>), and the boot-time check that the CAs are there (\<open>preflight.go\<close>). Issuing and
  replacing them is the theory \<open>Signers\<close>.

  What the code calls outside the repository is the record \<open>pki_ext\<close>: PEM and X.509 decoding,
  client-go's kubeconfig files, and kubeadm's issuing and renewal.
\<close>

section \<open>Configuration and external code\<close>

text \<open>
  kubeadm's \<open>InitConfiguration\<close>, with the fields the source reads or writes itself; the rest is
  passed through (\<open>cfg_rest\<close>).
\<close>

record 'g InitConfiguration =
  CertificatesDir :: string
  NodeName :: string
  CRISocket :: string
  KubernetesVersion :: string
  cfg_rest :: 'g

text \<open>The validity of a certificate, in nanoseconds like every time of the model.\<close>

record Certificate =
  NotBefore :: int
  NotAfter :: int

text \<open>
  A kubeconfig, with its two maps as lists in the order an iteration visits them; a context is
  the name of its user.
\<close>

record AuthInfo =
  ClientCertificate :: string
  ClientKey :: string
  ClientCertificateData :: string
  ClientKeyData :: string
  ai_rest :: string

record Kubeconfig =
  CurrentContext :: string
  Contexts :: "(string \<times> string) list"
  AuthInfos :: "(string \<times> AuthInfo) list"
  kc_rest :: string

record ('e, 'g) pki_ext =
  pem_Decode :: "string \<Rightarrow> string option"
  ParseCertificate :: "string \<Rightarrow> gerr + Certificate"
  LoadFromFile :: "path \<Rightarrow> ('e, Kubeconfig) io"
  WriteToFile :: "Kubeconfig \<Rightarrow> path \<Rightarrow> ('e, unit) io"
  CreatePKIAssets :: "'g InitConfiguration \<Rightarrow> ('e, unit) io"
  CreateKubeConfigFile :: "string \<Rightarrow> path \<Rightarrow> 'g InitConfiguration \<Rightarrow> ('e, unit) io"
  NewManager :: "'g InitConfiguration \<Rightarrow> path \<Rightarrow> ('e, unit) io"
  GetCertificateExpirationInfo :: "'g InitConfiguration \<Rightarrow> path \<Rightarrow> string \<Rightarrow> ('e, int) io"
  RenewUsingLocalCA :: "'g InitConfiguration \<Rightarrow> path \<Rightarrow> string \<Rightarrow> ('e, bool) io"

section \<open>Kinds\<close>

datatype LeafKind =
    LeafAPIServer
  | LeafAPIServerKubeletClient
  | LeafAPIServerEtcdClient
  | LeafFrontProxyClient
  | LeafEtcdServer
  | LeafEtcdPeer
  | LeafEtcdHealthcheckClient
  | LeafAdminConf
  | LeafSuperAdminConf
  | LeafControllerManagerConf
  | LeafSchedulerConf

fun leaf_string :: "LeafKind \<Rightarrow> string" where
  "leaf_string LeafAPIServer = ''apiserver''"
| "leaf_string LeafAPIServerKubeletClient = ''apiserver-kubelet-client''"
| "leaf_string LeafAPIServerEtcdClient = ''apiserver-etcd-client''"
| "leaf_string LeafFrontProxyClient = ''front-proxy-client''"
| "leaf_string LeafEtcdServer = ''etcd-server''"
| "leaf_string LeafEtcdPeer = ''etcd-peer''"
| "leaf_string LeafEtcdHealthcheckClient = ''etcd-healthcheck-client''"
| "leaf_string LeafAdminConf = ''admin.conf''"
| "leaf_string LeafSuperAdminConf = ''super-admin.conf''"
| "leaf_string LeafControllerManagerConf = ''controller-manager.conf''"
| "leaf_string LeafSchedulerConf = ''scheduler.conf''"

definition AllLeaves :: "LeafKind list" where
  "AllLeaves =
     [LeafAPIServer, LeafAPIServerKubeletClient, LeafAPIServerEtcdClient, LeafFrontProxyClient,
      LeafEtcdServer, LeafEtcdPeer, LeafEtcdHealthcheckClient, LeafAdminConf, LeafSuperAdminConf,
      LeafControllerManagerConf, LeafSchedulerConf]"

datatype CAKind = CACluster | CAEtcd | CAFrontProxy

fun ca_string :: "CAKind \<Rightarrow> string" where
  "ca_string CACluster = ''ca''"
| "ca_string CAEtcd = ''etcd/ca''"
| "ca_string CAFrontProxy = ''front-proxy-ca''"

definition AllCAs :: "CAKind list" where
  "AllCAs = [CACluster, CAEtcd, CAFrontProxy]"

fun dependentLeaves :: "CAKind \<Rightarrow> LeafKind list" where
  "dependentLeaves CACluster = [LeafAPIServer, LeafAPIServerKubeletClient]"
| "dependentLeaves CAEtcd =
     [LeafEtcdServer, LeafEtcdPeer, LeafEtcdHealthcheckClient, LeafAPIServerEtcdClient]"
| "dependentLeaves CAFrontProxy = [LeafFrontProxyClient]"

definition dependentKubeconfigs :: "CAKind \<Rightarrow> string list" where
  "dependentKubeconfigs ca =
     (if ca = CACluster
      then [''admin.conf'', ''controller-manager.conf'', ''scheduler.conf'', ''kubelet.conf'']
      else [])"

section \<open>Paths\<close>

definition caCertPath :: "Layout \<Rightarrow> CAKind \<Rightarrow> path" where
  "caCertPath l ca = Join (PKIDir l) (ca_string ca @ ''.crt'')"

definition caKeyPath :: "Layout \<Rightarrow> CAKind \<Rightarrow> path" where
  "caKeyPath l ca = Join (PKIDir l) (ca_string ca @ ''.key'')"

fun leafPath :: "Layout \<Rightarrow> LeafKind \<Rightarrow> path" where
  "leafPath l LeafAPIServer = Join (PKIDir l) ''apiserver.crt''"
| "leafPath l LeafAPIServerKubeletClient = Join (PKIDir l) ''apiserver-kubelet-client.crt''"
| "leafPath l LeafAPIServerEtcdClient = Join (PKIDir l) ''apiserver-etcd-client.crt''"
| "leafPath l LeafFrontProxyClient = Join (PKIDir l) ''front-proxy-client.crt''"
| "leafPath l LeafEtcdServer = Join (Join (PKIDir l) ''etcd'') ''server.crt''"
| "leafPath l LeafEtcdPeer = Join (Join (PKIDir l) ''etcd'') ''peer.crt''"
| "leafPath l LeafEtcdHealthcheckClient = Join (Join (PKIDir l) ''etcd'') ''healthcheck-client.crt''"
| "leafPath l leaf = Join (KubernetesDir l) (leaf_string leaf)"

text \<open>\<open>None\<close> stands for the empty string: a kubeconfig has no key file of its own.\<close>

fun leafKeyPath :: "Layout \<Rightarrow> LeafKind \<Rightarrow> path option" where
  "leafKeyPath l LeafAPIServer = Some (Join (PKIDir l) ''apiserver.key'')"
| "leafKeyPath l LeafAPIServerKubeletClient = Some (Join (PKIDir l) ''apiserver-kubelet-client.key'')"
| "leafKeyPath l LeafAPIServerEtcdClient = Some (Join (PKIDir l) ''apiserver-etcd-client.key'')"
| "leafKeyPath l LeafFrontProxyClient = Some (Join (PKIDir l) ''front-proxy-client.key'')"
| "leafKeyPath l LeafEtcdServer = Some (Join (Join (PKIDir l) ''etcd'') ''server.key'')"
| "leafKeyPath l LeafEtcdPeer = Some (Join (Join (PKIDir l) ''etcd'') ''peer.key'')"
| "leafKeyPath l LeafEtcdHealthcheckClient = Some (Join (Join (PKIDir l) ''etcd'') ''healthcheck-client.key'')"
| "leafKeyPath l _ = None"

section \<open>Rotation thresholds\<close>

definition hour :: int where
  "hour = 3600 * 10 ^ 9"

definition month :: int where
  "month = 30 * 24 * hour"

definition shortLivedCutoff :: int where
  "shortLivedCutoff = 5 * 365 * 24 * hour"

definition monthsShort :: int where
  "monthsShort = 7"

definition monthsLong :: int where
  "monthsLong = 18"

text \<open>\<open>Time.Sub\<close> and \<open>time.Until\<close> saturate at the ends of the 64-bit \<open>Duration\<close>.\<close>

definition time_Sub :: "int \<Rightarrow> int \<Rightarrow> int" where
  "time_Sub t u = max (- (2 ^ 63)) (min (2 ^ 63 - 1) (t - u))"

definition time_Until :: "int \<Rightarrow> ('e, int) io" where
  "time_Until t = bind time_Now (\<lambda>now. ret (time_Sub t now))"

definition NeedsRotation :: "Certificate \<Rightarrow> ('e, bool) io" where
  "NeedsRotation c =
     bind time_Now (\<lambda>now.
       if NotAfter c < now then ret True
       else bind (time_Until (NotAfter c)) (\<lambda>timeLeft.
         let totalValidity = time_Sub (NotAfter c) (NotBefore c) in
         if totalValidity < shortLivedCutoff then ret (timeLeft < monthsShort * month)
         else ret (timeLeft < monthsLong * month)))"

section \<open>Reading certificates\<close>

definition pathExists :: "path \<Rightarrow> ('e, bool) io" where
  "pathExists p =
     bind (attempt (os_Stat p)) (\<lambda>r. case r of
       Inr _ \<Rightarrow> ret True
     | Inl e \<Rightarrow> if ErrNotExist e then ret False else throw e)"

definition parse_x509 :: "('e, 'g) pki_ext \<Rightarrow> string \<Rightarrow> ('e, Certificate) io" where
  "parse_x509 x b = (case ParseCertificate x b of Inl e \<Rightarrow> throw e | Inr c \<Rightarrow> ret c)"

definition parseCertFile :: "('e, 'g) pki_ext \<Rightarrow> path \<Rightarrow> ('e, Certificate) io" where
  "parseCertFile x p =
     bind (os_ReadFile p) (\<lambda>raw. case pem_Decode x raw of
       None \<Rightarrow> throw (Msg (''no PEM block in '' @ path_text p))
     | Some b \<Rightarrow> parse_x509 x b)"

fun first_client_cert :: "('e, 'g) pki_ext \<Rightarrow> path \<Rightarrow> AuthInfo list \<Rightarrow> ('e, Certificate) io" where
  "first_client_cert x p [] =
     throw (Msg (''no AuthInfo with client-certificate-data in '' @ path_text p))"
| "first_client_cert x p (ai # ais) =
     (if ClientCertificateData ai = [] then first_client_cert x p ais
      else case pem_Decode x (ClientCertificateData ai) of
        None \<Rightarrow> throw (Msg (''no PEM block in client-certificate-data of '' @ path_text p))
      | Some b \<Rightarrow> parse_x509 x b)"

definition parseKubeconfigClientCert :: "('e, 'g) pki_ext \<Rightarrow> path \<Rightarrow> ('e, Certificate) io" where
  "parseKubeconfigClientCert x p =
     bind (wrapf (''load kubeconfig '' @ path_text p) (LoadFromFile x p)) (\<lambda>cfg.
       first_client_cert x p (map snd (AuthInfos cfg)))"

definition loadLeafCert :: "('e, 'g) pki_ext \<Rightarrow> Layout \<Rightarrow> LeafKind \<Rightarrow> ('e, Certificate) io" where
  "loadLeafCert x l leaf =
     (if leaf \<in> {LeafAdminConf, LeafSuperAdminConf, LeafControllerManagerConf, LeafSchedulerConf}
      then parseKubeconfigClientCert x (leafPath l leaf)
      else parseCertFile x (leafPath l leaf))"

section \<open>Reports\<close>

record LeafExpiry =
  le_Path :: path
  le_Cert :: "Certificate option"
  le_NotAfter :: int
  le_Remaining :: int
  le_NotFound :: bool

record CAExpiry =
  ce_Path :: path
  ce_Cert :: "Certificate option"
  ce_NotAfter :: int
  ce_Remaining :: int
  ce_NotFound :: bool

text \<open>Go's zero time, the first of January of year 1.\<close>

definition zero_time :: int where
  "zero_time = - 62135596800 * 10 ^ 9"

type_synonym 'g Signer = "'g InitConfiguration \<times> Layout"

definition NewSigner :: "'g InitConfiguration \<Rightarrow> Layout \<Rightarrow> 'g Signer" where
  "NewSigner cfg l = (cfg\<lparr>CertificatesDir := path_text (PKIDir l)\<rparr>, l)"

definition renewalManager :: "('e, 'g) pki_ext \<Rightarrow> 'g Signer \<Rightarrow> ('e, unit) io" where
  "renewalManager x s = wrapf ''renewal manager'' (NewManager x (fst s) (KubernetesDir (snd s)))"

fun check_leaves :: "('e, 'g) pki_ext \<Rightarrow> 'g Signer \<Rightarrow> LeafKind list \<Rightarrow> ('e, (LeafKind \<times> LeafExpiry) list) io" where
  "check_leaves x s [] = ret []"
| "check_leaves x s (leaf # leaves) =
     (let l = snd s; p = leafPath l leaf in
      bind (pathExists p) (\<lambda>exists.
        bind (if \<not> exists
              then ret \<lparr>le_Path = p, le_Cert = None, le_NotAfter = zero_time, le_Remaining = 0, le_NotFound = True\<rparr>
              else bind (wrapf (''expiry info for '' @ leaf_string leaf)
                          (GetCertificateExpirationInfo x (fst s) (KubernetesDir l) (leaf_string leaf))) (\<lambda>t.
                     bind (loadLeafCert x l leaf) (\<lambda>c.
                     bind (time_Until t) (\<lambda>r.
                       ret \<lparr>le_Path = p, le_Cert = Some c, le_NotAfter = t, le_Remaining = r, le_NotFound = False\<rparr>))))
        (\<lambda>e. bind (check_leaves x s leaves) (\<lambda>out. ret ((leaf, e) # out)))))"

definition CheckLeaves :: "('e, 'g) pki_ext \<Rightarrow> 'g InitConfiguration \<Rightarrow> Layout \<Rightarrow> ('e, (LeafKind \<times> LeafExpiry) list) io" where
  "CheckLeaves x cfg l =
     (let signer = NewSigner cfg l in
      seq (renewalManager x signer) (check_leaves x signer AllLeaves))"

fun check_cas :: "('e, 'g) pki_ext \<Rightarrow> Layout \<Rightarrow> CAKind list \<Rightarrow> ('e, (CAKind \<times> CAExpiry) list) io" where
  "check_cas x l [] = ret []"
| "check_cas x l (ca # cas) =
     (let p = caCertPath l ca in
      bind (pathExists p) (\<lambda>exists.
        bind (if \<not> exists
              then ret \<lparr>ce_Path = p, ce_Cert = None, ce_NotAfter = zero_time, ce_Remaining = 0, ce_NotFound = True\<rparr>
              else bind (wrapf (''parse CA '' @ ca_string ca) (parseCertFile x p)) (\<lambda>c.
                   bind (time_Until (NotAfter c)) (\<lambda>r.
                     ret \<lparr>ce_Path = p, ce_Cert = Some c, ce_NotAfter = NotAfter c, ce_Remaining = r, ce_NotFound = False\<rparr>)))
        (\<lambda>e. bind (check_cas x l cas) (\<lambda>out. ret ((ca, e) # out)))))"

definition CheckCAs :: "('e, 'g) pki_ext \<Rightarrow> Layout \<Rightarrow> ('e, (CAKind \<times> CAExpiry) list) io" where
  "CheckCAs x l = check_cas x l AllCAs"

section \<open>The CAs must be there\<close>

definition CAExist :: "Layout \<Rightarrow> 'e check" where
  "CAExist l ctx = each AllCAs (\<lambda>ca.
     seq (check_ctx ctx)
       (let p = caCertPath l ca in
        seq (wrapf (''CA '' @ ca_string ca @ '' missing: '' @ path_text p) (os_Stat p)) (ret ())))"

lemma preflighter_CAExist:
  "preflighter (CAExist l :: 'e check) (\<lambda>v. \<forall>ca\<in>set AllCAs. look v (caCertPath l ca) \<noteq> None)"
proof
  fix c fs
  show "fwp (CAExist l c) (\<lambda>_ v. kept fs v \<and> (\<forall>ca\<in>set AllCAs. look v (caCertPath l ca) \<noteq> None)) (\<lambda>_. kept fs) (kept fs) fs"
    unfolding CAExist_def Let_def
  proof (rule fwp_each [where I = "\<lambda>dn v. v = fs \<and> (\<forall>ca\<in>set dn. look fs (caCertPath l ca) \<noteq> None)"], goal_cases)
    case (2 dn ca rest v)
    then show ?case
      by (intro fwp_seq fwp_check_ctx fwp_wrapf fwp_Stat fwp_ret) (auto simp: look_def)
  qed auto
next
  fix fs v
  show "\<forall>ca\<in>set AllCAs. look fs (caCertPath l ca) \<noteq> None \<Longrightarrow> kept fs v \<Longrightarrow> \<forall>ca\<in>set AllCAs. look v (caCertPath l ca) \<noteq> None"
    using kept_there by blast
next
  fix c and w :: "'e world" and e
  show "ctx_Err c w = Some e \<Longrightarrow> CAExist l c w = (Err e, w)"
    by (simp add: CAExist_def AllCAs_def seq_def bind_def check_ctx_def)
qed

interpretation caexist: preflighter "CAExist l" "\<lambda>v. \<forall>ca\<in>set AllCAs. look v (caCertPath l ca) \<noteq> None" for l
  by (rule preflighter_CAExist)

section \<open>What they do\<close>

lemma fwp_pathExists:
  assumes "C fs" "\<And>e. E e fs" "Q (look fs p \<noteq> None) fs"
  shows "fwp (pathExists p) Q E C fs"
  unfolding pathExists_def
  by (intro fwp_bind fwp_attempt fwp_Stat fwp_case_sum fwp_if fwp_ret fwp_throw)
    (use assms in \<open>auto simp: look_def\<close>)

text \<open>The certificate a PEM file holds.\<close>

definition cert_in :: "('e, 'g) pki_ext \<Rightarrow> fsys \<Rightarrow> path \<Rightarrow> Certificate option" where
  "cert_in x fs p = (case look fs p of
     Some (File _ b) \<Rightarrow> (case pem_Decode x b of
         None \<Rightarrow> None
       | Some d \<Rightarrow> (case ParseCertificate x d of Inl _ \<Rightarrow> None | Inr c \<Rightarrow> Some c))
   | _ \<Rightarrow> None)"

lemma fwp_parseCertFile:
  assumes "C fs" "\<And>e. E e fs" "\<And>c. cert_in x fs p = Some c \<Longrightarrow> Q c fs"
  shows "fwp (parseCertFile x p) Q E C fs"
  unfolding parseCertFile_def parse_x509_def
  by (intro fwp_bind fwp_ReadFile fwp_case_option fwp_case_sum fwp_throw fwp_ret)
    (use assms in \<open>auto simp: cert_in_def\<close>)

lemma fwp_time_Until: "(\<And>r. Q r fs) \<Longrightarrow> fwp (time_Until t) Q E C fs"
  unfolding time_Until_def by (intro fwp_bind fwp_time_Now fwp_ret)

text \<open>An entry of the report says what is on disk.\<close>

definition ca_reported :: "('e, 'g) pki_ext \<Rightarrow> Layout \<Rightarrow> fsys \<Rightarrow> CAKind \<times> CAExpiry \<Rightarrow> bool" where
  "ca_reported x l fs r \<longleftrightarrow>
     (let p = caCertPath l (fst r); e = snd r in
      ce_Path e = p \<and> ce_NotFound e = (look fs p = None) \<and> ce_Cert e = cert_in x fs p \<and>
      (if ce_NotFound e then ce_NotAfter e = zero_time else map_option NotAfter (cert_in x fs p) = Some (ce_NotAfter e)))"

lemma fwp_check_cas:
  fixes x :: "('e, 'g) pki_ext"
  assumes "C fs" "\<And>e. E e fs"
    and "\<And>r. map fst r = cas \<Longrightarrow> list_all (ca_reported x l fs) r \<Longrightarrow> Q r fs"
  shows "fwp (check_cas x l cas) Q E C fs"
  using assms
proof (induction cas arbitrary: Q)
  case Nil
  then show ?case by (simp add: fwp_ret)
next
  case (Cons ca cas)
  have rest: "fwp (check_cas x l cas) (\<lambda>out. fwp (ret ((ca, e) # out)) Q E C) E C fs"
    if "ca_reported x l fs (ca, e)" for e
    by (rule Cons.IH) (use Cons.prems that in \<open>auto intro!: fwp_ret\<close>)
  show ?case
    unfolding check_cas.simps Let_def
    by (intro fwp_bind fwp_pathExists fwp_if fwp_ret fwp_wrapf fwp_parseCertFile fwp_time_Until rest)
      (use Cons.prems(1,2) in \<open>auto simp: ca_reported_def cert_in_def\<close>)
qed

lemma NeedsRotation_eq:
  "NeedsRotation c w = (Ok (NotAfter c - (if NotAfter c - NotBefore c < shortLivedCutoff
     then monthsShort * month else monthsLong * month) < w_now w), w)"
proof -
  have sat: "time_Sub t u < k \<longleftrightarrow> t - u < k" if "- (2 ^ 63) < k" "k < 2 ^ 63 - 1" for t u k
    using that by (auto simp: time_Sub_def)
  have k: "time_Sub t u < shortLivedCutoff \<longleftrightarrow> t - u < shortLivedCutoff"
    "time_Sub t u < monthsShort * month \<longleftrightarrow> t - u < monthsShort * month"
    "time_Sub t u < monthsLong * month \<longleftrightarrow> t - u < monthsLong * month" for t u
    by (rule sat; simp add: shortLivedCutoff_def monthsShort_def monthsLong_def month_def hour_def)+
  have pos: "0 < monthsShort * month" "0 < monthsLong * month"
    by (simp_all add: monthsShort_def monthsLong_def month_def hour_def)
  show ?thesis
    using pos by (auto simp: NeedsRotation_def bind_def ret_def time_Now_def time_Until_def Let_def k)
qed

section \<open>What the checks leave alone\<close>

lemma keeps_parse:
  "keeps (on_fs P) (parse_x509 x b)" "keeps (on_fs P) (first_client_cert x p ais)" "keeps (on_fs P) (NeedsRotation crt)"
  "keeps (on_fs P) (pathExists p)" "keeps (on_fs P) (parseCertFile x p)" "keeps (on_fs P) (time_Until t)"
proof -
  show p: "keeps (on_fs P) (parse_x509 x b)" for b
    unfolding parse_x509_def by (auto intro: keeps_rules split: sum.split)
  show "keeps (on_fs P) (first_client_cert x p ais)"
    by (induction ais) (auto intro!: keeps_rules p split: option.split)
  show "keeps (on_fs P) (time_Until t)" for t unfolding time_Until_def by (intro keeps_rules)
  then show "keeps (on_fs P) (NeedsRotation crt)" unfolding NeedsRotation_def Let_def by (intro keeps_rules)
  show "keeps (on_fs P) (pathExists p)" unfolding pathExists_def by (intro keeps_rules)
  show "keeps (on_fs P) (parseCertFile x p)" unfolding parseCertFile_def by (intro keeps_rules p)
qed

lemma keeps_CheckCAs: "keeps (on_fs P) (CheckCAs x l)"
proof -
  have "keeps (on_fs P) (check_cas x l cas)" for cas
    by (induction cas) (auto simp: Let_def intro!: keeps_rules keeps_parse)
  then show ?thesis by (simp add: CheckCAs_def)
qed

text \<open>client-go's loading and kubeadm's renewal, and what they keep of the file system.\<close>

definition renewal_keeps :: "('e, 'g) pki_ext \<Rightarrow> Layout \<Rightarrow> (fsys \<Rightarrow> bool) \<Rightarrow> bool" where
  "renewal_keeps x l P \<longleftrightarrow> (\<forall>p. keeps (on_fs P) (LoadFromFile x p)) \<and>
     (\<forall>cfg. keeps (on_fs P) (NewManager x cfg (KubernetesDir l)) \<and>
        (\<forall>n. keeps (on_fs P) (GetCertificateExpirationInfo x cfg (KubernetesDir l) n) \<and>
             keeps (on_fs P) (RenewUsingLocalCA x cfg (KubernetesDir l) n)))"

lemma keeps_CheckLeaves:
  assumes "renewal_keeps x l P"
  shows "keeps (on_fs P) (CheckLeaves x cfg l)"
proof -
  note r = assms [unfolded renewal_keeps_def]
  have load: "keeps (on_fs P) (loadLeafCert x l leaf)" for leaf
    unfolding loadLeafCert_def parseKubeconfigClientCert_def
    by (intro keeps_rules keeps_parse) (use r in blast)
  have "keeps (on_fs P) (check_leaves x (NewSigner cfg l) ks)" for ks
    by (induction ks) (auto simp: Let_def NewSigner_def r intro!: keeps_rules keeps_parse load)
  then show ?thesis
    unfolding CheckLeaves_def renewalManager_def Let_def by (intro keeps_rules) (simp_all add: NewSigner_def r)
qed

section \<open>Properties\<close>

text \<open>C39: \<open>NeedsRotation\<close> is true from one moment on: 210 days before the end of a certificate whose
  whole validity is below five years, 540 days before the end of a longer one, an expired certificate
  included. The two readings of the clock, the saturating 64-bit durations and the separate test for an
  expired certificate make no difference to that; nothing is changed.\<close>

theorem needs_rotation_iff:
  "NeedsRotation c w =
     (Ok (NotAfter c - (if NotAfter c - NotBefore c < 5 * 365 * 24 * hour then 210 * 24 * hour else 540 * 24 * hour)
          < w_now w), w)"
  by (simp add: NeedsRotation_eq shortLivedCutoff_def monthsShort_def monthsLong_def month_def)

text \<open>\<open>CheckCAs\<close> reports on exactly the three CAs, in order, and every entry says what is on
  disk: a missing \<open>.crt\<close> file is \<open>NotFound\<close> and no error, any other file that does not hold a
  certificate is an error, and otherwise the certificate and its end are those of the file. Nothing is
  changed.\<close>

theorem check_cas_reports:
  "fwp (CheckCAs x l)
     (\<lambda>r v. v = fs \<and> map fst r = [CACluster, CAEtcd, CAFrontProxy] \<and> list_all (ca_reported x l fs) r)
     (\<lambda>_ v. v = fs) (\<lambda>v. v = fs) fs"
  unfolding CheckCAs_def by (rule fwp_check_cas) (simp_all add: AllCAs_def)

end
