(* ===== verification/Signers.thy ===== *)
theory Signers
  imports Certs
begin

text \<open>
  \<open>internal/certs\<close>, issuing: what \<open>picokube init\<close> provisions (\<open>EnsureAll\<close>, \<open>Init\<close>), the renewal of
  leaves (\<open>RenewLeaves\<close>) and the replacement of a CA together with everything it signed
  (\<open>RegenerateCA\<close>), which works on a copy of the PKI tree and swaps it in.

  The contract of kubeadm's \<open>CreatePKIAssets\<close> and \<open>CreateKubeConfigFile\<close> is the locale
  \<open>kubeadm_pki\<close>: they write below their directory only, keep the files that are there, and what
  they add is newly issued.
\<close>

section \<open>Operations\<close>

definition EnsureAll :: "('e, 'g) pki_ext \<Rightarrow> 'g Signer \<Rightarrow> ('e, unit) io" where
  "EnsureAll x s =
     (let l = snd s in
      seq (each [PKIDir l, KubernetesDir l] (\<lambda>dir.
             wrapf (''mkdir '' @ path_text dir) (os_MkdirAll dir 0x1ED)))
     (seq (wrapf ''create PKI assets'' (CreatePKIAssets x (fst s)))
       (each [''admin.conf'', ''controller-manager.conf'', ''scheduler.conf'', ''kubelet.conf''] (\<lambda>name.
          wrapf (''create kubeconfig '' @ name) (CreateKubeConfigFile x name (KubernetesDir l) (fst s))))))"

definition certs_Init :: "('e, 'g) pki_ext \<Rightarrow> 'g InitConfiguration \<Rightarrow> Layout \<Rightarrow> ('e, unit) io" where
  "certs_Init x cfg l = EnsureAll x (NewSigner cfg l)"

definition RenewLeaves :: "('e, 'g) pki_ext \<Rightarrow> 'g Signer \<Rightarrow> LeafKind list \<Rightarrow> ('e, unit) io" where
  "RenewLeaves x s leaves =
     seq (renewalManager x s)
       (each leaves (\<lambda>leaf.
          bind (wrapf (''renew '' @ leaf_string leaf)
                 (RenewUsingLocalCA x (fst s) (KubernetesDir (snd s)) (leaf_string leaf))) (\<lambda>renewed.
            if \<not> renewed
            then throw (Msg (''renew '' @ leaf_string leaf @
                   '': renewal manager reported no-op despite local CA ownership''))
            else ret ())))"

text \<open>\<open>None\<close> stands for the empty string of a path that is not under \<open>live\<close>.\<close>

definition stagedPath :: "path \<Rightarrow> path \<Rightarrow> path \<Rightarrow> path option" where
  "stagedPath live stage p =
     (if strict_prefix live p then Some (stage @ drop (length live) p) else None)"

text \<open>
  \<open>filepath.Walk\<close> visits the tree in lexical order; a directory is read before its callback runs.
  \<open>Mode().Perm()\<close> keeps the lower nine bits.
\<close>

definition perm :: "nat \<Rightarrow> nat" where
  "perm m = m mod 512"

definition copy_entry :: "path \<Rightarrow> path \<Rightarrow> path \<Rightarrow> ('e, unit) io" where
  "copy_entry src dst q =
     (let target = rebase src dst q in
      bind (os_Stat q) (\<lambda>(n, _). case n of
        Dir m \<Rightarrow> seq (os_ReadDir q) (os_MkdirAll target (perm m))
      | File m _ \<Rightarrow> bind (os_ReadFile q) (\<lambda>data. os_WriteFile target data (perm m))))"

definition copyPKITree :: "path \<Rightarrow> path \<Rightarrow> ('e, unit) io" where
  "copyPKITree src dst =
     seq (os_MkdirAll dst 0x1ED)
       (\<lambda>w. (case paths_under (w_fs w) src of
               [] \<Rightarrow> seq (os_Stat src) (ret ())
             | qs \<Rightarrow> each qs (copy_entry src dst)) w)"

definition writeKubeconfigAtomic :: "('e, 'g) pki_ext \<Rightarrow> string \<Rightarrow> path \<Rightarrow> 'g InitConfiguration \<Rightarrow> ('e, unit) io" where
  "writeKubeconfigAtomic x name dir cfg =
     bind (wrapf (''mktemp under '' @ path_text dir) (os_MkdirTemp dir ''.kubeconfig-stage-'')) (\<lambda>tmpDir.
       deferred (os_RemoveAll tmpDir)
         (seq (CreateKubeConfigFile x name tmpDir cfg)
           (let src = Join tmpDir name; dst = Join dir name in
            seq (wrapf (''rename '' @ path_text src @ '' -> '' @ path_text dst) (os_Rename src dst))
              (SyncParent dst))))"

definition regen_dir :: "Layout \<Rightarrow> path" where
  "regen_dir l = path_suffix (PKIDir l) ''.regen''"

definition toDelete :: "Layout \<Rightarrow> CAKind \<Rightarrow> path option list" where
  "toDelete l ca =
     (let staged = stagedPath (PKIDir l) (regen_dir l) in
      [staged (caCertPath l ca), staged (caKeyPath l ca)] @
      concat (map (\<lambda>leaf. staged (leafPath l leaf) #
          (case leafKeyPath l leaf of None \<Rightarrow> [] | Some k \<Rightarrow> [staged k])) (dependentLeaves ca)))"

definition drop_staged :: "path option \<Rightarrow> ('e, unit) io" where
  "drop_staged po = (case po of
     None \<Rightarrow> ret ()
   | Some p \<Rightarrow> on_err (os_Remove p) (\<lambda>e.
       if ErrNotExist e then ret () else throw (Wrapf (''remove '' @ path_text p) e)))"

definition RegenerateCA :: "('e, 'g) pki_ext \<Rightarrow> 'g Signer \<Rightarrow> CAKind \<Rightarrow> ('e, unit) io" where
  "RegenerateCA x s ca =
     (let l = snd s; stagePKI = regen_dir l in
      seq (wrapf (''clear stale regen staging '' @ path_text stagePKI) (os_RemoveAll stagePKI))
     (seq (wrapf ''stage PKI tree'' (copyPKITree (PKIDir l) stagePKI))
     (seq (on_err
            (seq (each (toDelete l ca) drop_staged)
            (seq (wrapf (''create PKI assets for CA '' @ ca_string ca)
                   (CreatePKIAssets x ((fst s)\<lparr>CertificatesDir := path_text stagePKI\<rparr>)))
              (wrapf ''swap PKI'' (SwapDir stagePKI (PKIDir l)))))
            (\<lambda>e. seq (ignore (os_RemoveAll stagePKI)) (throw e)))
     (seq (wrapf (''remove displaced PKI '' @ path_text stagePKI) (os_RemoveAll stagePKI))
       (each (dependentKubeconfigs ca) (\<lambda>name.
          wrapf (''write kubeconfig '' @ name) (writeKubeconfigAtomic x name (KubernetesDir l) (fst s))))))))"

section \<open>The contract of kubeadm's issuing\<close>

definition clean_path :: "path \<Rightarrow> bool" where
  "clean_path p \<longleftrightarrow> p \<noteq> [] \<and> list_all simple_name p"

text \<open>
  \<open>complete\<close> is what a normal return of \<open>CreatePKIAssets\<close> guarantees of the tree, \<open>minted\<close> what
  it guarantees of a file it had to create, and \<open>conf\<close> what \<open>CreateKubeConfigFile\<close> guarantees
  of a file it had to create.
\<close>

locale kubeadm_pki =
  fixes x :: "('e, 'g) pki_ext"
    and complete :: "(path \<Rightarrow> node option) \<Rightarrow> bool"
    and minted :: "path \<Rightarrow> node \<Rightarrow> bool"
    and conf :: "string \<Rightarrow> node \<Rightarrow> bool"
  assumes assets: "\<And>cfg d fs. wf_fs fs \<Longrightarrow> clean_path d \<Longrightarrow> CertificatesDir cfg = path_text d \<Longrightarrow>
      is_dir fs d \<Longrightarrow>
      fwp (CreatePKIAssets x cfg)
        (\<lambda>_ v. complete (sub v d) \<and> (\<forall>q n. look fs (d @ q) = Some n \<longrightarrow> look v (d @ q) = Some n) \<and>
              (\<forall>q n. look fs (d @ q) = None \<longrightarrow> look v (d @ q) = Some n \<longrightarrow> minted q n))
        (\<lambda>_ _. True) (\<lambda>_. True) fs"
    and assets_frame: "\<And>cfg d Z fs. clean_path d \<Longrightarrow> CertificatesDir cfg = path_text d \<Longrightarrow>
      Z \<inter> (below d \<union> above d) = {} \<Longrightarrow> keeps (on_fs (same_on Z fs)) (CreatePKIAssets x cfg)"
    and assets_wf: "\<And>cfg. keeps (on_fs wf_fs) (CreatePKIAssets x cfg)"
    and conf_file: "\<And>name d cfg fs. wf_fs fs \<Longrightarrow> is_dir fs d \<Longrightarrow> look fs (d @ [name]) = None \<Longrightarrow>
      fwp (CreateKubeConfigFile x name d cfg)
        (\<lambda>_ v. \<exists>m b. look v (d @ [name]) = Some (File m b) \<and> conf name (File m b))
        (\<lambda>_ _. True) (\<lambda>_. True) fs"
    and conf_frame: "\<And>name d cfg Z fs. Z \<inter> (below (d @ [name]) \<union> above d) = {} \<Longrightarrow>
      keeps (on_fs (same_on Z fs)) (CreateKubeConfigFile x name d cfg)"
    and conf_wf: "\<And>name d cfg. keeps (on_fs wf_fs) (CreateKubeConfigFile x name d cfg)"

section \<open>Copying the tree\<close>

text \<open>The copy of a tree: files with their content and permission bits, and nothing else.\<close>

definition cloned :: "(path \<Rightarrow> node option) \<Rightarrow> (path \<Rightarrow> node option) \<Rightarrow> bool" where
  "cloned T T' \<longleftrightarrow> (\<forall>q. case T q of
     None \<Rightarrow> T' q = None
   | Some (File m b) \<Rightarrow> T' q = Some (File (perm m) b)
   | Some (Dir _) \<Rightarrow> (\<exists>m. T' q = Some (Dir m)))"

text \<open>As far as the entries in \<open>D\<close> have been copied from \<open>fs\<close>.\<close>

definition copied_at :: "path \<Rightarrow> path \<Rightarrow> fsys \<Rightarrow> path set \<Rightarrow> fsys \<Rightarrow> path \<Rightarrow> bool" where
  "copied_at src dst fs D v q \<longleftrightarrow> (case look fs (src @ q) of
     None \<Rightarrow> look v (dst @ q) = None
   | Some (File m b) \<Rightarrow> look v (dst @ q) = (if src @ q \<in> D then Some (File (perm m) b) else None)
   | Some (Dir _) \<Rightarrow> is_dir v (dst @ q) \<or> (src @ q \<notin> D \<and> look v (dst @ q) = None))"

definition part_copied :: "path \<Rightarrow> path \<Rightarrow> fsys \<Rightarrow> path set \<Rightarrow> fsys \<Rightarrow> bool" where
  "part_copied src dst fs D v \<longleftrightarrow>
     sub v src = sub fs src \<and> is_dir v dst \<and> (\<forall>q. copied_at src dst fs D v q)"

lemma copied_at_same:
  "copied_at src dst fs D v q \<Longrightarrow> look v' (dst @ q) = look v (dst @ q) \<Longrightarrow> q \<noteq> r \<Longrightarrow>
   copied_at src dst fs (insert (src @ r) D) v' q"
  by (auto simp: copied_at_def is_dir_look split: option.splits node.splits)

lemma part_copied_dir:
  assumes wf: "wf_fs fs" and apart: "apart src dst" and I: "part_copied src dst fs D v"
    and r: "look fs (src @ r) = Some (Dir m)" and g: "grown (dst @ r) m' v v'" and d: "is_dir v' (dst @ r)"
  shows "part_copied src dst fs (insert (src @ r) D) v'"
  unfolding part_copied_def
proof (intro conjI allI)
  have "below src \<inter> above (dst @ r) = {}"
    using apart_not_prefix_append(1) [OF apart, of r] prefix_order.trans by (auto simp: apart_def)
  then have "same_on (below src) v v'" by (rule grown_same_on [OF g])
  then show "sub v' src = sub fs src" using I by (simp add: same_on_below_iff part_copied_def)
  have "is_dir v dst" using I by (simp add: part_copied_def)
  then show "is_dir v' dst" using grown_keeps_present [OF g] by (auto simp: is_dir_look)
  fix q
  have old: "copied_at src dst fs D v q" using I by (simp add: part_copied_def)
  consider "q = r" | "q \<noteq> r" "look v' (dst @ q) = look v (dst @ q)"
    | "prefix q r" "q \<noteq> r" "look v' (dst @ q) = Some (Dir m')"
    using g unfolding grown_def by (metis same_prefix_prefix)
  then show "copied_at src dst fs (insert (src @ r) D) v' q"
  proof cases
    case 1
    then show ?thesis using r d by (simp add: copied_at_def)
  next
    case 2
    then show ?thesis using copied_at_same [OF old] by simp
  next
    case 3
    have "strict_prefix (src @ q) (src @ r)" using 3(1,2) by (simp add: strict_prefix_def)
    then have "is_dir fs (src @ q)" using wf_fs_prefix_dir [OF wf, of "src @ r"] r by simp
    then show ?thesis using 3(3) by (auto simp: copied_at_def is_dir_look)
  qed
qed

lemma part_copied_file:
  assumes apart: "apart src dst" and I: "part_copied src dst fs D v"
    and r: "look fs (src @ r) = Some (File m b)" "r \<noteq> []"
    and s: "same_on (- {dst @ r}) v v'" and f: "look v' (dst @ r) = Some (File (perm m) b)"
  shows "part_copied src dst fs (insert (src @ r) D) v'"
proof -
  have "below src \<subseteq> - {dst @ r}"
    using apart_not_prefix_append(1) [OF apart, of r] by auto
  then have "same_on (below src) v v'" by (rule same_on_mono [OF s])
  then have src: "sub v' src = sub v src" by (simp add: same_on_below_iff)
  have others: "look v' (dst @ q) = look v (dst @ q)" if "q \<noteq> r" for q
    using s that by (simp add: same_on_def)
  have "copied_at src dst fs (insert (src @ r) D) v' q" for q
  proof (cases "q = r")
    case True
    then show ?thesis using r(1) f by (simp add: copied_at_def)
  next
    case False
    have "copied_at src dst fs D v q" using I by (simp add: part_copied_def)
    then show ?thesis by (rule copied_at_same [OF _ others [OF False] False])
  qed
  then show ?thesis
    using I src others [of "[]"] r(2) by (simp add: part_copied_def is_dir_look)
qed

lemma fwp_copy_entries:
  assumes wf: "wf_fs fs" and apart: "apart src dst" and dst: "dst \<noteq> []"
    and dirs: "is_dir fs src" and start: "part_copied src dst fs {} fs"
  shows "fwp (each (paths_under fs src) (copy_entry src dst))
    (\<lambda>_ v. cloned (sub fs src) (sub v dst)) (\<lambda>_ _. True) (\<lambda>_. True) fs"
proof (rule fwp_each [where I = "\<lambda>dn v. part_copied src dst fs (set dn) v"], goal_cases)
  case 1
  then show ?case using start by simp
next
  case (2 dn x rest v)
  have "x \<in> set (paths_under fs src)" using 2(1) by simp
  then obtain r where x: "x = src @ r" by (auto simp: in_paths_under prefix_def)
  have new: "src @ r \<notin> set dn" using distinct_paths_under [of fs src] unfolding 2(1) x by simp
  have src: "sub v src = sub fs src" using 2(2) by (simp add: part_copied_def)
  then have here: "look v (src @ r) = look fs (src @ r)" by (simp add: sub_eq_iff)
  have reb: "rebase src dst (src @ r) = dst @ r" by (simp add: rebase_def)
  have dir: "part_copied src dst fs (set (dn @ [x])) v'"
    if "look fs (src @ r) = Some (Dir m)" "grown (dst @ r) (perm m) v v'" "is_dir v' (dst @ r)" for m v'
    using part_copied_dir [OF wf apart 2(2) that] by (simp add: x)
  have filed: "part_copied src dst fs (set (dn @ [x])) v'"
    if "look fs (src @ r) = Some (File m b)" "same_on (- {dst @ r}) v v'"
      "look v' (dst @ r) = Some (File m' b)" "look v (dst @ r) = None \<Longrightarrow> m' = perm m" for m b m' v'
  proof -
    have "r \<noteq> []" using that(1) dirs by (auto simp: is_dir_look)
    have "copied_at src dst fs (set dn) v r" using 2(2) by (simp add: part_copied_def)
    then have "look v (dst @ r) = None" using that(1) new by (simp add: copied_at_def)
    then show ?thesis
      using part_copied_file [OF apart 2(2) that(1) \<open>r \<noteq> []\<close> that(2)] that(3,4) by (simp add: x)
  qed
  have ne: "dst @ r \<noteq> []" using dst by simp
  show ?case
    unfolding copy_entry_def Let_def x reb
  proof (intro fwp_bind fwp_Stat, goal_cases)
    case (4 n t)
    then have n: "look fs (src @ r) = Some n" using here look_map_of by metis
    show ?case
    proof (cases n)
      case (Dir m)
      then show ?thesis
        using dir n by (auto intro!: fwp_seq fwp_ReadDir fwp_MkdirAll [OF ne] simp: x)
    next
      case (File m b)
      then show ?thesis
        using filed n here by (auto intro!: fwp_bind fwp_ReadFile fwp_WriteFile simp: x)
    qed
  qed auto
next
  case (3 v)
  have "case sub fs src q of None \<Rightarrow> sub v dst q = None
      | Some (File m b) \<Rightarrow> sub v dst q = Some (File (perm m) b)
      | Some (Dir _) \<Rightarrow> (\<exists>m. sub v dst q = Some (Dir m))" for q
  proof -
    have "copied_at src dst fs (set (paths_under fs src)) v q" using 3 by (simp add: part_copied_def)
    then show ?thesis
      by (auto simp: copied_at_def sub_def in_paths_under is_dir_look split: option.splits node.splits)
  qed
  then show ?case by (simp add: cloned_def)
qed

lemma wf_copy_entry [keeps_rules]: "keeps (on_fs wf_fs) (copy_entry src dst q)"
  unfolding copy_entry_def Let_def
  by (intro keeps_rules) (auto intro!: keeps_rules split: node.split)

lemma above_split: "prefix p q \<Longrightarrow> above q \<subseteq> below p \<union> above p"
proof
  fix y
  show "prefix p q \<Longrightarrow> y \<in> above q \<Longrightarrow> y \<in> below p \<union> above p"
    using prefix_same_cases [of y q p] by auto
qed

lemma keeps_copy_entry:
  assumes "prefix src q" "dst \<noteq> []" "Z \<inter> (below dst \<union> above dst) = {}"
  shows "keeps (on_fs (same_on Z fs0)) (copy_entry src dst q)"
proof -
  have t: "prefix dst (rebase src dst q)" "rebase src dst q \<noteq> []" using assms(1,2) by (auto simp: rebase_def)
  have "above (rebase src dst q) \<subseteq> below dst \<union> above dst"
    using t(1) by (rule above_split)
  then have "Z \<inter> above (rebase src dst q) = {}" "rebase src dst q \<notin> Z"
    using assms(3) t(1) by auto
  then show ?thesis
    using t unfolding copy_entry_def Let_def
    by (intro keeps_bind keeps_Stat) (auto intro!: keeps_rules split: node.split)
qed

lemma copyPKITree_rule:
  assumes "\<And>q. prefix src q \<Longrightarrow> keeps I (copy_entry src dst q :: ('e, unit) io)"
    and "keeps I (os_MkdirAll dst 0x1ED :: ('e, unit) io)" "keeps I (os_Stat src :: ('e, node \<times> int) io)"
  shows "keeps I (copyPKITree src dst :: ('e, unit) io)"
proof -
  have step: "keeps I ((case paths_under fs src of [] \<Rightarrow> seq (os_Stat src) (ret ()) | qs \<Rightarrow> each qs (copy_entry src dst)) :: ('e, unit) io)" for fs
  proof -
    have "keeps I (each (paths_under fs src) (copy_entry src dst) :: ('e, unit) io)"
      using assms(1) by (intro keeps_each) (simp add: in_paths_under)
    moreover have "keeps I (seq (os_Stat src) (ret ()) :: ('e, unit) io)"
      by (intro keeps_seq keeps_ret assms(3))
    ultimately show ?thesis by (cases "paths_under fs src") simp_all
  qed
  show ?thesis
    unfolding copyPKITree_def
    by (rule keeps_seq [OF assms(2)]) (rule keeps_peek [where g = w_fs, OF step])
qed

lemma wf_copyPKITree [keeps_rules]: "keeps (on_fs wf_fs) (copyPKITree src dst)"
  by (rule copyPKITree_rule) (rule keeps_rules)+

lemma keeps_copyPKITree:
  "dst \<noteq> [] \<Longrightarrow> Z \<inter> (below dst \<union> above dst) = {} \<Longrightarrow> keeps (on_fs (same_on Z fs0)) (copyPKITree src dst)"
  by (rule copyPKITree_rule) (auto intro!: keeps_copy_entry keeps_rules)

lemma fwp_copyPKITree:
  assumes wf: "wf_fs fs" and apart: "apart src dst" and dst: "dst \<noteq> []"
    and src: "is_dir fs src" and clear: "sub fs dst = no_tree"
  shows "fwp (copyPKITree src dst) (\<lambda>_ v. cloned (sub fs src) (sub v dst)) (\<lambda>_ _. True) (\<lambda>_. True) fs"
  unfolding copyPKITree_def
proof (rule fwp_seq, rule fwp_MkdirAll_wf [OF wf dst], goal_cases)
  case (3 v)
  have "below src \<inter> above dst = {}" using apart prefix_order.trans by (auto simp: apart_def)
  then have "same_on (below src) fs v" by (rule grown_same_on [OF 3(2)])
  then have same: "sub v src = sub fs src" by (simp add: same_on_below_iff)
  then have dir: "is_dir v src" using src by (simp add: is_dir_look look_sub_root)
  have empty: "look v (dst @ q) = None" if "q \<noteq> []" for q
  proof -
    have "look fs (dst @ q) = None" using clear by (simp add: no_tree_def flip: sub_append)
    then show ?thesis using 3(2) that unfolding grown_def by (metis append_prefixD prefix_order.antisym prefixI self_append_conv)
  qed
  have "copied_at src dst v {} v q" for q
    using empty [of q] dir 3(3) by (cases "q = []") (auto simp: copied_at_def is_dir_look split: option.split node.split)
  then have "part_copied src dst v {} v" using 3(3) by (simp add: part_copied_def)
  note walk = fwp_copy_entries [OF 3(1) apart dst dir this, unfolded same]
  have "src \<in> set (paths_under v src)" using dir by (auto simp: in_paths_under is_dir_look)
  then have "paths_under v src \<noteq> []" by auto
  then show ?case
    using walk unfolding fwp_def wp_def by (auto split: list.splits)
qed auto

section \<open>Replacing a CA\<close>

text \<open>The files below the PKI directory that are replaced with a CA.\<close>

fun replaced :: "CAKind \<Rightarrow> path list" where
  "replaced CACluster =
     [[''ca.crt''], [''ca.key''], [''apiserver.crt''], [''apiserver.key''],
      [''apiserver-kubelet-client.crt''], [''apiserver-kubelet-client.key'']]"
| "replaced CAEtcd =
     [[''etcd'', ''ca.crt''], [''etcd'', ''ca.key''], [''etcd'', ''server.crt''], [''etcd'', ''server.key''],
      [''etcd'', ''peer.crt''], [''etcd'', ''peer.key''], [''etcd'', ''healthcheck-client.crt''],
      [''etcd'', ''healthcheck-client.key''], [''apiserver-etcd-client.crt''], [''apiserver-etcd-client.key'']]"
| "replaced CAFrontProxy =
     [[''front-proxy-ca.crt''], [''front-proxy-ca.key''], [''front-proxy-client.crt''], [''front-proxy-client.key'']]"

lemma toDelete_eq: "toDelete l ca = map (\<lambda>r. Some (regen_dir l @ r)) (replaced ca)"
  by (cases ca) (simp_all add: toDelete_def Let_def caCertPath_def caKeyPath_def Join_def stagedPath_def strict_prefix_def)

lemma fwp_drop_staged:
  assumes "C fs" "\<And>e. E e fs"
    and "\<And>v. (\<forall>q. look v q = (if q = p then None else look fs q)) \<Longrightarrow> Q () v"
  shows "fwp (drop_staged (Some p)) Q E C fs"
proof -
  have Q: "Q () fs" if "look fs p = None" by (rule assms(3)) (use that in auto)
  show ?thesis
    unfolding drop_staged_def option.case
    by (intro fwp_on_err fwp_Remove fwp_if fwp_ret fwp_throw)
      (use assms Q in \<open>auto simp: is_dir_look\<close>)
qed

lemma fwp_drop_all:
  assumes "\<And>v. same_on (- below S) fs v \<Longrightarrow> C v \<and> (\<forall>e. E e v)"
    and "\<And>v. (\<forall>q. look v q = (if q \<in> (\<lambda>r. S @ r) ` set rs then None else look fs q)) \<Longrightarrow> Q () v"
  shows "fwp (each (map (\<lambda>r. Some (S @ r)) rs) drop_staged) Q E C fs"
proof (rule fwp_each [where I = "\<lambda>dn v. \<forall>q. look v q = (if Some q \<in> set dn then None else look fs q)"], goal_cases)
  case (2 dn po rest v)
  then have "po \<in> set (map (\<lambda>r. Some (S @ r)) rs)" "set dn \<subseteq> set (map (\<lambda>r. Some (S @ r)) rs)"
    unfolding 2(1) by auto
  then obtain r where po: "po = Some (S @ r)" by auto
  have "same_on (- below S) fs v"
    using 2(2) \<open>set dn \<subseteq> _\<close> by (auto simp: same_on_def)
  then show ?case
    unfolding po by (intro fwp_drop_staged) (use assms(1) 2(2) in auto)
next
  case (3 v)
  have "Some q \<in> set (map (\<lambda>r. Some (S @ r)) rs) \<longleftrightarrow> q \<in> (\<lambda>r. S @ r) ` set rs" for q by auto
  then show ?case using 3 assms(2) by simp
qed simp

text \<open>
  The tree \<open>T'\<close> replaces \<open>T\<close>: it is complete, the files of the CA and its leaves are newly issued,
  whatever else the tree has gained is too, and every other file is the old one.
\<close>

definition rotated :: "((path \<Rightarrow> node option) \<Rightarrow> bool) \<Rightarrow> (path \<Rightarrow> node \<Rightarrow> bool) \<Rightarrow> CAKind \<Rightarrow>
    (path \<Rightarrow> node option) \<Rightarrow> (path \<Rightarrow> node option) \<Rightarrow> bool" where
  "rotated complete minted ca T T' \<longleftrightarrow> complete T' \<and>
     (\<forall>q n. q \<in> set (replaced ca) \<or> T q = None \<longrightarrow> T' q = Some n \<longrightarrow> minted q n) \<and>
     (\<forall>q m b. q \<notin> set (replaced ca) \<longrightarrow> T q = Some (File m b) \<longrightarrow> T' q = Some (File (perm m) b))"

definition pki_layout :: "Layout \<Rightarrow> bool" where
  "pki_layout l \<longleftrightarrow> clean_path (PKIDir l) \<and> PKIDir l = KubernetesDir l @ [''pki''] \<and> KubernetesDir l \<noteq> []"

lemma pki_layout_Default [simp]: "pki_layout Default"
  by (simp add: pki_layout_def clean_path_def simple_name_def)

lemma pki_layoutD:
  assumes "pki_layout l"
  shows "regen_dir l = KubernetesDir l @ [''pki.regen'']" "clean_path (regen_dir l)"
    "apart (regen_dir l) (PKIDir l)" "apart (PKIDir l) (regen_dir l)" "regen_dir l \<noteq> []"
    "PKIDir l \<noteq> []" "KubernetesDir l \<noteq> []" "above (regen_dir l) \<subseteq> insert (regen_dir l) (above (KubernetesDir l))"
proof -
  show r: "regen_dir l = KubernetesDir l @ [''pki.regen'']"
    using assms by (simp add: regen_dir_def pki_layout_def path_suffix_snoc)
  show "clean_path (regen_dir l)" using assms by (auto simp: r pki_layout_def clean_path_def simple_name_def)
  show "apart (regen_dir l) (PKIDir l)" "apart (PKIDir l) (regen_dir l)"
    using assms by (simp_all add: r pki_layout_def apart_siblings)
  show "regen_dir l \<noteq> []" "PKIDir l \<noteq> []" "KubernetesDir l \<noteq> []" using assms by (simp_all add: r pki_layout_def)
  show "above (regen_dir l) \<subseteq> insert (regen_dir l) (above (KubernetesDir l))" by (auto simp: r prefix_snoc)
qed

lemma seq_assoc: "seq (seq a b) c = seq a (seq b c)"
  by (simp add: seq_def bind_def fun_eq_iff split: outcome.split prod.split)

lemma below_not_around: "apart p q \<Longrightarrow> below p \<inter> (below q \<union> above q) = {}"
  using below_apart [of p q] prefix_order.trans [of p _ q] by (auto simp: apart_def)

definition pki_safe :: "((path \<Rightarrow> node option) \<Rightarrow> bool) \<Rightarrow> (path \<Rightarrow> node \<Rightarrow> bool) \<Rightarrow> Layout \<Rightarrow> CAKind \<Rightarrow>
    fsys \<Rightarrow> fsys \<Rightarrow> bool" where
  "pki_safe complete minted l ca fs v \<longleftrightarrow>
     sub v (PKIDir l) = sub fs (PKIDir l) \<or> rotated complete minted ca (sub fs (PKIDir l)) (sub v (PKIDir l))"

lemma wf_drop_staged [keeps_rules]: "keeps (on_fs wf_fs) (drop_staged po)"
  unfolding drop_staged_def by (intro keeps_rules)

context kubeadm_pki begin

lemma rotated_staged:
  assumes cl: "cloned T (sub v S)"
    and drop: "\<forall>q. look v1 q = (if q \<in> (\<lambda>r. S @ r) ` set (replaced ca) then None else look v q)"
    and "complete (sub v2 S)" and keep: "\<forall>q n. look v1 (S @ q) = Some n \<longrightarrow> look v2 (S @ q) = Some n"
    and new: "\<forall>q n. look v1 (S @ q) = None \<longrightarrow> look v2 (S @ q) = Some n \<longrightarrow> minted q n"
  shows "rotated complete minted ca T (sub v2 S)"
proof -
  have v1: "look v1 (S @ q) = (if q \<in> set (replaced ca) then None else sub v S q)" for q
    using drop by (auto simp: sub_def)
  have "look v1 (S @ q) = None" if "q \<in> set (replaced ca) \<or> T q = None" for q
    using that spec [OF cl [unfolded cloned_def], of q] by (auto simp: v1)
  moreover have "look v1 (S @ q) = Some (File (perm m) b)" if "q \<notin> set (replaced ca)" "T q = Some (File m b)" for q m b
    using that spec [OF cl [unfolded cloned_def], of q] by (auto simp: v1)
  ultimately show ?thesis using assms(3) keep new by (simp add: rotated_def sub_append)
qed

lemma fwp_swap_in_new:
  assumes l: "pki_layout l" and wf: "wf_fs v" and cl: "cloned (sub fs (PKIDir l)) (sub v (regen_dir l))"
    and live: "sub v (PKIDir l) = sub fs (PKIDir l)" and dir: "is_dir fs (PKIDir l)"
    and cfg: "CertificatesDir cfg = path_text (regen_dir l)"
  shows "fwp (seq (each (toDelete l ca) drop_staged)
      (seq (wrapf s1 (CreatePKIAssets x cfg)) (wrapf s2 (SwapDir (regen_dir l) (PKIDir l)))))
    (\<lambda>_ v'. rotated complete minted ca (sub fs (PKIDir l)) (sub v' (PKIDir l)))
    (\<lambda>_. pki_safe complete minted l ca fs) (pki_safe complete minted l ca fs) v"
proof -
  let ?S = "regen_dir l" and ?P = "PKIDir l"
  note lay = pki_layoutD [OF l]
  have around: "below ?P \<inter> (below ?S \<union> above ?S) = {}" by (rule below_not_around [OF lay(4)])
  have safe: "pki_safe complete minted l ca fs v'" if "sub v' ?P = sub v ?P" for v'
    using that live by (simp add: pki_safe_def)
  have P_same: "sub v' ?P = sub v ?P" if "same_on (- below ?S) v v'" for v'
    by (rule same_on_sub [OF that]) (use around in blast)
  have swap: "fwp (wrapf s2 (SwapDir ?S ?P)) (\<lambda>_ v'. rotated complete minted ca (sub fs ?P) (sub v' ?P))
      (\<lambda>_. pki_safe complete minted l ca fs) (pki_safe complete minted l ca fs) v2"
    if "wf_fs v2" "sub v2 ?P = sub v ?P" "rotated complete minted ca (sub fs ?P) (sub v2 ?S)" for v2
  proof (rule fwp_wrapf, rule swapdir.swap_rule [OF that(1) lay(3)], goal_cases)
    case (1 v3)
    then show ?case using unchanged_sub [OF 1, of ?P] that(2) live by (simp add: pki_safe_def)
  qed (use that(3) in \<open>simp_all add: swapped_def pki_safe_def\<close>)
  have issue: "fwp (seq (wrapf s1 (CreatePKIAssets x cfg)) (wrapf s2 (SwapDir ?S ?P)))
      (\<lambda>_ v'. rotated complete minted ca (sub fs ?P) (sub v' ?P))
      (\<lambda>_. pki_safe complete minted l ca fs) (pki_safe complete minted l ca fs) v1"
    if w1: "wf_fs v1" and d: "\<forall>q. look v1 q = (if q \<in> (\<lambda>r. ?S @ r) ` set (replaced ca) then None else look v q)" for v1
  proof -
    have P1: "sub v1 ?P = sub v ?P" by (rule P_same) (use d in \<open>auto simp: same_on_def\<close>)
    have "\<exists>m. sub v ?S [] = Some (Dir m)"
      using dir spec [OF cl [unfolded cloned_def], of "[]"] by (auto simp: is_dir_look look_sub_root)
    moreover have "?S \<notin> (\<lambda>r. ?S @ r) ` set (replaced ca)" by (cases ca) auto
    ultimately have S1: "is_dir v1 ?S" using d by (auto simp: is_dir_look look_sub_root [of v ?S])
    note frame = assets_frame [OF lay(2) cfg, of "below ?P" v1, OF around]
    show ?thesis
    proof (rule fwp_seq, rule fwp_wrapf, rule fwp_assuming [OF frame same_on_refl],
        rule fwp_assuming [OF assets_wf w1], rule fwp_mono [OF assets [OF w1 lay(2) cfg S1]], goal_cases)
      case (1 y v2)
      show ?case
      proof (intro impI)
        assume w2: "wf_fs v2" and same: "same_on (below ?P) v1 v2"
        have "sub v2 ?P = sub v ?P" using same P1 by (simp add: same_on_below_iff)
        moreover have "rotated complete minted ca (sub fs ?P) (sub v2 ?S)"
          using 1 by (intro rotated_staged [OF cl d]) simp_all
        ultimately show "fwp (wrapf s2 (SwapDir ?S ?P)) (\<lambda>_ v'. rotated complete minted ca (sub fs ?P) (sub v' ?P))
            (\<lambda>_. pki_safe complete minted l ca fs) (pki_safe complete minted l ca fs) v2"
          using swap w2 by blast
      qed
    qed (use safe P1 in \<open>auto simp: same_on_below_iff\<close>)
  qed
  show ?thesis
    unfolding toDelete_eq
  proof (rule fwp_seq, rule fwp_assuming [OF keeps_each [OF wf_drop_staged] wf], rule fwp_drop_all, goal_cases)
    case (1 v1)
    then show ?case using safe [OF P_same [OF 1]] by simp
  next
    case (2 v1)
    then show ?case using issue by simp
  qed
qed

end

section \<open>The kubeconfigs\<close>

text \<open>The kubeconfig has been written anew; or it is the old one or written anew.\<close>

definition conf_new :: "(string \<Rightarrow> node \<Rightarrow> bool) \<Rightarrow> Layout \<Rightarrow> string \<Rightarrow> fsys \<Rightarrow> bool" where
  "conf_new conf l name v \<longleftrightarrow>
     (\<exists>m b. look v (KubernetesDir l @ [name]) = Some (File m b) \<and> conf name (File m b))"

definition conf_safe :: "(string \<Rightarrow> node \<Rightarrow> bool) \<Rightarrow> Layout \<Rightarrow> fsys \<Rightarrow> string \<Rightarrow> fsys \<Rightarrow> bool" where
  "conf_safe conf l fs name v \<longleftrightarrow>
     look v (KubernetesDir l @ [name]) = look fs (KubernetesDir l @ [name]) \<or> conf_new conf l name v"

text \<open>Writing one kubeconfig reaches its own path, temporary directories beside it, and nothing else.\<close>

definition kubeconfig_scratch :: "path \<Rightarrow> path set" where
  "kubeconfig_scratch d = {q. \<exists>t\<in>temp_names d ''.kubeconfig-stage-''. prefix t q}"

definition kubeconfig_area :: "path \<Rightarrow> string \<Rightarrow> path set" where
  "kubeconfig_area d name = above d \<union> below (d @ [name]) \<union> kubeconfig_scratch d"

text \<open>What a regeneration ends with, and what every state on the way satisfies.\<close>

definition regen_done :: "((path \<Rightarrow> node option) \<Rightarrow> bool) \<Rightarrow> (path \<Rightarrow> node \<Rightarrow> bool) \<Rightarrow> (string \<Rightarrow> node \<Rightarrow> bool) \<Rightarrow>
    Layout \<Rightarrow> CAKind \<Rightarrow> fsys \<Rightarrow> fsys \<Rightarrow> bool" where
  "regen_done complete minted conf l ca fs v \<longleftrightarrow>
     rotated complete minted ca (sub fs (PKIDir l)) (sub v (PKIDir l)) \<and>
     sub v (regen_dir l) = no_tree \<and> (\<forall>n\<in>set (dependentKubeconfigs ca). conf_new conf l n v)"

definition regen_safe :: "((path \<Rightarrow> node option) \<Rightarrow> bool) \<Rightarrow> (path \<Rightarrow> node \<Rightarrow> bool) \<Rightarrow> (string \<Rightarrow> node \<Rightarrow> bool) \<Rightarrow>
    Layout \<Rightarrow> CAKind \<Rightarrow> fsys \<Rightarrow> fsys \<Rightarrow> bool" where
  "regen_safe complete minted conf l ca fs v \<longleftrightarrow> pki_safe complete minted l ca fs v \<and>
     (\<forall>n\<in>set (dependentKubeconfigs ca). conf_safe conf l fs n v)"

lemma temp_kubeconfig:
  assumes "t \<in> temp_names d ''.kubeconfig-stage-''" "\<not> prefix ''.kubeconfig-stage-'' name"
  shows "apart t (d @ [name])" "below t \<subseteq> kubeconfig_scratch d" "above t \<subseteq> insert t (above d)" "t \<noteq> []"
proof -
  obtain n where t: "t = d @ [''.kubeconfig-stage-'' @ itoa n]" using assms(1) by (auto simp: temp_names_def)
  have "''.kubeconfig-stage-'' @ itoa n \<noteq> name" using assms(2) by auto
  then show "apart t (d @ [name])" unfolding t by (rule apart_siblings)
  show "below t \<subseteq> kubeconfig_scratch d" using assms(1) by (auto simp: kubeconfig_scratch_def)
  show "above t \<subseteq> insert t (above d)" "t \<noteq> []" by (auto simp: t prefix_snoc)
qed

context kubeadm_pki begin

lemma wf_writeKubeconfigAtomic: "keeps (on_fs wf_fs) (writeKubeconfigAtomic x name d cfg)"
  unfolding writeKubeconfigAtomic_def Let_def by (intro keeps_rules conf_wf)

lemma fwp_writeKubeconfigAtomic:
  fixes l :: Layout and fs :: fsys and name :: string
  assumes wf: "wf_fs fs" and name: "simple_name name" "\<not> prefix ''.kubeconfig-stage-'' name"
  defines "K \<equiv> KubernetesDir l"
  defines "safe \<equiv> \<lambda>v. look v (K @ [name]) = look fs (K @ [name]) \<or> conf_new conf l name v"
  shows "fwp (writeKubeconfigAtomic x name K cfg) (\<lambda>_. conf_new conf l name) (\<lambda>_. safe) safe fs"
  unfolding writeKubeconfigAtomic_def
proof (rule fwp_bind, rule fwp_wrapf, rule fwp_assuming [OF wf_MkdirTemp wf], rule fwp_MkdirTemp, goal_cases)
  case (3 t v1)
  note tmp = temp_kubeconfig [OF 3(1) name(2)]
  let ?dst = "K @ [name]"
  have safe1: "look v ?dst = look fs ?dst \<Longrightarrow> safe v" "conf_new conf l name v \<Longrightarrow> safe v" for v by (simp_all add: safe_def)
  have keep: "look v' ?dst = look v ?dst" if "shrunk t v v'" for v v'
    using that tmp(1) by (auto simp: shrunk_def same_on_def apart_def)
  have cleanup: "fwp (os_RemoveAll t) (\<lambda>_. P) (\<lambda>_. P) safe v" if P: "P v" "P = conf_new conf l name \<or> P = safe" for P v
  proof -
    have "P v'" if "shrunk t v v'" for v'
      using P keep [OF that] by (auto simp: safe_def conf_new_def K_def)
    then show ?thesis using P safe1(2) by (intro fwp_RemoveAll) auto
  qed
  have out: "look v1 ?dst = look fs ?dst" using 3(3) tmp(1) by (auto simp: same_on_def apart_def)
  show ?case
  proof (rule impI, rule fwp_deferred, rule fwp_seq)
    assume wf1: "wf_fs v1"
    have dir: "is_dir v1 t" using 3(4) by (simp add: is_dir_look)
    have "look fs (t @ [name]) = None" by (rule wf_fs_absent_below [OF wf 3(2)]) simp
    then have free: "look v1 (t @ [name]) = None" using 3(3) by (simp add: same_on_def)
    have "{?dst} \<inter> (below (t @ [name]) \<union> above t) = {}"
      using tmp(1) apart_not_prefix_append(1) [OF tmp(1)] by (auto simp: apart_def dest: append_prefixD)
    note frame = conf_frame [OF this, of v1 cfg]
    have ren: "conf_new conf l name v3"
      if "\<exists>m b. look v2 (t @ [name]) = Some (File m b) \<and> conf name (File m b)"
        "\<forall>q. look v3 q = look (if t @ [name] = ?dst then v2 else rename_tree (t @ [name]) ?dst v2) q" for v2 v3
    proof -
      have "\<not> prefix (t @ [name]) ?dst" using tmp(1) by (auto simp: apart_def dest: append_prefixD)
      then have "look v3 ?dst = look v2 (t @ [name])"
        using that(2) look_rename_tree [of "t @ [name]" ?dst v2 ?dst] by (auto simp: rebase_def)
      then show ?thesis using that(1) by (simp add: conf_new_def K_def)
    qed
    have joins: "Join t name = t @ [name]" "Join K name = ?dst" using name(1) by (simp_all add: path_simps)
    show "fwp (CreateKubeConfigFile x name t cfg)
      (\<lambda>_. fwp (let src = Join t name; dst = Join K name in
            seq (wrapf (''rename '' @ path_text src @ '' -> '' @ path_text dst) (os_Rename src dst)) (SyncParent dst))
         (\<lambda>_. fwp (os_RemoveAll t) (\<lambda>_. conf_new conf l name) (\<lambda>_. conf_new conf l name) safe)
         (\<lambda>_. fwp (os_RemoveAll t) (\<lambda>_. safe) (\<lambda>_. safe) safe) safe)
      (\<lambda>_. fwp (os_RemoveAll t) (\<lambda>_. safe) (\<lambda>_. safe) safe) safe v1"
    proof (rule fwp_assuming [OF frame same_on_refl], rule fwp_mono [OF conf_file [OF wf1 dir free]], goal_cases)
      case (1 y v2)
      show ?case
      proof
        assume "same_on {?dst} v1 v2"
        then have "safe v2" using out safe1 by (simp add: same_on_def)
        then show "fwp (let src = Join t name; dst = Join K name in
            seq (wrapf (''rename '' @ path_text src @ '' -> '' @ path_text dst) (os_Rename src dst)) (SyncParent dst))
         (\<lambda>_. fwp (os_RemoveAll t) (\<lambda>_. conf_new conf l name) (\<lambda>_. conf_new conf l name) safe)
         (\<lambda>_. fwp (os_RemoveAll t) (\<lambda>_. safe) (\<lambda>_. safe) safe) safe v2"
          unfolding Let_def joins
          by (intro fwp_seq fwp_wrapf fwp_Rename fwp_SyncParent cleanup)
            (use ren [OF 1] safe1 in auto)
      qed
    qed (use out safe1 cleanup in \<open>auto simp: same_on_def\<close>)
  qed
qed (simp_all add: safe_def)

lemma keeps_writeKubeconfigAtomic:
  assumes "simple_name name" "\<not> prefix ''.kubeconfig-stage-'' name" "Z \<inter> kubeconfig_area d name = {}"
  shows "keeps (on_fs (same_on Z fs0)) (writeKubeconfigAtomic x name d cfg)"
proof (rule keeps_fwp)
  fix fs
  assume fs: "same_on Z fs0 fs"
  have rest: "keeps (on_fs (same_on Z fs0)) (deferred (os_RemoveAll t) (seq (CreateKubeConfigFile x name t cfg)
      (let src = Join t name; dst = Join d name in
       seq (wrapf (''rename '' @ path_text src @ '' -> '' @ path_text dst) (os_Rename src dst)) (SyncParent dst))))"
    if "t \<in> temp_names d ''.kubeconfig-stage-''" for t
  proof -
    note tmp = temp_kubeconfig [OF that assms(2)]
    have "below (t @ [name]) \<union> above t \<subseteq> kubeconfig_area d name"
      using tmp(2,3) below_mono [of t "t @ [name]"] by (auto simp: kubeconfig_area_def)
    then have "Z \<inter> (below (t @ [name]) \<union> above t) = {}" using assms(3) by blast
    then show ?thesis
      using assms(1,3) tmp(2) unfolding Let_def path_simps(1) [OF assms(1)]
      by (intro keeps_rules conf_frame) (auto simp: kubeconfig_area_def Join_simple)
  qed
  show "fwp (writeKubeconfigAtomic x name d cfg) (\<lambda>_. same_on Z fs0) (\<lambda>_. same_on Z fs0) (same_on Z fs0) fs"
    unfolding writeKubeconfigAtomic_def
  proof (intro fwp_bind fwp_wrapf fwp_MkdirTemp, goal_cases)
    case (3 t v)
    have "Z \<subseteq> - {t}"
      using 3(1) assms(3) by (auto simp: kubeconfig_area_def kubeconfig_scratch_def)
    then have "same_on Z fs v" by (rule same_on_mono [OF 3(3)])
    then show ?case using fwp_keeps [OF rest [OF 3(1)]] same_on_trans [OF fs] by blast
  qed (use fs in simp_all)
qed

lemma dependent_names:
  assumes "n \<in> set (dependentKubeconfigs ca)"
  shows "simple_name n" "\<not> prefix ''.kubeconfig-stage-'' n" "n \<noteq> ''pki''" "n \<noteq> ''pki.regen''"
  using assms by (auto simp: dependentKubeconfigs_def simple_name_def split: if_splits)

lemma distinct_dependents: "distinct (dependentKubeconfigs ca)"
  by (simp add: dependentKubeconfigs_def)

text \<open>The paths beside the kubeconfigs that their rewriting may reach.\<close>

lemma sibling_outside:
  assumes "n \<in> set (dependentKubeconfigs ca)" "c \<noteq> n" "\<not> prefix ''.kubeconfig-stage-'' c"
  shows "below (d @ [c]) \<inter> kubeconfig_area d n = {}"
proof -
  have ap: "apart (d @ [c]) (d @ [n])" by (rule apart_siblings [OF assms(2)])
  have "\<not> prefix t q" if "t \<in> temp_names d ''.kubeconfig-stage-''" "prefix (d @ [c]) q" for t q
  proof -
    have "apart t (d @ [c])" using temp_kubeconfig(1) [OF that(1) assms(3)] .
    then show ?thesis using that(2) prefix_same_cases [of t q "d @ [c]"] by (auto simp: apart_def)
  qed
  then have "below (d @ [c]) \<inter> kubeconfig_scratch d = {}" by (auto simp: kubeconfig_scratch_def)
  moreover have "below (d @ [c]) \<inter> above d = {}"
    by (auto dest!: prefix_length_le)
  ultimately show ?thesis
    using ap unfolding kubeconfig_area_def by (auto simp: below_apart)
qed

lemma fwp_kubeconfigs:
  assumes wf: "wf_fs fs"
  shows "fwp (each (dependentKubeconfigs ca) (\<lambda>name. wrapf (s name) (writeKubeconfigAtomic x name (KubernetesDir l) cfg)))
    (\<lambda>_ v. \<forall>n\<in>set (dependentKubeconfigs ca). conf_new conf l n v)
    (\<lambda>_ v. \<forall>n\<in>set (dependentKubeconfigs ca). conf_safe conf l fs n v)
    (\<lambda>v. \<forall>n\<in>set (dependentKubeconfigs ca). conf_safe conf l fs n v) fs"
proof (rule fwp_each [where I = "\<lambda>dn v. wf_fs v \<and> (\<forall>n\<in>set (dependentKubeconfigs ca).
    if n \<in> set dn then conf_new conf l n v else look v (KubernetesDir l @ [n]) = look fs (KubernetesDir l @ [n]))"], goal_cases)
  case 1
  then show ?case using wf by simp
next
  case (2 dn n rest v)
  let ?N = "dependentKubeconfigs ca" and ?K = "KubernetesDir l"
  have n: "n \<in> set ?N" "n \<notin> set dn" using 2(1) distinct_dependents [of ca] by auto
  note nm = dependent_names [OF n(1)]
  have here: "look v (?K @ [n]) = look fs (?K @ [n])" using 2(2) n by auto
  have frame: "keeps (on_fs (same_on (- kubeconfig_area ?K n) v)) (writeKubeconfigAtomic x n ?K cfg)"
    by (rule keeps_writeKubeconfigAtomic [OF nm(1,2)]) auto
  have others: "look v' (?K @ [m]) = look v (?K @ [m])"
    if "same_on (- kubeconfig_area ?K n) v v'" "m \<in> set ?N" "m \<noteq> n" for v' m
    using that(1) by (rule same_on_look)
      (use sibling_outside [OF n(1) that(3) dependent_names(2) [OF that(2)], of ?K] in \<open>auto simp: disjoint_iff\<close>)
  have safe: "\<forall>m\<in>set ?N. conf_safe conf l fs m v'"
    if "same_on (- kubeconfig_area ?K n) v v'" "look v' (?K @ [n]) = look v (?K @ [n]) \<or> conf_new conf l n v'" for v'
  proof
    fix m
    assume m: "m \<in> set ?N"
    show "conf_safe conf l fs m v'"
    proof (cases "m = n")
      case True
      then show ?thesis using that(2) here by (simp add: conf_safe_def)
    next
      case False
      then show ?thesis using others [OF that(1) m] bspec [OF conjunct2 [OF 2(2)] m]
        by (cases "m \<in> set dn") (auto simp: conf_safe_def conf_new_def)
    qed
  qed
  have step: "if m \<in> set (dn @ [n]) then conf_new conf l m v' else look v' (?K @ [m]) = look fs (?K @ [m])"
    if "same_on (- kubeconfig_area ?K n) v v'" "conf_new conf l n v'" "m \<in> set ?N" for v' m
  proof (cases "m = n")
    case False
    then show ?thesis
      using others [OF that(1,3)] bspec [OF conjunct2 [OF 2(2)] that(3)] by (auto simp: conf_new_def)
  qed (use that(2) in simp)
  show ?case
  proof (rule fwp_wrapf, rule fwp_assuming [OF wf_writeKubeconfigAtomic conjunct1 [OF 2(2)]],
      rule fwp_assuming [OF frame same_on_refl],
      rule fwp_mono [OF fwp_writeKubeconfigAtomic [OF conjunct1 [OF 2(2)] nm(1,2)]], goal_cases)
    case (1 y v')
    then show ?case using step by simp
  qed (use safe in simp_all)
next
  case (3 v)
  then show ?case by simp
qed

subsection \<open>The whole\<close>

definition regen_pki :: "'g Signer \<Rightarrow> CAKind \<Rightarrow> ('e, unit) io" where
  "regen_pki s ca =
     (let l = snd s; stagePKI = regen_dir l in
      seq (wrapf (''clear stale regen staging '' @ path_text stagePKI) (os_RemoveAll stagePKI))
     (seq (wrapf ''stage PKI tree'' (copyPKITree (PKIDir l) stagePKI))
     (seq (on_err
            (seq (each (toDelete l ca) drop_staged)
            (seq (wrapf (''create PKI assets for CA '' @ ca_string ca)
                   (CreatePKIAssets x ((fst s)\<lparr>CertificatesDir := path_text stagePKI\<rparr>)))
              (wrapf ''swap PKI'' (SwapDir stagePKI (PKIDir l)))))
            (\<lambda>e. seq (ignore (os_RemoveAll stagePKI)) (throw e)))
       (wrapf (''remove displaced PKI '' @ path_text stagePKI) (os_RemoveAll stagePKI)))))"

lemma RegenerateCA_parts:
  "RegenerateCA x s ca = seq (regen_pki s ca)
     (each (dependentKubeconfigs ca) (\<lambda>name. wrapf (''write kubeconfig '' @ name)
        (writeKubeconfigAtomic x name (KubernetesDir (snd s)) (fst s))))"
  by (simp add: RegenerateCA_def regen_pki_def Let_def seq_assoc)

lemma wf_regen_pki: "keeps (on_fs wf_fs) (regen_pki s ca)"
  unfolding regen_pki_def Let_def by (intro keeps_rules assets_wf)

lemma keeps_regen_pki:
  assumes l: "pki_layout (snd s)"
    and Z: "Z \<inter> (above (KubernetesDir (snd s)) \<union> below (PKIDir (snd s)) \<union> below (regen_dir (snd s))) = {}"
  shows "keeps (on_fs (same_on Z fs0)) (regen_pki s ca)"
proof -
  note lay = pki_layoutD [OF l]
  have S: "Z \<inter> (below (regen_dir (snd s)) \<union> above (regen_dir (snd s))) = {}" "Z \<inter> below (PKIDir (snd s)) = {}"
    "Z \<inter> below (regen_dir (snd s)) = {}"
    using Z subset_trans [OF lay(8), of "above (KubernetesDir (snd s)) \<union> below (regen_dir (snd s))"]
    by auto
  have drop: "keeps (on_fs (same_on Z fs0)) (drop_staged po)" if "po \<in> set (toDelete (snd s) ca)" for po
    using that S(3) unfolding toDelete_eq drop_staged_def by (auto intro!: keeps_rules)
  show ?thesis
    unfolding regen_pki_def Let_def
    by (intro keeps_rules drop keeps_copyPKITree lay assets_frame [OF lay(2)] S) simp_all
qed

lemma fwp_regen_pki:
  assumes l: "pki_layout (snd s)" and wf: "wf_fs fs" and dir: "is_dir fs (PKIDir (snd s))"
  shows "fwp (regen_pki s ca)
    (\<lambda>_ v. rotated complete minted ca (sub fs (PKIDir (snd s))) (sub v (PKIDir (snd s))) \<and> sub v (regen_dir (snd s)) = no_tree)
    (\<lambda>_. pki_safe complete minted (snd s) ca fs) (pki_safe complete minted (snd s) ca fs) fs"
proof -
  let ?l = "snd s"
  let ?S = "regen_dir ?l" and ?P = "PKIDir ?l"
  let ?safe = "pki_safe complete minted ?l ca fs"
  note lay = pki_layoutD [OF l]
  have around: "below ?P \<inter> (below ?S \<union> above ?S) = {}" by (rule below_not_around [OF lay(4)])
  have same_P: "sub v' ?P = sub v ?P" if "shrunk ?S v v'" for v v'
    using shrunk_same_on [OF that, of "below ?P"] around by (auto simp: same_on_below_iff)
  have safe_P: "?safe v'" if "?safe v" "shrunk ?S v v'" for v v'
    using that(1) same_P [OF that(2)] by (simp add: pki_safe_def)
  have start: "?safe v" if "sub v ?P = sub fs ?P" for v using that by (simp add: pki_safe_def)
  have rot_safe: "?safe v" if "rotated complete minted ca (sub fs ?P) (sub v ?P)" for v
    using that by (simp add: pki_safe_def)
  have last: "fwp (wrapf t (os_RemoveAll ?S))
      (\<lambda>_ v. rotated complete minted ca (sub fs ?P) (sub v ?P) \<and> sub v ?S = no_tree) (\<lambda>_. ?safe) ?safe v"
    if "rotated complete minted ca (sub fs ?P) (sub v ?P)" for v t
  proof (intro fwp_wrapf fwp_RemoveAll, goal_cases)
    case (3 v')
    then show ?case using that same_P [OF 3(1)] by simp
  qed (use safe_P [OF rot_safe [OF that]] in simp_all)
  have undo: "fwp (seq (ignore (os_RemoveAll ?S)) (throw e :: ('e, unit) io)) Q (\<lambda>_. ?safe) ?safe v" if "?safe v" for v e Q
    by (intro fwp_seq fwp_ignore fwp_RemoveAll fwp_throw) (use safe_P [OF that] in simp_all)
  show ?thesis
    unfolding regen_pki_def Let_def
  proof (rule fwp_seq, rule fwp_wrapf, rule fwp_RemoveAll_wf [OF wf], goal_cases)
    case (3 v1)
    have P1: "sub v1 ?P = sub fs ?P" by (rule same_P [OF 3(2)])
    then have dir1: "is_dir v1 ?P" using dir by (simp add: is_dir_look look_sub_root)
    have frame: "keeps (on_fs (same_on (below ?P) v1)) (copyPKITree ?P ?S)"
      by (rule keeps_copyPKITree [OF lay(5) around])
    show ?case
    proof (rule fwp_seq, rule fwp_wrapf, rule fwp_assuming [OF wf_copyPKITree 3(1)],
        rule fwp_assuming [OF frame same_on_refl],
        rule fwp_mono [OF fwp_copyPKITree [OF 3(1) lay(4,5) dir1 3(3)]], goal_cases)
      case (1 y v2)
      show ?case
      proof (intro impI)
        assume "same_on (below ?P) v1 v2" "wf_fs v2"
        then have P2: "sub v2 ?P = sub fs ?P" and wf2: "wf_fs v2" using P1 by (simp_all add: same_on_below_iff)
        have cl: "cloned (sub fs ?P) (sub v2 ?S)" using 1 P1 by simp
        show "fwp (seq (on_err
            (seq (each (toDelete ?l ca) drop_staged)
            (seq (wrapf (''create PKI assets for CA '' @ ca_string ca)
                   (CreatePKIAssets x ((fst s)\<lparr>CertificatesDir := path_text ?S\<rparr>)))
              (wrapf ''swap PKI'' (SwapDir ?S ?P))))
            (\<lambda>e. seq (ignore (os_RemoveAll ?S)) (throw e)))
           (wrapf (''remove displaced PKI '' @ path_text ?S) (os_RemoveAll ?S)))
          (\<lambda>_ v. rotated complete minted ca (sub fs ?P) (sub v ?P) \<and> sub v ?S = no_tree) (\<lambda>_. ?safe) ?safe v2"
          by (rule fwp_seq, rule fwp_on_err,
              rule fwp_mono [OF fwp_swap_in_new [OF l wf2 cl P2 dir]])
            (use last undo in simp_all)
      qed
    qed (use start P1 in \<open>simp_all add: same_on_below_iff\<close>)
  qed (use start same_P in simp_all)
qed

lemma fwp_RegenerateCA:
  assumes l: "pki_layout (snd s)" and wf: "wf_fs fs" and dir: "is_dir fs (PKIDir (snd s))"
  shows "fwp (RegenerateCA x s ca)
    (\<lambda>_. regen_done complete minted conf (snd s) ca fs) (\<lambda>_. regen_safe complete minted conf (snd s) ca fs) (regen_safe complete minted conf (snd s) ca fs) fs"
proof -
  let ?l = "snd s" and ?N = "dependentKubeconfigs ca" and ?K = "KubernetesDir (snd s)"
  let ?Z = "(\<lambda>n. ?K @ [n]) ` set ?N" and ?Y = "below (PKIDir ?l) \<union> below (regen_dir ?l)"
  note lay = pki_layoutD [OF l]
  have P: "PKIDir ?l = ?K @ [''pki'']" using l by (simp add: pki_layout_def)
  have "''pki'' \<notin> set ?N" "''pki.regen'' \<notin> set ?N" using dependent_names(3,4) by blast+
  then have "?Z \<inter> (above ?K \<union> below (PKIDir ?l) \<union> below (regen_dir ?l)) = {}"
    by (auto simp: P lay(1) dest: prefix_length_le)
  note frame1 = keeps_regen_pki [OF l this, of fs ca]
  have out: "?Y \<inter> kubeconfig_area ?K n = {}" if n: "n \<in> set ?N" for n
    using sibling_outside [OF n, of "''pki''" ?K] sibling_outside [OF n, of "''pki.regen''" ?K]
      dependent_names(3,4) [OF n] by (auto simp: P lay(1))
  have frame2: "keeps (on_fs (same_on ?Y v)) (each ?N (\<lambda>name. wrapf (''write kubeconfig '' @ name)
      (writeKubeconfigAtomic x name ?K (fst s))))" for v
    by (intro keeps_each keeps_wrapf keeps_writeKubeconfigAtomic out dependent_names(1,2) [of _ ca])
  have confs: "\<forall>n\<in>set ?N. conf_safe conf ?l fs n v'"
    if "same_on ?Z fs v" "\<forall>n\<in>set ?N. conf_safe conf ?l v n v'" for v v'
    using that by (auto simp: conf_safe_def same_on_def)
  have confs0: "\<forall>n\<in>set ?N. conf_safe conf ?l fs n v" if "same_on ?Z fs v" for v
    using that by (auto simp: conf_safe_def same_on_def)
  have rest: "fwp (each ?N (\<lambda>name. wrapf (''write kubeconfig '' @ name) (writeKubeconfigAtomic x name ?K (fst s))))
      (\<lambda>_. regen_done complete minted conf ?l ca fs) (\<lambda>_. regen_safe complete minted conf ?l ca fs) (regen_safe complete minted conf ?l ca fs) v"
    if v: "wf_fs v" "same_on ?Z fs v" "rotated complete minted ca (sub fs (PKIDir ?l)) (sub v (PKIDir ?l))"
      "sub v (regen_dir ?l) = no_tree" for v
  proof (rule fwp_assuming [OF frame2 same_on_refl], rule fwp_mono [OF fwp_kubeconfigs [OF v(1)]], goal_cases)
    have Y: "sub v' (PKIDir ?l) = sub v (PKIDir ?l)" "sub v' (regen_dir ?l) = sub v (regen_dir ?l)"
      if "same_on ?Y v v'" for v' by (rule same_on_sub [OF that]; simp)+
    note parts = regen_done_def regen_safe_def pki_safe_def
    {
      case (1 y v')
      then show ?case using v(3,4) by (intro impI) (simp add: parts Y [of v'])
    next
      case (2 e v')
      then show ?case using confs [OF v(2)] v(3) by (intro impI) (simp add: parts Y(1) [of v'])
    next
      case (3 v')
      then show ?case using confs [OF v(2)] v(3) by (intro impI) (simp add: parts Y(1) [of v'])
    }
  qed
  show ?thesis
    unfolding RegenerateCA_parts
    by (rule fwp_seq, rule fwp_assuming [OF wf_regen_pki wf], rule fwp_assuming [OF frame1 same_on_refl],
        rule fwp_mono [OF fwp_regen_pki [OF l wf dir]])
      (use rest confs0 in \<open>simp_all add: regen_safe_def\<close>)
qed

end

section \<open>A reference issuer\<close>

text \<open>It writes the same content into every file it has to issue, and meets the contract.\<close>

definition pki_files :: "path list" where
  "pki_files = concat (map replaced AllCAs) @ [[''sa.key''], [''sa.pub'']]"

definition issue_file :: "path \<Rightarrow> path \<Rightarrow> ('e, unit) io" where
  "issue_file d r =
     bind (attempt (os_Stat (d @ r))) (\<lambda>s. case s of
       Inr _ \<Rightarrow> ret ()
     | Inl e \<Rightarrow> if ErrNotExist e then os_WriteFile (d @ r) ''new'' 0x180 else throw e)"

definition pki_ref :: "('e, 'g) pki_ext" where
  "pki_ref = \<lparr>
     pem_Decode = Some,
     ParseCertificate = (\<lambda>b. Inr \<lparr>NotBefore = 0, NotAfter = (if b = ''new'' then 3650 else if b = ''stale'' then 100 else 365) * 24 * hour\<rparr>),
     LoadFromFile = (\<lambda>p. bind (os_ReadFile p) (\<lambda>b. ret \<lparr>CurrentContext = ''c'', Contexts = [(''c'', ''u'')],
        AuthInfos = [(''u'', \<lparr>ClientCertificate = [], ClientKey = [], ClientCertificateData = b,
                              ClientKeyData = b, ai_rest = []\<rparr>)], kc_rest = []\<rparr>)),
     WriteToFile = (\<lambda>k p. os_WriteFile p ''conf'' 0x180),
     CreatePKIAssets = (\<lambda>cfg. let d = abs_path (CertificatesDir cfg) in
        seq (os_MkdirAll (d @ [''etcd'']) 0x1ED) (each pki_files (issue_file d))),
     CreateKubeConfigFile = (\<lambda>name d cfg. os_WriteFile (d @ [name]) ''conf'' 0x180),
     NewManager = (\<lambda>cfg d. ret ()),
     GetCertificateExpirationInfo = (\<lambda>cfg d name. ret 10),
     RenewUsingLocalCA = (\<lambda>cfg d name. ret True)\<rparr>"

definition ref_complete :: "(path \<Rightarrow> node option) \<Rightarrow> bool" where
  "ref_complete T \<longleftrightarrow> (\<forall>r\<in>set pki_files. T r \<noteq> None)"

definition ref_minted :: "path \<Rightarrow> node \<Rightarrow> bool" where
  "ref_minted q n \<longleftrightarrow> (case n of File _ b \<Rightarrow> b = ''new'' | Dir _ \<Rightarrow> True)"

definition ref_conf :: "string \<Rightarrow> node \<Rightarrow> bool" where
  "ref_conf name n \<longleftrightarrow> (case n of File _ b \<Rightarrow> b = ''conf'' | Dir _ \<Rightarrow> False)"

lemma split_on_append: "c \<notin> set s \<Longrightarrow> split_on c (s @ c # t) = s # split_on c t"
  by (induction s) auto

lemma split_path_text: "list_all simple_name p \<Longrightarrow> split_on (CHR ''/'') (concat (map (\<lambda>c. CHR ''/'' # c) p)) = [] # p"
proof (induction p)
  case (Cons c p)
  then have c: "CHR ''/'' \<notin> set c" by (simp add: simple_name_def)
  show ?case
  proof (cases p)
    case Nil
    then show ?thesis using split_on_no_sep [OF c] by simp
  next
    case (Cons d p')
    then show ?thesis
      using Cons.IH Cons.prems split_on_append [OF c, of "d @ concat (map (\<lambda>c. CHR ''/'' # c) p')"] by simp
  qed
qed simp

lemma clean_onto_simple: "list_all simple_name p \<Longrightarrow> clean_onto q p = q @ p"
  by (induction p arbitrary: q) (auto simp: simple_name_def)

lemma abs_path_text [simp]: "clean_path p \<Longrightarrow> abs_path (path_text p) = p"
  by (simp add: abs_path_def Join_def path_text_def clean_path_def split_path_text clean_onto_simple)

lemma fwp_issue_file:
  assumes "\<And>v. same_on (- {d @ r}) fs v \<Longrightarrow> (\<exists>m. look v (d @ r) = Some (File m ''new'')) \<Longrightarrow> look fs (d @ r) = None \<Longrightarrow> Q () v"
    and "look fs (d @ r) \<noteq> None \<Longrightarrow> Q () fs"
  shows "fwp (issue_file d r) Q (\<lambda>_ _. True) (\<lambda>_. True) fs"
  unfolding issue_file_def
  by (intro fwp_bind fwp_attempt fwp_Stat fwp_case_sum fwp_ret fwp_if fwp_WriteFile fwp_throw)
    (use assms in \<open>auto simp: look_def\<close>)

text \<open>What the issuer keeps and adds below its directory.\<close>

definition issued :: "path \<Rightarrow> fsys \<Rightarrow> path set \<Rightarrow> fsys \<Rightarrow> bool" where
  "issued d fs R v \<longleftrightarrow> (\<forall>q n. look fs (d @ q) = Some n \<longrightarrow> look v (d @ q) = Some n) \<and>
     (\<forall>q n. look fs (d @ q) = None \<longrightarrow> look v (d @ q) = Some n \<longrightarrow> ref_minted q n) \<and>
     (\<forall>r\<in>R. look v (d @ r) \<noteq> None)"

lemma issued_write:
  assumes "issued d fs R v" "same_on (- {d @ r}) v v'" "\<exists>m. look v' (d @ r) = Some (File m ''new'')" "look v (d @ r) = None"
  shows "issued d fs (insert r R) v'"
proof -
  have o: "look v' (d @ q) = look v (d @ q)" if "q \<noteq> r" for q using assms(2) that by (simp add: same_on_def)
  have f: "look fs (d @ r) = None" using assms(1,4) by (cases "look fs (d @ r)") (auto simp: issued_def)
  show ?thesis
    unfolding issued_def
  proof (intro conjI allI impI ballI)
    fix q n
    show "look fs (d @ q) = Some n \<Longrightarrow> look v' (d @ q) = Some n"
      using assms(1) o [of q] f by (cases "q = r") (auto simp: issued_def)
    show "look fs (d @ q) = None \<Longrightarrow> look v' (d @ q) = Some n \<Longrightarrow> ref_minted q n"
      using assms(1,3) o [of q] by (cases "q = r") (auto simp: issued_def ref_minted_def)
  next
    fix q
    show "q \<in> insert r R \<Longrightarrow> look v' (d @ q) \<noteq> None"
      using assms(1,3) o [of q] by (cases "q = r") (auto simp: issued_def)
  qed
qed

lemma issued_grown: "grown (d @ [''etcd'']) m fs v \<Longrightarrow> issued d fs {} v"
  unfolding issued_def grown_def ref_minted_def by (metis empty_iff node.simps(6) option.inject option.distinct(1))

lemma fwp_ref_assets:
  "fwp (seq (os_MkdirAll (d @ [''etcd'']) 0x1ED) (each pki_files (issue_file d)))
     (\<lambda>_. issued d fs (set pki_files)) (\<lambda>_ _. True) (\<lambda>_. True) fs"
proof (rule fwp_seq, rule fwp_MkdirAll, goal_cases)
  case (4 v)
  show ?case
  proof (rule fwp_each [where I = "\<lambda>dn. issued d fs (set dn)"], goal_cases)
    case 1
    then show ?case using issued_grown [OF 4(1)] by simp
  next
    case (2 dn r rest v')
    show ?case
    proof (rule fwp_issue_file, goal_cases)
      case (1 v2)
      then show ?case using issued_write [OF 2(2)] by simp
    next
      case 2
      then show ?case using \<open>issued d fs (set dn) v'\<close> by (simp add: issued_def)
    qed
  qed
qed simp_all

lemma keeps_issue_file:
  "d @ r \<notin> Z \<Longrightarrow> keeps (on_fs (same_on Z fs0)) (issue_file d r)" "keeps (on_fs wf_fs) (issue_file d r)"
  unfolding issue_file_def by (intro keeps_rules; simp)+

interpretation pkiref: kubeadm_pki pki_ref ref_complete ref_minted ref_conf
proof unfold_locales
  fix cfg :: "'g InitConfiguration" and d fs
  assume d: "clean_path d" "CertificatesDir cfg = path_text d"
  have asset: "CreatePKIAssets pki_ref cfg =
      (seq (os_MkdirAll (d @ [''etcd'']) 0x1ED) (each pki_files (issue_file d)) :: ('e, unit) io)"
    using d by (simp add: pki_ref_def)
  show "fwp (CreatePKIAssets pki_ref cfg :: ('e, unit) io)
      (\<lambda>_ v. ref_complete (sub v d) \<and> (\<forall>q n. look fs (d @ q) = Some n \<longrightarrow> look v (d @ q) = Some n) \<and>
          (\<forall>q n. look fs (d @ q) = None \<longrightarrow> look v (d @ q) = Some n \<longrightarrow> ref_minted q n))
      (\<lambda>_ _. True) (\<lambda>_. True) fs"
    unfolding asset
    by (rule fwp_mono [OF fwp_ref_assets]) (simp_all add: issued_def ref_complete_def sub_append)
  fix Z
  assume Z: "Z \<inter> (below d \<union> above d) = {}"
  have "above (d @ [''etcd'']) \<subseteq> below d \<union> above d" by (rule above_split) simp
  then show "keeps (on_fs (same_on Z fs)) (CreatePKIAssets pki_ref cfg :: ('e, unit) io)"
    using Z unfolding asset by (intro keeps_rules keeps_issue_file) auto
next
  show "keeps (on_fs wf_fs) (CreatePKIAssets pki_ref cfg :: ('e, unit) io)" for cfg :: "'g InitConfiguration"
    unfolding pki_ref_def Let_def pki_ext.simps by (intro keeps_rules keeps_issue_file)
  show "fwp (CreateKubeConfigFile pki_ref name d cfg :: ('e, unit) io)
      (\<lambda>_ v. \<exists>m b. look v (d @ [name]) = Some (File m b) \<and> ref_conf name (File m b)) (\<lambda>_ _. True) (\<lambda>_. True) fs"
    for name d fs and cfg :: "'g InitConfiguration"
    unfolding pki_ref_def pki_ext.simps by (rule fwp_WriteFile) (auto simp: ref_conf_def)
  show "Z \<inter> (below (d @ [name]) \<union> above d) = {} \<Longrightarrow>
      keeps (on_fs (same_on Z fs)) (CreateKubeConfigFile pki_ref name d cfg :: ('e, unit) io)"
    for name d fs Z and cfg :: "'g InitConfiguration"
    unfolding pki_ref_def pki_ext.simps by (rule keeps_WriteFile) auto
  show "keeps (on_fs wf_fs) (CreateKubeConfigFile pki_ref name d cfg :: ('e, unit) io)"
    for name d and cfg :: "'g InitConfiguration"
    unfolding pki_ref_def pki_ext.simps by (rule wf_WriteFile)
qed

section \<open>A sample PKI\<close>

text \<open>A node whose cluster CA is about to expire; everything else is fresh.\<close>

definition pki_fs :: fsys where
  "pki_fs = node_fs @
    [([''etc'', ''kubernetes'', ''pki''], Dir 0x1ED, 3),
     ([''etc'', ''kubernetes'', ''pki'', ''ca.crt''], File 0x1A4 ''stale'', 3),
     ([''etc'', ''kubernetes'', ''pki'', ''ca.key''], File 0x180 ''k'', 3),
     ([''etc'', ''kubernetes'', ''pki'', ''front-proxy-ca.crt''], File 0x1A4 ''f'', 3),
     ([''etc'', ''kubernetes'', ''pki'', ''etcd''], Dir 0x1ED, 3),
     ([''etc'', ''kubernetes'', ''pki'', ''etcd'', ''ca.crt''], File 0x1A4 ''e'', 3)]"

lemma wf_pki_fs [simp]: "wf_fs pki_fs" and pki_dir_pki_fs [simp]: "is_dir pki_fs [''etc'', ''kubernetes'', ''pki'']"
  by code_simp+

definition sample_cfg :: "unit InitConfiguration" where
  "sample_cfg = \<lparr>CertificatesDir = ''/etc/kubernetes/pki'', NodeName = ''n1'', CRISocket = [],
     KubernetesVersion = [], cfg_rest = ()\<rparr>"

section \<open>Properties\<close>

text \<open>C10: \<open>RegenerateCA\<close> replaces a CA without ever leaving the node without a PKI. On a normal
  return the CA, every leaf it signed and whatever was missing are newly issued, every other file of the PKI
  is the old one with its permission bits, the staging copy is gone, and each kubeconfig of that CA is newly
  written. On an error, and at every moment the power may be lost, the live PKI is entirely the old tree or
  entirely the new one, and each kubeconfig is the whole old or a whole new file.\<close>

theorem regenerate_ca:
  assumes "kubeadm_pki x complete minted conf" and "pki_layout (snd s)" and "wf_fs fs"
    and "is_dir fs (PKIDir (snd s))"
  shows "fwp (RegenerateCA x s ca)
    (\<lambda>_. regen_done complete minted conf (snd s) ca fs)
    (\<lambda>_. regen_safe complete minted conf (snd s) ca fs)
    (regen_safe complete minted conf (snd s) ca fs) fs"
  using assms by (rule kubeadm_pki.fwp_RegenerateCA)

theorem regenerate_ca_witness:
  "fwp (RegenerateCA pki_ref (NewSigner sample_cfg Default) CACluster)
    (\<lambda>_. regen_done ref_complete ref_minted ref_conf Default CACluster pki_fs)
    (\<lambda>_. regen_safe ref_complete ref_minted ref_conf Default CACluster pki_fs)
    (regen_safe ref_complete ref_minted ref_conf Default CACluster pki_fs) pki_fs"
  using regenerate_ca [OF pkiref.kubeadm_pki_axioms, of "NewSigner sample_cfg Default" pki_fs CACluster]
  by (simp add: NewSigner_def)

end
