(* ===== verification/Rotation.thy ===== *)
theory Rotation
  imports Signers
begin

text \<open>
  \<open>rotateCertsIfStale\<close> of \<open>internal/boot\<close>: the rotation pass of every boot, between the rendering of the
  manifests and the start of the kubelet. First every CA, then every leaf.
\<close>

section \<open>Operations\<close>

fun stale_leaves :: "(LeafKind \<times> LeafExpiry) list \<Rightarrow> LeafKind list \<Rightarrow> ('e, LeafKind list) io" where
  "stale_leaves report [] = ret []"
| "stale_leaves report (leaf # leaves) =
     (case map_of report leaf of
        None \<Rightarrow> stale_leaves report leaves
      | Some exp \<Rightarrow>
          if le_NotFound exp then stale_leaves report leaves
          else case le_Cert exp of
            None \<Rightarrow> throw (Msg ''panic: nil pointer dereference'')
          | Some c \<Rightarrow> bind (NeedsRotation c) (\<lambda>b.
              bind (stale_leaves report leaves) (\<lambda>rest. ret (if b then leaf # rest else rest))))"

definition rotate_ca :: "('e, 'g) pki_ext \<Rightarrow> 'g Signer \<Rightarrow> (CAKind \<times> CAExpiry) list \<Rightarrow> CAKind \<Rightarrow> ('e, unit) io" where
  "rotate_ca x signer report ca =
     (case map_of report ca of
        None \<Rightarrow> throw (Msg (''CA '' @ ca_string ca @ '' missing at boot: ''))
      | Some exp \<Rightarrow>
          if ce_NotFound exp
          then throw (Msg (''CA '' @ ca_string ca @ '' missing at boot: '' @ path_text (ce_Path exp)))
          else case ce_Cert exp of
            None \<Rightarrow> throw (Msg ''panic: nil pointer dereference'')
          | Some c \<Rightarrow> bind (NeedsRotation c) (\<lambda>b.
              if \<not> b then ret ()
              else seq (logf (''rotating CA '' @ ca_string ca))
                     (wrapf (''regenerate CA '' @ ca_string ca) (RegenerateCA x signer ca))))"

definition rotateCertsIfStale :: "('e, 'g) pki_ext \<Rightarrow> 'g InitConfiguration \<Rightarrow> Layout \<Rightarrow> ('e, unit) io" where
  "rotateCertsIfStale x cfg l =
     bind (wrapf ''check CAs'' (CheckCAs x l)) (\<lambda>caReport.
       let signer = NewSigner cfg l in
       seq (each AllCAs (rotate_ca x signer caReport))
      (bind (wrapf ''check leaves'' (CheckLeaves x cfg l)) (\<lambda>leafReport.
       bind (stale_leaves leafReport AllLeaves) (\<lambda>stale.
         if stale = [] then ret ()
         else seq (logf (''renewing '' @ itoa (length stale) @ '' expiring leaves''))
                (wrapf ''renew leaves'' (RenewLeaves x signer stale))))))"

section \<open>What the pass leaves alone\<close>

lemma keeps_rotateCertsIfStale:
  assumes "renewal_keeps x l P" and "\<And>ca. keeps (on_fs P) (RegenerateCA x (NewSigner cfg l) ca)"
  shows "keeps (on_fs P) (rotateCertsIfStale x cfg l)"
proof -
  have ca: "keeps (on_fs P) (rotate_ca x (NewSigner cfg l) report ca)" for report ca
    unfolding rotate_ca_def
    by (auto intro!: keeps_rules keeps_parse assms(2) split: option.split)
  have stale: "keeps (on_fs P) (stale_leaves report ks)" for report ks
    by (induction ks) (auto intro!: keeps_rules keeps_parse split: option.split)
  have renew: "keeps (on_fs P) (RenewLeaves x (NewSigner cfg l) ks)" for ks
    unfolding RenewLeaves_def renewalManager_def
    by (intro keeps_rules) (use assms(1) in \<open>simp_all add: NewSigner_def renewal_keeps_def\<close>)
  show ?thesis
    unfolding rotateCertsIfStale_def Let_def by (intro keeps_rules keeps_CheckCAs keeps_CheckLeaves assms(1) ca stale renew)
qed

section \<open>Properties\<close>

lemma each_never:
  assumes "a \<in> set xs" and "\<And>fs. fwp (f a) (\<lambda>_ _. False) (\<lambda>_ _. True) (\<lambda>_. True) fs"
    and "\<And>b fs. fwp (f b) (\<lambda>_ _. True) (\<lambda>_ _. True) (\<lambda>_. True) fs"
  shows "fwp (each xs f) (\<lambda>_ _. False) (\<lambda>_ _. True) (\<lambda>_. True) fs"
  using assms(1)
proof (induction xs arbitrary: fs)
  case (Cons b xs)
  show ?case
  proof (cases "b = a")
    case True
    then show ?thesis using assms(2) by (auto intro!: fwp_seq intro: fwp_mono [OF assms(2)])
  next
    case False
    then have "fwp (each xs f) (\<lambda>_ _. False) (\<lambda>_ _. True) (\<lambda>_. True) v" for v using Cons by simp
    then show ?thesis by (auto intro!: fwp_seq intro: fwp_mono [OF assms(3)])
  qed
qed simp

lemma fwp_True [simp]: "fwp m (\<lambda>_ _. True) (\<lambda>_ _. True) (\<lambda>_. True) fs"
  by (simp add: fwp_def wp_def split: outcome.split prod.split)

lemma ca_missing_reported:
  assumes "look fs (caCertPath l ca) = None" "map fst r = AllCAs" "list_all (ca_reported x l fs) r"
  shows "rotate_ca x s r ca = throw (Msg (''CA '' @ ca_string ca @ '' missing at boot: '' @ path_text (caCertPath l ca)))"
proof -
  have "ca \<in> set AllCAs" by (cases ca) (simp_all add: AllCAs_def)
  then obtain e where "(ca, e) \<in> set r" using assms(2) by (metis fst_conv imageE list.set_map prod.collapse)
  moreover have "distinct (map fst r)" by (simp add: assms(2) AllCAs_def)
  ultimately have "map_of r ca = Some e" "ca_reported x l fs (ca, e)" using assms(3) by (auto simp: list_all_iff)
  then show ?thesis using assms(1) by (simp add: rotate_ca_def ca_reported_def Let_def)
qed

text \<open>C24: with the certificate of any CA missing, the rotation pass never returns normally, whatever else is on disk and
  whatever the environment does: boot stops with an error. When it is the cluster CA, the first that is looked at,
  that has changed nothing, and the error names the missing file unless the CAs could not be read. (Before a missing
  etcd or front-proxy CA is reached, a stale CA that comes before it may have been regenerated.)\<close>

theorem rotate_missing_ca:
  assumes "look fs (caCertPath l ca) = None"
  shows "fwp (rotateCertsIfStale x cfg l) (\<lambda>_ _. False)
    (\<lambda>e v. ca = CACluster \<longrightarrow> v = fs \<and>
       (e = Msg (''CA ca missing at boot: '' @ path_text (caCertPath l CACluster)) \<or> (\<exists>cause. e = Wrapf ''check CAs'' cause)))
    (\<lambda>v. ca = CACluster \<longrightarrow> v = fs) fs"
proof -
  let ?E = "\<lambda>e v. ca = CACluster \<longrightarrow> v = fs \<and>
       (e = Msg (''CA ca missing at boot: '' @ path_text (caCertPath l CACluster)) \<or> (\<exists>cause. e = Wrapf ''check CAs'' cause))"
  have missing: "fwp (each AllCAs (rotate_ca x s r)) (\<lambda>_ _. False) ?E (\<lambda>v. ca = CACluster \<longrightarrow> v = fs) fs"
    if r: "map fst r = AllCAs" "list_all (ca_reported x l fs) r" for r s
  proof (cases "ca = CACluster")
    case True
    note gone = ca_missing_reported [OF assms r, of s, unfolded True]
    show ?thesis
      by (simp add: AllCAs_def, rule fwp_seq, unfold gone, rule fwp_throw) simp
  next
    case False
    have "fwp (each AllCAs (rotate_ca x s r)) (\<lambda>_ _. False) (\<lambda>_ _. True) (\<lambda>_. True) fs"
    proof (rule each_never)
      show "ca \<in> set AllCAs" by (cases ca) (simp_all add: AllCAs_def)
      show "fwp (rotate_ca x s r ca) (\<lambda>_ _. False) (\<lambda>_ _. True) (\<lambda>_. True) v" for v
        unfolding ca_missing_reported [OF assms r] by (simp add: fwp_throw)
    qed simp
    then show ?thesis using False by (auto intro: fwp_mono)
  qed
  show ?thesis
    unfolding rotateCertsIfStale_def Let_def CheckCAs_def
    by (intro fwp_bind fwp_wrapf fwp_check_cas fwp_seq)
      (auto intro: fwp_mono [OF missing])
qed

theorem rotate_missing_ca_witness:
  "\<exists>w. rotateCertsIfStale pki_ref sample_cfg Default (world_at calm_orc node_fs) =
       (Err (Msg ''CA ca missing at boot: /etc/kubernetes/pki/ca.crt''), w) \<and> w_fs w = node_fs"
proof -
  let ?r = "rotateCertsIfStale pki_ref sample_cfg Default (world_at calm_orc node_fs)"
  have gone: "look node_fs (caCertPath Default CACluster) = None" by code_simp
  have "fst ?r = Err (Msg ''CA ca missing at boot: /etc/kubernetes/pki/ca.crt'')" by code_simp
  then obtain w where r: "?r = (Err (Msg ''CA ca missing at boot: /etc/kubernetes/pki/ca.crt''), w)" by (cases ?r) simp
  then show ?thesis using fwp_Err [OF rotate_missing_ca [OF gone] _ r] by simp
qed

section \<open>A rotation that is cut off\<close>

text \<open>
  A small node and an issuer of the cluster CA only: the CA is about to expire, the certificate in
  \<open>admin.conf\<close> is good for a year.
\<close>

definition small_ext :: "(unit, unit) pki_ext" where
  "small_ext = pki_ref\<lparr>CreatePKIAssets := (\<lambda>cfg.
     each [[''ca.crt''], [''ca.key'']] (issue_file (abs_path (CertificatesDir cfg))))\<rparr>"

definition small_fs :: fsys where
  "small_fs =
    [([], Dir 0x1ED, 0), ([''etc''], Dir 0x1ED, 0), ([''etc'', ''kubernetes''], Dir 0x1ED, 3),
     ([''etc'', ''kubernetes'', ''admin.conf''], File 0x180 ''adm'', 3),
     ([''etc'', ''kubernetes'', ''pki''], Dir 0x1ED, 3),
     ([''etc'', ''kubernetes'', ''pki'', ''ca.crt''], File 0x1A4 ''stale'', 3),
     ([''etc'', ''kubernetes'', ''pki'', ''front-proxy-ca.crt''], File 0x1A4 ''f'', 3),
     ([''etc'', ''kubernetes'', ''pki'', ''etcd''], Dir 0x1ED, 3),
     ([''etc'', ''kubernetes'', ''pki'', ''etcd'', ''ca.crt''], File 0x1A4 ''e'', 3)]"

definition cut_run :: "unit outcome \<times> unit world" where
  "cut_run = rotateCertsIfStale small_ext sample_cfg Default (world_at (crash_orc 55) small_fs)"

text \<open>The disk after a power loss between the swap of the PKI and the first kubeconfig.\<close>

definition cut_fs :: fsys where
  "cut_fs =
    [([''etc'', ''kubernetes'', ''pki'', ''ca.key''], File 0x180 ''new'', 145),
     ([''etc'', ''kubernetes'', ''pki'', ''ca.crt''], File 0x180 ''new'', 141),
     ([''etc'', ''kubernetes'', ''pki'', ''front-proxy-ca.crt''], File 0x1A4 ''f'', 131),
     ([''etc'', ''kubernetes'', ''pki'', ''etcd'', ''ca.crt''], File 0x1A4 ''e'', 126),
     ([''etc'', ''kubernetes'', ''pki'', ''etcd''], Dir 0x1ED, 124),
     ([''etc'', ''kubernetes'', ''pki''], Dir 0x1ED, 143), ([], Dir 0x1ED, 0), ([''etc''], Dir 0x1ED, 0),
     ([''etc'', ''kubernetes''], Dir 0x1ED, 155),
     ([''etc'', ''kubernetes'', ''admin.conf''], File 0x180 ''adm'', 3)]"

lemma cut_run_eq: "fst cut_run = Crash \<and> w_fs (snd cut_run) = cut_fs"
  unfolding cut_run_def by code_simp

lemma next_boot_eq:
  "fst (rotateCertsIfStale small_ext sample_cfg Default (world_at calm_orc cut_fs)) = Ok () \<and>
   w_fs (snd (rotateCertsIfStale small_ext sample_cfg Default (world_at calm_orc cut_fs))) = cut_fs"
  by code_simp

text \<open>C25: a rotation that loses power after the PKI swap is not repaired by the next boot, against the
  comment on \<open>RegenerateCA\<close>: the new CA is in place, the next rotation pass returns normally, finds nothing
  to do, and \<open>admin.conf\<close> still holds the certificate of the old CA, because \<open>NeedsRotation\<close> looks at
  lifetimes only.\<close>

theorem cut_rotation_not_repaired:
  "fst cut_run = Crash \<and>
   look (w_fs (snd cut_run)) (caCertPath Default CACluster) = Some (File 0x180 ''new'') \<and>
   fst (rotateCertsIfStale small_ext sample_cfg Default (world_at calm_orc (w_fs (snd cut_run)))) = Ok () \<and>
   look (w_fs (snd (rotateCertsIfStale small_ext sample_cfg Default (world_at calm_orc (w_fs (snd cut_run))))))
     (AdminKubeconfig Default) = look small_fs (AdminKubeconfig Default)"
proof -
  have "look cut_fs (caCertPath Default CACluster) = Some (File 0x180 ''new'') \<and>
      look cut_fs (AdminKubeconfig Default) = look small_fs (AdminKubeconfig Default)"
    by code_simp
  then show ?thesis using cut_run_eq next_boot_eq by simp
qed

end
