(* ===== verification/Kubeadm.thy ===== *)
theory Kubeadm
  imports Signers "HOL-Library.AList"
begin

text \<open>
  \<open>internal/kubeadm\<close>: the kubeadm phases of every boot (\<open>ensure.go\<close>, \<open>addons.go\<close>), the break-glass
  kubeconfig (\<open>kubeconfig.go\<close>) and the step that points \<open>kubelet.conf\<close> at the certificate kubelet
  rotates for itself (\<open>kubeletfinalize.go\<close>).

  kubeadm's phases are the record \<open>phases\<close>; where one gets a part of the configuration
  (\<open>ClusterConfiguration\<close>, \<open>LocalAPIEndpoint\<close>, \<open>NodeRegistration\<close>), it is given the whole of it here.
  What client-go promises of a kubeconfig file it writes and reads is the locale \<open>kubeconfig_files\<close>,
  interpreted on a codec of our own; what kubeadm promises about where a phase writes is the locale
  \<open>phase_frames\<close>.
\<close>

section \<open>External code\<close>

record ('e, 'g, 'c) phases =
  CreateLocalEtcdStaticPodManifestFile :: "path \<Rightarrow> string \<Rightarrow> string \<Rightarrow> 'g InitConfiguration \<Rightarrow> bool \<Rightarrow> ('e, unit) io"
  CreateInitStaticPodManifestFiles :: "path \<Rightarrow> string \<Rightarrow> 'g InitConfiguration \<Rightarrow> bool \<Rightarrow> ('e, unit) io"
  WriteKubeletDynamicEnvFile :: "'g InitConfiguration \<Rightarrow> bool \<Rightarrow> path \<Rightarrow> ('e, unit) io"
  WriteInstanceConfigToDisk :: "string \<Rightarrow> path \<Rightarrow> ('e, unit) io"
  WriteConfigToDisk :: "'g InitConfiguration \<Rightarrow> path \<Rightarrow> string \<Rightarrow> ('e, unit) io"
  EnsureDNSAddon :: "'g InitConfiguration \<Rightarrow> 'c \<Rightarrow> string \<Rightarrow> bool \<Rightarrow> ('e, unit) io"
  EnsureProxyAddon :: "'g InitConfiguration \<Rightarrow> 'c \<Rightarrow> bool \<Rightarrow> ('e, unit) io"
  EnsureAdminClusterRoleBinding :: "path \<Rightarrow> 'g InitConfiguration \<Rightarrow> ('e, 'c) io"
  MarkControlPlane :: "'c \<Rightarrow> string \<Rightarrow> 'g InitConfiguration \<Rightarrow> ('e, unit) io"
  AutoApproveNodeCertificateRotation :: "'c \<Rightarrow> ('e, unit) io"
  AllowAPIServerToAccessKubeletAPI :: "'c \<Rightarrow> ('e, unit) io"

section \<open>Operations\<close>

definition Ensure :: "('e, 'g, 'c) phases \<Rightarrow> 'g InitConfiguration \<Rightarrow> Layout \<Rightarrow> ('e, unit) io" where
  "Ensure ph cfg l =
     seq (each [ManifestsDir l, KubeletDir l] (\<lambda>dir.
            wrapf (''mkdir '' @ path_text dir) (os_MkdirAll dir 0x1ED)))
    (let cfg = cfg\<lparr>CertificatesDir := path_text (PKIDir l)\<rparr>; patchesDir = []; isDryRun = False in
     seq (wrapf ''create etcd manifest''
            (CreateLocalEtcdStaticPodManifestFile ph (ManifestsDir l) patchesDir (NodeName cfg) cfg isDryRun))
    (seq (wrapf ''create control plane manifests''
            (CreateInitStaticPodManifestFiles ph (ManifestsDir l) patchesDir cfg isDryRun))
    (seq (wrapf ''write kubelet env file'' (WriteKubeletDynamicEnvFile ph cfg False (KubeletDir l)))
    (seq (wrapf ''write kubelet instance config''
            (WriteInstanceConfigToDisk ph (CRISocket cfg) (KubeletDir l)))
         (wrapf ''write kubelet config'' (WriteConfigToDisk ph cfg (KubeletDir l) patchesDir))))))"

definition EnsureAddons :: "('e, 'g, 'c) phases \<Rightarrow> 'g InitConfiguration \<Rightarrow> 'c \<Rightarrow> ('e, unit) io" where
  "EnsureAddons ph cfg client =
     (let patchesDir = []; printManifest = False in
      seq (wrapf ''ensure CoreDNS'' (EnsureDNSAddon ph cfg client patchesDir printManifest))
          (wrapf ''ensure kube-proxy'' (EnsureProxyAddon ph cfg client printManifest)))"

definition WriteSuperAdminKubeconfig :: "('e, 'g) pki_ext \<Rightarrow> 'g InitConfiguration \<Rightarrow> Layout \<Rightarrow> ('e, unit) io" where
  "WriteSuperAdminKubeconfig x cfg l =
     (let own = cfg\<lparr>CertificatesDir := path_text (PKIDir l)\<rparr> in
      wrapf ''create super-admin kubeconfig''
        (CreateKubeConfigFile x ''super-admin.conf'' (KubernetesDir l) own))"

text \<open>The verb \<open>%q\<close>: a quoted string with Go's escapes. Text that is not ASCII is taken to be printable.\<close>

definition quote_char :: "char \<Rightarrow> string" where
  "quote_char c =
     (let n = of_char c :: nat; bs = CHR 0x5C in
      if c = CHR 0x22 \<or> c = bs then [bs, c]
      else case map_of [(7, CHR ''a''), (8, CHR ''b''), (9, CHR ''t''), (10, CHR ''n''), (11, CHR ''v''), (12, CHR ''f''), (13, CHR ''r'')] n of
        Some d \<Rightarrow> [bs, d]
      | None \<Rightarrow> if n < 32 \<or> n = 127 then [bs, CHR ''x'', hex_digit (n div 16), hex_digit (n mod 16)] else [c])"

definition quoted :: "string \<Rightarrow> string" where
  "quoted s = CHR 0x22 # concat (map quote_char s) @ [CHR 0x22]"

definition pem_path :: "Layout \<Rightarrow> path" where
  "pem_path l = Join (Join (KubeletDir l) ''pki'') ''kubelet-client-current.pem''"

text \<open>The fields of a user that \<open>FinalizeKubeletKubeconfig\<close> compares and sets.\<close>

definition refers_to :: "path \<Rightarrow> AuthInfo \<Rightarrow> bool" where
  "refers_to pem ai \<longleftrightarrow> ClientCertificate ai = path_text pem \<and> ClientKey ai = path_text pem \<and>
     ClientCertificateData ai = [] \<and> ClientKeyData ai = []"

definition refer_to :: "path \<Rightarrow> AuthInfo \<Rightarrow> AuthInfo" where
  "refer_to pem ai = ai\<lparr>ClientCertificateData := [], ClientKeyData := [],
     ClientCertificate := path_text pem, ClientKey := path_text pem\<rparr>"

text \<open>
  \<open>info\<close> is a pointer into the map of users, so setting its fields changes the loaded configuration.
\<close>

definition FinalizeKubeletKubeconfig :: "('e, 'g) pki_ext \<Rightarrow> Layout \<Rightarrow> ('e, bool) io" where
  "FinalizeKubeletKubeconfig x l =
     (let pem = pem_path l; conf = KubeletKubeconfig l in
      bind (attempt (os_Stat pem)) (\<lambda>r. case r of
        Inl e \<Rightarrow> if IsNotExist e then ret False else throw (Wrapf (''stat '' @ path_text pem) e)
      | Inr _ \<Rightarrow>
          bind (wrapf (''load '' @ path_text conf) (LoadFromFile x conf)) (\<lambda>cfg.
          case map_of (Contexts cfg) (CurrentContext cfg) of
            None \<Rightarrow> throw (Msg (path_text conf @ '': current-context '' @ quoted (CurrentContext cfg) @ '' not in context list''))
          | Some user \<Rightarrow>
            (case map_of (AuthInfos cfg) user of
               None \<Rightarrow> throw (Msg (path_text conf @ '': no user '' @ quoted user @ '' for current-context''))
             | Some info \<Rightarrow>
                 if refers_to pem info then ret False
                 else seq (wrapf (''write '' @ path_text conf)
                             (WriteToFile x (cfg\<lparr>AuthInfos := AList.update user (refer_to pem info) (AuthInfos cfg)\<rparr>) conf))
                          (ret True)))))"

section \<open>Kubeconfig files\<close>

text \<open>
  client-go reads a file and decodes it, encodes a configuration and writes the file in place; what
  is decoded agrees with what was encoded up to the order of the two maps.
\<close>

definition same_conf :: "Kubeconfig \<Rightarrow> Kubeconfig \<Rightarrow> bool" where
  "same_conf k k' \<longleftrightarrow> CurrentContext k' = CurrentContext k \<and> kc_rest k' = kc_rest k \<and>
     map_of (Contexts k') = map_of (Contexts k) \<and> map_of (AuthInfos k') = map_of (AuthInfos k)"

locale kubeconfig_files =
  fixes x :: "('e, 'g) pki_ext" and parse :: "string \<Rightarrow> Kubeconfig option" and render :: "Kubeconfig \<Rightarrow> string"
  assumes codec: "\<And>k. \<exists>k'. parse (render k) = Some k' \<and> same_conf k k'"
    and load: "\<And>p fs. fwp (LoadFromFile x p)
      (\<lambda>k v. v = fs \<and> (\<exists>m s. look fs p = Some (File m s) \<and> parse s = Some k)) (\<lambda>_ v. v = fs) (\<lambda>v. v = fs) fs"
    and write_conf: "\<And>k p fs. is_dir fs (Dir_of p) \<Longrightarrow> fwp (WriteToFile x k p)
      (\<lambda>_ v. same_on (- {p}) fs v \<and> (\<exists>m. look v p = Some (File m (render k))))
      (\<lambda>_ v. same_on (- {p}) fs v) (\<lambda>v. same_on (- {p}) fs v) fs"

definition current_user :: "Kubeconfig \<Rightarrow> AuthInfo option" where
  "current_user k = (case map_of (Contexts k) (CurrentContext k) of
     None \<Rightarrow> None | Some user \<Rightarrow> map_of (AuthInfos k) user)"

text \<open>
  The kubeconfig in a file, and what a finalized one is meant to be: one user has changed, the one of the current
  context, and of that user the four fields that name its certificate and key.
\<close>

definition conf_at :: "(string \<Rightarrow> Kubeconfig option) \<Rightarrow> fsys \<Rightarrow> path \<Rightarrow> Kubeconfig option" where
  "conf_at parse fs p = (case look fs p of Some (File m s) \<Rightarrow> parse s | _ \<Rightarrow> None)"

definition uses_only :: "path \<Rightarrow> AuthInfo \<Rightarrow> bool" where
  "uses_only pem ai \<longleftrightarrow> ClientKey ai = path_text pem \<and> ClientCertificate ai = path_text pem \<and>
     ClientKeyData ai = [] \<and> ClientCertificateData ai = []"

definition finalized :: "path \<Rightarrow> Kubeconfig \<Rightarrow> Kubeconfig \<Rightarrow> bool" where
  "finalized pem k k' \<longleftrightarrow>
     CurrentContext k' = CurrentContext k \<and> kc_rest k' = kc_rest k \<and> map_of (Contexts k') = map_of (Contexts k) \<and>
     (\<exists>user ai ai'. map_of (Contexts k) (CurrentContext k) = Some user \<and>
        map_of (AuthInfos k) user = Some ai \<and> map_of (AuthInfos k') user = Some ai' \<and>
        uses_only pem ai' \<and> ai_rest ai' = ai_rest ai \<and>
        (\<forall>u. u \<noteq> user \<longrightarrow> map_of (AuthInfos k') u = map_of (AuthInfos k) u))"

lemma refers_to_uses_only: "refers_to pem ai = uses_only pem ai"
  by (auto simp: refers_to_def uses_only_def)

lemma finalizedI:
  assumes "map_of (Contexts k) (CurrentContext k) = Some user" "map_of (AuthInfos k) user = Some ai"
    and "same_conf (k\<lparr>AuthInfos := AList.update user (refer_to pem ai) (AuthInfos k)\<rparr>) k'"
  shows "finalized pem k k'"
  using assms by (auto simp: finalized_def same_conf_def uses_only_def refer_to_def update_conv')

lemma finalized_user: "finalized pem k k' \<Longrightarrow> \<exists>ai. current_user k' = Some ai \<and> uses_only pem ai"
  by (auto simp: finalized_def current_user_def)

context kubeconfig_files begin

lemma keeps_load: "keeps (on_fs P) (LoadFromFile x p)"
  by (rule keeps_fwp, rule fwp_mono [OF load]) auto

text \<open>The whole of \<open>FinalizeKubeletKubeconfig\<close>, on every way out.\<close>

lemma fwp_Finalize:
  assumes "is_dir fs (Dir_of (KubeletKubeconfig l))"
  defines "conf \<equiv> KubeletKubeconfig l"
  shows "fwp (FinalizeKubeletKubeconfig x l)
    (\<lambda>changed v. same_on (- {conf}) fs v \<and>
       (if changed then look fs (pem_path l) \<noteq> None \<and>
          (\<exists>k k'. conf_at parse fs conf = Some k \<and> conf_at parse v conf = Some k' \<and> finalized (pem_path l) k k')
        else v = fs \<and> (look fs (pem_path l) = None \<or>
          (\<exists>k ai. conf_at parse fs conf = Some k \<and> current_user k = Some ai \<and> uses_only (pem_path l) ai))))
    (\<lambda>_ v. same_on (- {conf}) fs v) (\<lambda>v. same_on (- {conf}) fs v) fs"
  unfolding FinalizeKubeletKubeconfig_def Let_def conf_def [symmetric]
proof (rule fwp_bind, rule fwp_attempt, rule fwp_Stat, goal_cases)
  case (4 n t)
  then have pem: "look fs (pem_path l) \<noteq> None" by (auto dest: look_map_of)
  have loaded: "fwp (case map_of (Contexts k) (CurrentContext k) of
        None \<Rightarrow> throw (Msg s1)
      | Some user \<Rightarrow> (case map_of (AuthInfos k) user of None \<Rightarrow> throw (Msg (s2 user))
        | Some info \<Rightarrow> if refers_to (pem_path l) info then ret False
           else seq (wrapf s3 (WriteToFile x (k\<lparr>AuthInfos := AList.update user (refer_to (pem_path l) info) (AuthInfos k)\<rparr>) conf)) (ret True)))
    (\<lambda>changed v. same_on (- {conf}) fs v \<and>
       (if changed then look fs (pem_path l) \<noteq> None \<and>
          (\<exists>k k'. conf_at parse fs conf = Some k \<and> conf_at parse v conf = Some k' \<and> finalized (pem_path l) k k')
        else v = fs \<and> (look fs (pem_path l) = None \<or>
          (\<exists>k ai. conf_at parse fs conf = Some k \<and> current_user k = Some ai \<and> uses_only (pem_path l) ai))))
    (\<lambda>_ v. same_on (- {conf}) fs v) (\<lambda>v. same_on (- {conf}) fs v) fs"
    if k: "conf_at parse fs conf = Some k" for k s1 s2 s3
  proof (intro fwp_case_option fwp_if fwp_throw fwp_ret fwp_seq fwp_wrapf, goal_cases)
    case (4 user info)
    let ?k = "k\<lparr>AuthInfos := AList.update user (refer_to (pem_path l) info) (AuthInfos k)\<rparr>"
    obtain k' where k': "parse (render ?k) = Some k'" "same_conf ?k k'" using codec by blast
    then have "finalized (pem_path l) k k'" using 4(1,2) by (intro finalizedI)
    with k k' pem show ?case
      by (intro fwp_mono [OF write_conf]) (use assms in \<open>auto intro!: fwp_ret simp: conf_at_def\<close>)
  qed (use k in \<open>auto simp: current_user_def refers_to_uses_only\<close>)
  show ?case
    by (simp only: sum.case, rule fwp_bind, rule fwp_wrapf, rule fwp_mono [OF load], elim conjE exE, hypsubst, rule loaded)
      (auto simp: conf_at_def)
qed (auto intro!: fwp_if fwp_ret fwp_throw)

text \<open>A file that already refers to the rotated certificate is left alone.\<close>

lemma fwp_Finalize_again:
  assumes "is_dir fs (Dir_of (KubeletKubeconfig l))"
    and "conf_at parse fs (KubeletKubeconfig l) = Some k" "current_user k = Some ai" "uses_only (pem_path l) ai"
  shows "fwp (FinalizeKubeletKubeconfig x l) (\<lambda>changed v. \<not> changed \<and> v = fs) (\<lambda>_ v. v = fs) (\<lambda>v. v = fs) fs"
  unfolding FinalizeKubeletKubeconfig_def Let_def
proof (rule fwp_bind, rule fwp_attempt, rule fwp_Stat, goal_cases)
  case (4 n t)
  show ?case
    using assms(2-4)
    by (simp only: sum.case, intro fwp_bind fwp_wrapf fwp_mono [OF load])
      (auto simp: conf_at_def current_user_def refers_to_uses_only split: option.splits intro!: fwp_ret)
qed (auto intro!: fwp_if fwp_ret fwp_throw)

text \<open>
  A file without a user for its current context, as one that was truncated is, cannot be repaired by the call:
  it returns no result, and no way out changes the file.
\<close>

lemma fwp_Finalize_stuck:
  assumes "look fs (pem_path l) \<noteq> None"
    and "\<And>k. conf_at parse fs (KubeletKubeconfig l) = Some k \<Longrightarrow> current_user k = None"
  shows "fwp (FinalizeKubeletKubeconfig x l) (\<lambda>_ _. False) (\<lambda>_ v. v = fs) (\<lambda>v. v = fs) fs"
  unfolding FinalizeKubeletKubeconfig_def Let_def
proof (rule fwp_bind, rule fwp_attempt, rule fwp_Stat, goal_cases)
  case (4 n t)
  have none: "current_user k = None"
    if "look fs (KubeletKubeconfig l) = Some (File m s)" "parse s = Some k" for k m s
    using assms(2) that by (simp add: conf_at_def)
  show ?case
    by (simp only: sum.case, intro fwp_bind fwp_wrapf fwp_mono [OF load], elim conjE exE, frule (1) none)
      (auto simp: current_user_def split: option.splits intro!: fwp_throw)
qed (use assms(1) in \<open>auto intro!: fwp_if fwp_ret fwp_throw simp: look_def\<close>)

end

section \<open>A reference codec\<close>

text \<open>
  A configuration as a list of strings and the list as one string; the client built from it reads and
  writes whole files. It shows that the contract can be met.
\<close>

fun enc_items :: "string list \<Rightarrow> string" where
  "enc_items [] = []"
| "enc_items (s # ss) = concat (map (\<lambda>c. [CHR ''='', c]) s) @ CHR '';'' # enc_items ss"

fun dec_items :: "string \<Rightarrow> string \<Rightarrow> string list" where
  "dec_items acc (c # d # s) =
     (if c = CHR ''='' then dec_items (acc @ [d]) s else acc # dec_items [] (d # s))"
| "dec_items acc [c] = [acc]"
| "dec_items acc [] = []"

fun conf_items :: "(string \<times> string) list \<Rightarrow> (string \<times> AuthInfo) list \<Rightarrow> string list" where
  "conf_items ((c, u) # cs) as = ''c'' # c # u # conf_items cs as"
| "conf_items [] ((u, a) # as) = ''a'' # u # ClientCertificate a # ClientKey a # ClientCertificateData a #
     ClientKeyData a # ai_rest a # conf_items [] as"
| "conf_items [] [] = []"

fun items_conf :: "string list \<Rightarrow> (string \<times> string) list \<times> (string \<times> AuthInfo) list" where
  "items_conf (t # c # u # r) =
     (if t = ''c'' then let (cs, as) = items_conf r in ((c, u) # cs, as)
      else case r of
        k # d # e # s # r' \<Rightarrow> let (cs, as) = items_conf r' in
          (cs, (c, \<lparr>ClientCertificate = u, ClientKey = k, ClientCertificateData = d, ClientKeyData = e, ai_rest = s\<rparr>) # as)
      | _ \<Rightarrow> ([], []))"
| "items_conf _ = ([], [])"

definition render_ref :: "Kubeconfig \<Rightarrow> string" where
  "render_ref k = enc_items (CurrentContext k # kc_rest k # conf_items (Contexts k) (AuthInfos k))"

definition parse_ref :: "string \<Rightarrow> Kubeconfig option" where
  "parse_ref s = (case dec_items [] s of
     c # r # is \<Rightarrow> let (cs, as) = items_conf is in
       Some \<lparr>CurrentContext = c, Contexts = cs, AuthInfos = as, kc_rest = r\<rparr>
   | [] \<Rightarrow> Some \<lparr>CurrentContext = [], Contexts = [], AuthInfos = [], kc_rest = []\<rparr>
   | _ \<Rightarrow> None)"

definition conf_ref :: "('e, 'g) pki_ext" where
  "conf_ref = pki_ref\<lparr>
     LoadFromFile := (\<lambda>p. bind (os_ReadFile p) (\<lambda>s. case parse_ref s of
        None \<Rightarrow> throw (Msg ''invalid kubeconfig'') | Some k \<Rightarrow> ret k)),
     WriteToFile := (\<lambda>k p. os_WriteFile p (render_ref k) 0x180)\<rparr>"

lemma dec_items_char: "dec_items acc (concat (map (\<lambda>c. [CHR ''='', c]) s) @ CHR '';'' # t) = dec_items (acc @ s) (CHR '';'' # t)"
  by (induction s arbitrary: acc) simp_all

lemma dec_items_sep: "dec_items acc (CHR '';'' # t) = acc # dec_items [] t"
  by (cases t) simp_all

lemma dec_enc_items [simp]: "dec_items [] (enc_items ss) = ss"
  by (induction ss) (simp_all add: dec_items_char dec_items_sep)

lemma items_conf_conf_items [simp]: "items_conf (conf_items cs as) = (cs, as)"
  by (induction cs as rule: conf_items.induct) simp_all

lemma parse_render_ref [simp]: "parse_ref (render_ref k) = Some k"
  unfolding parse_ref_def render_ref_def dec_enc_items by simp

lemma conf_ref_simps:
  "LoadFromFile conf_ref p = bind (os_ReadFile p) (\<lambda>s. case parse_ref s of
     None \<Rightarrow> throw (Msg ''invalid kubeconfig'') | Some k \<Rightarrow> ret k)"
  "WriteToFile conf_ref k p = os_WriteFile p (render_ref k) 0x180"
  by (simp_all add: conf_ref_def)

interpretation confref: kubeconfig_files conf_ref parse_ref render_ref
proof unfold_locales
  show "\<exists>k'. parse_ref (render_ref k) = Some k' \<and> same_conf k k'" for k
    by (simp add: same_conf_def)
  show "fwp (LoadFromFile conf_ref p)
      (\<lambda>k v. v = fs \<and> (\<exists>m s. look fs p = Some (File m s) \<and> parse_ref s = Some k)) (\<lambda>_ v. v = fs) (\<lambda>v. v = fs) fs" for p fs
    unfolding conf_ref_simps
    by (intro fwp_bind fwp_ReadFile fwp_case_option fwp_throw fwp_ret) auto
  show "fwp (WriteToFile conf_ref k p)
      (\<lambda>_ v. same_on (- {p}) fs v \<and> (\<exists>m. look v p = Some (File m (render_ref k))))
      (\<lambda>_ v. same_on (- {p}) fs v) (\<lambda>v. same_on (- {p}) fs v) fs" for k p fs
    unfolding conf_ref_simps by (rule fwp_WriteFile) auto
qed

section \<open>Where the phases write\<close>

locale phase_frames =
  fixes ph :: "('e, 'g, 'c) phases"
  assumes etcd_frame: "Z \<inter> (below d \<union> above d) = {} \<Longrightarrow>
      keeps (on_fs (same_on Z fs)) (CreateLocalEtcdStaticPodManifestFile ph d pd n cfg dry)"
    and static_pods_frame: "Z \<inter> (below d \<union> above d) = {} \<Longrightarrow>
      keeps (on_fs (same_on Z fs)) (CreateInitStaticPodManifestFiles ph d pd cfg dry)"
    and env_frame: "Z \<inter> (below d \<union> above d) = {} \<Longrightarrow>
      keeps (on_fs (same_on Z fs)) (WriteKubeletDynamicEnvFile ph cfg reg d)"
    and instance_frame: "Z \<inter> (below d \<union> above d) = {} \<Longrightarrow>
      keeps (on_fs (same_on Z fs)) (WriteInstanceConfigToDisk ph s d)"
    and config_frame: "Z \<inter> (below d \<union> above d) = {} \<Longrightarrow>
      keeps (on_fs (same_on Z fs)) (WriteConfigToDisk ph cfg d pd)"
begin

lemma keeps_Ensure:
  assumes "ManifestsDir l \<noteq> []" "KubeletDir l \<noteq> []"
    and "Z \<inter> (below (ManifestsDir l) \<union> above (ManifestsDir l)) = {}"
    and "Z \<inter> (below (KubeletDir l) \<union> above (KubeletDir l)) = {}"
  shows "keeps (on_fs (same_on Z fs)) (Ensure ph cfg l)"
  unfolding Ensure_def Let_def
  by (intro keeps_seq keeps_each keeps_wrapf etcd_frame static_pods_frame env_frame instance_frame config_frame keeps_MkdirAll)
    (use assms in auto)

end

definition phases_ref :: "('e, 'g, unit) phases" where
  "phases_ref = \<lparr>
     CreateLocalEtcdStaticPodManifestFile = (\<lambda>d pd n cfg dry. os_WriteFile (d @ [''etcd.yaml'']) n 0x180),
     CreateInitStaticPodManifestFiles = (\<lambda>d pd cfg dry. each [''kube-apiserver.yaml'', ''kube-controller-manager.yaml'', ''kube-scheduler.yaml'']
        (\<lambda>f. os_WriteFile (d @ [f]) (CertificatesDir cfg) 0x180)),
     WriteKubeletDynamicEnvFile = (\<lambda>cfg reg d. os_WriteFile (d @ [''kubeadm-flags.env'']) (NodeName cfg) 0x1A4),
     WriteInstanceConfigToDisk = (\<lambda>s d. os_WriteFile (d @ [''instance-config.yaml'']) s 0x1A4),
     WriteConfigToDisk = (\<lambda>cfg d pd. os_WriteFile (d @ [''config.yaml'']) (KubernetesVersion cfg) 0x1A4),
     EnsureDNSAddon = (\<lambda>cfg c pd pm. ret ()), EnsureProxyAddon = (\<lambda>cfg c pm. ret ()),
     EnsureAdminClusterRoleBinding = (\<lambda>d cfg. ret ()), MarkControlPlane = (\<lambda>c n cfg. ret ()),
     AutoApproveNodeCertificateRotation = (\<lambda>c. ret ()), AllowAPIServerToAccessKubeletAPI = (\<lambda>c. ret ())\<rparr>"

interpretation phref: phase_frames phases_ref
  unfolding phases_ref_def
  by unfold_locales (simp_all only: phases.simps, (intro keeps_each keeps_WriteFile; auto)+)

section \<open>Properties\<close>


text \<open>A node after its first kubelet start: the rotated certificate is there, \<open>kubelet.conf\<close> embeds the old one.\<close>

definition embedded_conf :: Kubeconfig where
  "embedded_conf = \<lparr>CurrentContext = ''c'', Contexts = [(''c'', ''u'')],
     AuthInfos = [(''u'', \<lparr>ClientCertificate = [], ClientKey = [], ClientCertificateData = ''old'', ClientKeyData = ''key'', ai_rest = []\<rparr>)],
     kc_rest = ''srv''\<rparr>"

definition first_boot_fs :: fsys where
  "first_boot_fs =
    [([], Dir 0x1ED, 0), ([''etc''], Dir 0x1ED, 0), ([''etc'', ''kubernetes''], Dir 0x1ED, 3),
     (KubeletKubeconfig Default, File 0x180 (render_ref embedded_conf), 3), ([''var''], Dir 0x1ED, 0), ([''var'', ''lib''], Dir 0x1ED, 0),
     ([''var'', ''lib'', ''kubelet''], Dir 0x1ED, 0), ([''var'', ''lib'', ''kubelet'', ''pki''], Dir 0x1ED, 0),
     (pem_path Default, File 0x180 ''rotated'', 4)]"

lemma first_boot_dir: "is_dir first_boot_fs (Dir_of (KubeletKubeconfig Default))"
  by code_simp


text \<open>\<open>FinalizeKubeletKubeconfig\<close> is idempotent: called again after any normal return, it reports no change.\<close>

theorem finalize_idempotent:
  assumes "kubeconfig_files x parse render" and "is_dir fs (Dir_of (KubeletKubeconfig l))" and "KubeletKubeconfig l \<noteq> []"
  shows "fwp (bind (FinalizeKubeletKubeconfig x l) (\<lambda>_. FinalizeKubeletKubeconfig x l))
    (\<lambda>changed _. \<not> changed) (\<lambda>_ _. True) (\<lambda>_. True) fs"
proof (rule fwp_bind, rule fwp_mono [OF kubeconfig_files.fwp_Finalize [OF assms(1,2)]], goal_cases)
  case (1 changed v)
  have dir: "is_dir v (Dir_of (KubeletKubeconfig l))"
    using 1 assms(2,3) not_prefix_butlast [OF assms(3)]
    by (auto simp: is_dir_look Dir_of_def same_on_def)
  show ?case
  proof (cases "\<exists>k ai. conf_at parse v (KubeletKubeconfig l) = Some k \<and> current_user k = Some ai \<and> uses_only (pem_path l) ai")
    case True
    then show ?thesis by (auto intro: fwp_mono [OF kubeconfig_files.fwp_Finalize_again [OF assms(1) dir]])
  next
    case False
    then have "look v (pem_path l) = None" using 1 by (auto split: if_splits dest: finalized_user)
    then show ?thesis by (intro fwp_mono [OF kubeconfig_files.fwp_Finalize [OF assms(1) dir]]) auto
  qed
qed simp_all

theorem finalize_idempotent_witness:
  "fwp (bind (FinalizeKubeletKubeconfig (conf_ref :: (unit, unit) pki_ext) Default)
       (\<lambda>_. FinalizeKubeletKubeconfig (conf_ref :: (unit, unit) pki_ext) Default))
    (\<lambda>changed _. \<not> changed) (\<lambda>_ _. True) (\<lambda>_. True) first_boot_fs"
  by (rule finalize_idempotent [OF confref.kubeconfig_files_axioms first_boot_dir]) simp

text \<open>\<open>Ensure\<close>, which every boot runs, leaves everything outside the manifest and the kubelet directory as it
  was, whichever way it ends: the PKI, the kubeconfigs, the recorded state and the backups. In particular it
  never brings back \<open>super-admin.conf\<close>.\<close>

theorem ensure_frame:
  assumes "phase_frames ph" and "apart q (ManifestsDir l)" and "apart q (KubeletDir l)"
  shows "fwp (Ensure ph cfg l) (\<lambda>_ v. look v q = look fs q) (\<lambda>_ v. look v q = look fs q) (\<lambda>v. look v q = look fs q) fs"
proof -
  have "keeps (on_fs (same_on {q} fs)) (Ensure ph cfg l)"
    by (rule phase_frames.keeps_Ensure [OF assms(1)]) (use assms(2,3) in \<open>auto simp: apart_def\<close>)
  from fwp_keeps [OF this same_on_refl] show ?thesis by (simp add: same_on_def)
qed

theorem ensure_frame_witness:
  "fwp (Ensure phases_ref sample_cfg Default) (\<lambda>_ v. look v (SuperAdminKubeconfig Default) = None)
    (\<lambda>_ v. look v (SuperAdminKubeconfig Default) = None) (\<lambda>v. look v (SuperAdminKubeconfig Default) = None) first_boot_fs"
proof -
  have "look first_boot_fs (SuperAdminKubeconfig Default) = None"
    "apart (SuperAdminKubeconfig Default) (ManifestsDir Default)" "apart (SuperAdminKubeconfig Default) (KubeletDir Default)"
    by code_simp+
  with ensure_frame [OF phref.phase_frames_axioms, of "SuperAdminKubeconfig Default" Default sample_cfg first_boot_fs]
  show ?thesis by simp
qed

end
