(* ===== verification/Healthcheck.thy ===== *)
theory Healthcheck
  imports Layout Go_Os
begin

text \<open>
  \<open>internal/kubeclient\<close> and \<open>internal/healthcheck\<close>: the client of the API server and the two waits of
  every boot, for \<open>/readyz\<close> (\<open>apiserver.go\<close>) and for the node and the three control-plane pods
  (\<open>cluster.go\<close>).

  The first wait is a loop that may run for ever (\<open>wait_loop\<close>, a partial function). The second starts
  one goroutine per check and collects their answers from a channel: its steps are the relation
  \<open>ready_step\<close>, in which any goroutine or the collector may move, and \<open>ready_run\<close> is a scheduler
  that follows it. Client-go's requests are the record \<open>cluster\<close>.
\<close>

section \<open>The client\<close>

definition seconds :: "int \<Rightarrow> int" where
  "seconds n = n * 10 ^ 9"

text \<open>\<open>version.KubernetesVersion\<close>, which a release build may override.\<close>

definition version_KubernetesVersion :: string where
  "version_KubernetesVersion = ''v1.36.4''"

record RestConfig =
  Timeout :: int
  UserAgent :: string
  rc_rest :: string

text \<open>A node or pod is given by its status conditions, as pairs of type and status.\<close>

record ('e, 'c) cluster =
  BuildConfigFromFlags :: "path \<Rightarrow> ('e, RestConfig) io"
  NewForConfig :: "RestConfig \<Rightarrow> ('e, 'c) io"
  Readyz :: "'c \<Rightarrow> ctx \<Rightarrow> ('e, string) io"
  GetNode :: "'c \<Rightarrow> ctx \<Rightarrow> string \<Rightarrow> ('e, (string \<times> string) list) io"
  GetPod :: "'c \<Rightarrow> ctx \<Rightarrow> string \<Rightarrow> string \<Rightarrow> ('e, (string \<times> string) list) io"

definition requestTimeout :: int where
  "requestTimeout = seconds 10"

definition LoadAdmin :: "('e, 'c) cluster \<Rightarrow> path \<Rightarrow> ('e, 'c) io" where
  "LoadAdmin cl p =
     bind (wrapf (''build rest config from '' @ path_text p) (BuildConfigFromFlags cl p)) (\<lambda>restCfg.
       wrapf ''build clientset'' (NewForConfig cl
         (restCfg\<lparr>Timeout := requestTimeout, UserAgent := ''picokube/'' @ version_KubernetesVersion\<rparr>)))"

section \<open>Waiting\<close>

definition signalled :: "'e world \<Rightarrow> bool" where
  "signalled w = (case o_sig (w_orc w) of None \<Rightarrow> False | Some n \<Rightarrow> n \<le> w_tick w)"

text \<open>
  \<open>select \{ case <-ctx.Done(): ... case <-time.After(d): ... \}\<close>. True is the first case. A context that
  is done already wins, because the timer has just been started; of two events at the same moment, and of
  a signal and the timer, either may.
\<close>

definition select_after :: "ctx \<Rightarrow> int \<Rightarrow> ('e, bool) io" where
  "select_after c d w =
     (if ctx_Err c w \<noteq> None then (Ok True, w)
      else case o_fate (w_orc w) (w_tick w) of
        PowerLoss \<Rightarrow> (Crash, w)
      | _ \<Rightarrow>
         (let v = adv w; lat = int (o_lat (w_orc w) (w_tick w)); r = o_rnd (w_orc w) (w_tick w); t = w_now w + d in
          if signalled v \<and> odd r then (Ok True, v)
          else case ctx_deadline c of
            Some dl \<Rightarrow> if dl < t \<or> dl = t \<and> odd r then (Ok True, v\<lparr>w_now := dl + lat\<rparr>)
                       else (Ok False, v\<lparr>w_now := t + lat\<rparr>)
          | None \<Rightarrow> (Ok False, v\<lparr>w_now := t + lat\<rparr>)))"

text \<open>
  One round of the loop of \<open>WaitForAPIServer\<close>: what the function returns, or the state of the next
  round. The error text of a done context without an error is what \<open>fmt\<close> prints; it does not occur.
\<close>

definition wait_round :: "('e, 'a) io \<Rightarrow> ctx \<Rightarrow> 'e world \<Rightarrow> unit outcome \<times> 'e world + 'e world" where
  "wait_round probe c w = (case probe w of
     (Ok _, w1) \<Rightarrow> Inl (Ok (), w1)
   | (Crash, w1) \<Rightarrow> Inl (Crash, w1)
   | (Err lastErr, w1) \<Rightarrow> (case select_after c (seconds 2) w1 of
         (Ok isdone, w2) \<Rightarrow>
           if \<not> isdone then Inr w2
           else Inl (Err (Suffixed
              (case ctx_Err c w2 of Some e \<Rightarrow> Wrapf ''apiserver not ready'' e
               | None \<Rightarrow> Msg ''apiserver not ready: %!w(<nil>)'')
              ('' (last probe: '' @ Error lastErr @ '')'')), w2)
       | (Err e, w2) \<Rightarrow> Inl (Err e, w2)
       | (Crash, w2) \<Rightarrow> Inl (Crash, w2)))"

text \<open>\<open>None\<close> is a loop that does not end.\<close>

partial_function (option) wait_loop ::
    "('e, 'a) io \<Rightarrow> ctx \<Rightarrow> 'e world \<Rightarrow> (unit outcome \<times> 'e world) option" where
  "wait_loop probe c w = (case wait_round probe c w of
     Inl r \<Rightarrow> Some r
   | Inr w' \<Rightarrow> wait_loop probe c w')"

declare wait_loop.simps [code]

text \<open>As an effect of the program: a wait that never ends is ended by a power loss only.\<close>

definition run_partial :: "('e world \<Rightarrow> ('a outcome \<times> 'e world) option) \<Rightarrow> ('e, 'a) io" where
  "run_partial m w = (case m w of Some r \<Rightarrow> r | None \<Rightarrow> (Crash, w))"

definition WaitForAPIServer :: "('e, 'c) cluster \<Rightarrow> ctx \<Rightarrow> 'c \<Rightarrow> ('e, unit) io" where
  "WaitForAPIServer cl c client = run_partial (wait_loop (Readyz cl client c) c)"

section \<open>Checks\<close>

fun condition_true :: "string \<Rightarrow> (string \<times> string) list \<Rightarrow> bool" where
  "condition_true kind [] = False"
| "condition_true kind ((t, s) # cs) = (if t = kind \<and> s = ''True'' then True else condition_true kind cs)"

definition nodeReady :: "('e, 'c) cluster \<Rightarrow> ctx \<Rightarrow> 'c \<Rightarrow> string \<Rightarrow> ('e, bool) io" where
  "nodeReady cl c client nodeName =
     bind (attempt (GetNode cl client c nodeName)) (\<lambda>r. case r of
       Inl _ \<Rightarrow> ret False | Inr conditions \<Rightarrow> ret (condition_true ''Ready'' conditions))"

definition staticPodReady :: "('e, 'c) cluster \<Rightarrow> ctx \<Rightarrow> 'c \<Rightarrow> string \<Rightarrow> ('e, bool) io" where
  "staticPodReady cl c client podName =
     bind (attempt (GetPod cl client c ''kube-system'' podName)) (\<lambda>r. case r of
       Inl _ \<Rightarrow> ret False | Inr conditions \<Rightarrow> ret (condition_true ''Ready'' conditions))"

record 'e readyCheck =
  check_name :: string
  check_fn :: "ctx \<Rightarrow> ('e, bool) io"

section \<open>Waiting for all checks\<close>

text \<open>
  A goroutine polls, sends its name, pauses until a time, or has ended: after sending, or because its
  context was done. The collector waits for so many names, or has returned with so many missing. A send on
  the channel goes through only while the channel holds fewer names than its capacity.
\<close>

datatype goroutine = Polling | Sending | Pausing int | Sent | Stopped

datatype collector = Collecting (pending: nat) | Returned (pending: nat) "gerr option"

record ready_state =
  gs :: "goroutine list"
  chan :: "string list"
  cap :: nat
  main :: collector

definition ready_init :: "'e readyCheck list \<Rightarrow> ready_state" where
  "ready_init checks = \<lparr>gs = replicate (length checks) Polling, chan = [], cap = length checks, main = Collecting (length checks)\<rparr>"

text \<open>The derived context is done when the given one is, or when the collector has returned (\<open>defer cancel()\<close>).\<close>

fun is_returned :: "collector \<Rightarrow> bool" where
  "is_returned (Returned r v) = True"
| "is_returned (Collecting r) = False"

definition stopped :: "ctx \<Rightarrow> ready_state \<Rightarrow> 'e world \<Rightarrow> bool" where
  "stopped c s w \<longleftrightarrow> is_returned (main s) \<or> ctx_Err c w \<noteq> None"

definition at_time :: "int \<Rightarrow> 'e world \<Rightarrow> 'e world" where
  "at_time t w = (adv w)\<lparr>w_now := max (w_now (adv w)) t\<rparr>"

definition not_ready :: "gerr \<Rightarrow> nat \<Rightarrow> nat \<Rightarrow> gerr" where
  "not_ready e r n = Suffixed (Wrapf ''control plane not ready'' e)
     ('' ('' @ itoa r @ ''/'' @ itoa n @ '' checks still pending)'')"

definition after_poll :: "ctx \<Rightarrow> ready_state \<Rightarrow> bool \<Rightarrow> 'e world \<Rightarrow> goroutine" where
  "after_poll c s b w = (if b then Sending else if stopped c s w then Stopped else Pausing (w_now w + seconds 2))"

inductive ready_step :: "'e readyCheck list \<Rightarrow> ctx \<Rightarrow> ready_state \<times> 'e world \<Rightarrow> ready_state \<times> 'e world \<Rightarrow> bool"
    for checks c where
  poll: "i < length checks \<Longrightarrow> gs s ! i = Polling \<Longrightarrow> check_fn (checks ! i) c w = (Ok b, w') \<Longrightarrow>
     ready_step checks c (s, w) (s\<lparr>gs := (gs s)[i := after_poll c s b w']\<rparr>, w')"
| send: "i < length checks \<Longrightarrow> gs s ! i = Sending \<Longrightarrow> length (chan s) < cap s \<Longrightarrow>
     ready_step checks c (s, w) (s\<lparr>gs := (gs s)[i := Sent], chan := chan s @ [check_name (checks ! i)]\<rparr>, w)"
| wake: "i < length checks \<Longrightarrow> gs s ! i = Pausing t \<Longrightarrow>
     ready_step checks c (s, w) (s\<lparr>gs := (gs s)[i := Polling]\<rparr>, at_time t w)"
| stop: "i < length checks \<Longrightarrow> gs s ! i = Pausing t \<Longrightarrow> u \<le> t \<Longrightarrow> stopped c s (at_time u w) \<Longrightarrow>
     ready_step checks c (s, w) (s\<lparr>gs := (gs s)[i := Stopped]\<rparr>, at_time u w)"
| receive: "main s = Collecting (Suc r) \<Longrightarrow> chan s = x # xs \<Longrightarrow>
     ready_step checks c (s, w) (s\<lparr>chan := xs, main := Collecting r\<rparr>, w)"
| give_up: "main s = Collecting (Suc r) \<Longrightarrow> ctx_Err c (at_time u w) = Some e \<Longrightarrow>
     ready_step checks c (s, w)
       (s\<lparr>main := Returned (Suc r) (Some (not_ready e (Suc r) (length checks)))\<rparr>, at_time u w)"
| finish: "main s = Collecting 0 \<Longrightarrow> ready_step checks c (s, w) (s\<lparr>main := Returned 0 None\<rparr>, w)"

inductive_cases ready_stepE: "ready_step checks c (s, w) y"

inductive ready_reach :: "'e readyCheck list \<Rightarrow> ctx \<Rightarrow> 'e world \<Rightarrow> ready_state \<times> 'e world \<Rightarrow> bool"
    for checks c w0 where
  start: "ready_reach checks c w0 (ready_init checks, w0)"
| move: "ready_reach checks c w0 x \<Longrightarrow> ready_step checks c x y \<Longrightarrow> ready_reach checks c w0 y"

subsection \<open>A scheduler\<close>

text \<open>Who may move: a goroutine that has neither ended nor blocks in its send, or the collector (\<open>None\<close>).\<close>

definition candidates :: "ctx \<Rightarrow> ready_state \<Rightarrow> 'e world \<Rightarrow> nat option list" where
  "candidates c s w =
     map Some (filter (\<lambda>i. gs s ! i \<notin> {Sent, Stopped} \<and> (gs s ! i = Sending \<longrightarrow> length (chan s) < cap s)) [0..<length (gs s)]) @
     (if chan s \<noteq> [] \<or> pending (main s) = 0 \<or> ctx_Err c w \<noteq> None then [None] else [])"

text \<open>The move of the \<open>i\<close>-th goroutine; a power loss in its request ends the run.\<close>

definition move_goroutine :: "'e readyCheck list \<Rightarrow> ctx \<Rightarrow> nat \<Rightarrow> ready_state \<Rightarrow> 'e world \<Rightarrow>
    'e world + ready_state \<times> 'e world" where
  "move_goroutine checks c i s w = (case gs s ! i of
     Polling \<Rightarrow> (case check_fn (checks ! i) c w of
         (Ok b, w') \<Rightarrow> Inr (s\<lparr>gs := (gs s)[i := after_poll c s b w']\<rparr>, w')
       | (_, w') \<Rightarrow> Inl w')
   | Sending \<Rightarrow> Inr (s\<lparr>gs := (gs s)[i := Sent], chan := chan s @ [check_name (checks ! i)]\<rparr>, w)
   | Pausing t \<Rightarrow>
       (let u = (case ctx_deadline c of None \<Rightarrow> t | Some d \<Rightarrow> min d t) in
        if stopped c s (at_time u w) then Inr (s\<lparr>gs := (gs s)[i := Stopped]\<rparr>, at_time u w)
        else Inr (s\<lparr>gs := (gs s)[i := Polling]\<rparr>, at_time t w))
   | _ \<Rightarrow> Inl w)"

text \<open>The move of the collector when the context ends at the latest at \<open>u\<close>; \<open>None\<close> when it blocks for ever.\<close>

definition move_collector :: "nat \<Rightarrow> ctx \<Rightarrow> int \<Rightarrow> ready_state \<Rightarrow> 'e world \<Rightarrow> (ready_state \<times> 'e world) option" where
  "move_collector n c u s w = (case main s of
     Returned r v \<Rightarrow> None
   | Collecting 0 \<Rightarrow> Some (s\<lparr>main := Returned 0 None\<rparr>, w)
   | Collecting (Suc r) \<Rightarrow> (case chan s of
         x # xs \<Rightarrow> Some (s\<lparr>chan := xs, main := Collecting r\<rparr>, w)
       | [] \<Rightarrow> (case ctx_Err c (at_time u w) of
             Some e \<Rightarrow> Some (s\<lparr>main := Returned (Suc r) (Some (not_ready e (Suc r) n))\<rparr>, at_time u w)
           | None \<Rightarrow> None)))"

definition ready_next :: "'e readyCheck list \<Rightarrow> ctx \<Rightarrow> ready_state \<Rightarrow> 'e world \<Rightarrow>
    ('e world + ready_state \<times> 'e world) option" where
  "ready_next checks c s w =
     (let cs = candidates c s w in
      if cs = [] then
        map_option Inr (move_collector (length checks) c (case ctx_deadline c of None \<Rightarrow> w_now w | Some d \<Rightarrow> d) s w)
      else case cs ! (o_rnd (w_orc w) (w_tick w) mod length cs) of
        Some i \<Rightarrow> Some (move_goroutine checks c i s w)
      | None \<Rightarrow> map_option Inr (move_collector (length checks) c (w_now w) s w))"

definition ready_round :: "'e readyCheck list \<Rightarrow> ctx \<Rightarrow> ready_state \<times> 'e world \<Rightarrow>
    ((gerr option outcome \<times> 'e world) option) + ready_state \<times> 'e world" where
  "ready_round checks c x = (case main (fst x) of
     Returned r v \<Rightarrow> Inl (Some (Ok v, snd x))
   | Collecting r \<Rightarrow> (case ready_next checks c (fst x) (snd x) of
         None \<Rightarrow> Inl None
       | Some (Inl w') \<Rightarrow> Inl (Some (Crash, w'))
       | Some (Inr y) \<Rightarrow> Inr y))"

partial_function (option) ready_run :: "'e readyCheck list \<Rightarrow> ctx \<Rightarrow> ready_state \<times> 'e world \<Rightarrow>
    (gerr option outcome \<times> 'e world) option" where
  "ready_run checks c x = (case ready_round checks c x of Inl r \<Rightarrow> r | Inr y \<Rightarrow> ready_run checks c y)"

declare ready_run.simps [code]

definition waitAllReady :: "ctx \<Rightarrow> 'e readyCheck list \<Rightarrow> ('e, unit) io" where
  "waitAllReady c checks =
     bind (run_partial (\<lambda>w. ready_run checks c (ready_init checks, w))) (\<lambda>v. case v of
       None \<Rightarrow> ret () | Some e \<Rightarrow> throw e)"

definition control_plane_checks :: "('e, 'c) cluster \<Rightarrow> 'c \<Rightarrow> string \<Rightarrow> 'e readyCheck list" where
  "control_plane_checks cl client nodeName =
     [\<lparr>check_name = ''node/'' @ nodeName, check_fn = (\<lambda>c. nodeReady cl c client nodeName)\<rparr>,
      \<lparr>check_name = ''pod/kube-apiserver-'' @ nodeName,
       check_fn = (\<lambda>c. staticPodReady cl c client (''kube-apiserver-'' @ nodeName))\<rparr>,
      \<lparr>check_name = ''pod/kube-controller-manager-'' @ nodeName,
       check_fn = (\<lambda>c. staticPodReady cl c client (''kube-controller-manager-'' @ nodeName))\<rparr>,
      \<lparr>check_name = ''pod/kube-scheduler-'' @ nodeName,
       check_fn = (\<lambda>c. staticPodReady cl c client (''kube-scheduler-'' @ nodeName))\<rparr>]"

definition WaitForControlPlane :: "('e, 'c) cluster \<Rightarrow> ctx \<Rightarrow> 'c \<Rightarrow> string \<Rightarrow> ('e, unit) io" where
  "WaitForControlPlane cl c client nodeName = waitAllReady c (control_plane_checks cl client nodeName)"

section \<open>Time moves forward\<close>

text \<open>What is used of a request: the clock does not run backwards in it.\<close>

definition forward :: "('e, 'a) io \<Rightarrow> bool" where
  "forward m \<longleftrightarrow> (\<forall>w. w_now w \<le> w_now (snd (m w)))"

lemma forwardD: "forward m \<Longrightarrow> m w = (r, w') \<Longrightarrow> w_now w \<le> w_now w'"
  by (metis forward_def snd_conv)

lemma ctx_Err_deadline: "ctx_deadline c = Some t \<Longrightarrow> t \<le> w_now w \<Longrightarrow> ctx_Err c w \<noteq> None"
  by (simp add: ctx_Err_def)

lemma ctx_Err_None: "ctx_Err c w = None \<Longrightarrow> ctx_deadline c = Some t \<Longrightarrow> w_now w < t"
  by (auto simp: ctx_Err_def split: if_splits)

lemma select_after_timer:
  "select_after c d w = (Ok False, v) \<Longrightarrow> ctx_Err c w = None \<and> w_now w + d \<le> w_now v"
  by (auto simp: select_after_def Let_def split: if_splits fate.splits option.splits)

lemma select_after_done:
  "select_after c d w = (Ok True, v) \<Longrightarrow> ctx_Err c v \<noteq> None"
  by (auto simp: select_after_def Let_def ctx_Err_def signalled_def split: if_splits fate.splits option.splits)

lemma select_after_no_err: "select_after c d w \<noteq> (Err e, v)"
  by (auto simp: select_after_def Let_def split: if_splits fate.splits option.splits)

lemma w_now_at_time: "w_now w \<le> w_now (at_time t w)" "t \<le> w_now (at_time t w)"
proof -
  have "w_now w \<le> w_now (adv w)" by simp
  then show "w_now w \<le> w_now (at_time t w)" "t \<le> w_now (at_time t w)" by (simp_all add: at_time_def max.coboundedI1)
qed

lemma ctx_Err_at_time: "ctx_Err c w \<noteq> None \<Longrightarrow> ctx_Err c (at_time u w) \<noteq> None"
  using w_now_at_time(1) [of w u]
  by (fastforce simp: ctx_Err_def at_time_def split: if_splits option.splits)

section \<open>The wait for the API server\<close>

text \<open>
  The worlds in which the loop asks again: each request before failed, and after each the two seconds
  passed before the context was done.
\<close>

inductive failed_polls :: "('e, 'a) io \<Rightarrow> ctx \<Rightarrow> 'e world \<Rightarrow> 'e world \<Rightarrow> bool" for probe c where
  first: "failed_polls probe c w w"
| again: "probe w = (Err e, w1) \<Longrightarrow> select_after c (seconds 2) w1 = (Ok False, w2) \<Longrightarrow> failed_polls probe c w2 v \<Longrightarrow>
     failed_polls probe c w v"

text \<open>
  What a return of the loop started in \<open>w\<close> says: the last request of this very run was answered, or it failed
  and then the context ended, or one of the two lost power.
\<close>

definition wait_verdict :: "('e, 'a) io \<Rightarrow> ctx \<Rightarrow> 'e world \<Rightarrow> unit outcome \<times> 'e world \<Rightarrow> bool" where
  "wait_verdict probe c w r \<longleftrightarrow> (\<exists>w1. failed_polls probe c w w1 \<and> (case r of
     (Ok _, v) \<Rightarrow> \<exists>b. probe w1 = (Ok b, v)
   | (Err e, v) \<Rightarrow> \<exists>last w2 ce. probe w1 = (Err last, w2) \<and> select_after c (seconds 2) w2 = (Ok True, v) \<and>
       ctx_Err c v = Some ce \<and>
       e = Suffixed (Wrapf ''apiserver not ready'' ce) ('' (last probe: '' @ Error last @ '')'')
   | (Crash, v) \<Rightarrow> probe w1 = (Crash, v) \<or>
       (\<exists>last w2. probe w1 = (Err last, w2) \<and> select_after c (seconds 2) w2 = (Crash, v))))"

lemma wait_round_stop: "wait_round probe c w = Inl r \<Longrightarrow> wait_verdict probe c w r"
  unfolding wait_round_def wait_verdict_def
  by (rule exI [of _ w], rule conjI [OF failed_polls.first])
    (auto split: prod.splits outcome.splits if_splits option.splits simp: select_after_no_err dest: select_after_done)

lemma wait_verdict_again:
  assumes "wait_round probe c w = Inr v" and "wait_verdict probe c v r"
  shows "wait_verdict probe c w r"
proof -
  obtain e w1 where "probe w = (Err e, w1)" "select_after c (seconds 2) w1 = (Ok False, v)"
    using assms(1) by (auto simp: wait_round_def split: prod.splits outcome.splits if_splits)
  then show ?thesis using assms(2) unfolding wait_verdict_def by (blast intro: failed_polls.again)
qed

lemma wait_round_again:
  assumes "wait_round probe c w = Inr v" and "forward probe" and "ctx_deadline c = Some t"
  shows "w_now w < t \<and> w_now w < w_now v"
proof -
  obtain e w1 where p: "probe w = (Err e, w1)" and s: "select_after c (seconds 2) w1 = (Ok False, v)"
    using assms(1) by (auto simp: wait_round_def split: prod.splits outcome.splits if_splits)
  show ?thesis
    using forwardD [OF assms(2) p] select_after_timer [OF s] ctx_Err_None [OF _ assms(3), of w1]
    by (auto simp: seconds_def)
qed

lemma wait_loop_returns:
  assumes "forward probe" and "ctx_deadline c = Some t"
  shows "\<exists>r. wait_loop probe c w = Some r \<and> wait_verdict probe c w r"
proof (induction "nat (t - w_now w)" arbitrary: w rule: less_induct)
  case less
  show ?case
  proof (cases "wait_round probe c w")
    case (Inl r)
    then show ?thesis using wait_round_stop [OF Inl] by (simp add: wait_loop.simps [of probe c w])
  next
    case (Inr v)
    with wait_round_again [OF Inr assms] have "nat (t - w_now v) < nat (t - w_now w)" by simp
    from less [OF this] obtain r where "wait_loop probe c v = Some r" "wait_verdict probe c v r" by blast
    with Inr wait_verdict_again [OF Inr] show ?thesis by (simp add: wait_loop.simps [of probe c w])
  qed
qed

section \<open>The wait for the control plane\<close>

subsection \<open>What holds of every run\<close>

lemma count_list_update:
  "i < length xs \<Longrightarrow> count_list (xs[i := y]) z + (if xs ! i = z then 1 else 0) = count_list xs z + (if y = z then 1 else 0)"
proof (induction xs arbitrary: i)
  case (Cons x xs)
  then show ?case by (cases i) (fastforce split: if_splits)+
qed simp

lemma count_list_length: "count_list xs z \<le> length xs"
  by (induction xs) auto

lemma count_list_full: "count_list xs z = length xs \<Longrightarrow> i < length xs \<Longrightarrow> xs ! i = z"
proof (induction xs arbitrary: i)
  case (Cons x xs)
  then show ?case using count_list_length [of xs z] by (cases i) (auto split: if_splits)
qed simp

text \<open>
  The names sent are those received and those in the channel; so the channel has always room, and
  the collector is right about how many are missing.
\<close>

definition ready_inv :: "nat \<Rightarrow> ready_state \<Rightarrow> bool" where
  "ready_inv n s \<longleftrightarrow> length (gs s) = n \<and> cap s = n \<and> pending (main s) \<le> n \<and>
     count_list (gs s) Sent + pending (main s) = n + length (chan s) \<and>
     (case main s of
        Collecting r \<Rightarrow> True
      | Returned r None \<Rightarrow> r = 0
      | Returned r (Some e) \<Rightarrow> 0 < r \<and> (\<exists>ce. e = not_ready ce r n))"

lemma count_list_replicate: "count_list (replicate n x) z = (if x = z then n else 0)"
  by (induction n) auto

lemma ready_inv_init: "ready_inv (length checks) (ready_init checks)"
  by (simp add: ready_inv_def ready_init_def count_list_replicate)

lemma ready_inv_update:
  "ready_inv n s \<Longrightarrow> i < n \<Longrightarrow> gs s ! i \<noteq> Sent \<Longrightarrow> g \<noteq> Sent \<Longrightarrow> ready_inv n (s\<lparr>gs := (gs s)[i := g]\<rparr>)"
  using count_list_update [of i "gs s" g Sent] by (simp add: ready_inv_def)

lemma after_poll_not_Sent [simp]: "after_poll c s b w \<noteq> Sent"
  by (simp add: after_poll_def)

lemma ready_inv_step:
  assumes "ready_step checks c x y" and "ready_inv (length checks) (fst x)"
  shows "ready_inv (length checks) (fst y)"
  using assms
proof (induction rule: ready_step.induct)
  case (send i s w)
  then show ?case using count_list_update [of i "gs s" Sent Sent]
    by (simp add: ready_inv_def split: collector.splits)
next
  case (receive s r x xs w)
  then show ?case by (simp add: ready_inv_def)
next
  case (give_up s r u w e)
  then show ?case by (auto simp: ready_inv_def)
next
  case (finish s w)
  then show ?case by (simp add: ready_inv_def)
qed (simp_all add: ready_inv_update)

lemma ready_reach_inv: "ready_reach checks c w0 x \<Longrightarrow> ready_inv (length checks) (fst x)"
  by (induction rule: ready_reach.induct) (auto intro: ready_inv_init ready_inv_step)

text \<open>A check whose goroutine sends or has sent was found to hold in this run.\<close>

definition held :: "'e readyCheck list \<Rightarrow> ctx \<Rightarrow> 'e world \<Rightarrow> nat \<Rightarrow> bool" where
  "held checks c w0 i \<longleftrightarrow>
     (\<exists>s w w'. ready_reach checks c w0 (s, w) \<and> check_fn (checks ! i) c w = (Ok True, w'))"

lemma ready_reach_held:
  "ready_reach checks c w0 x \<Longrightarrow> i < length checks \<Longrightarrow> gs (fst x) ! i \<in> {Sending, Sent} \<Longrightarrow> held checks c w0 i"
proof (induction rule: ready_reach.induct)
  case start
  then show ?case by (simp add: ready_init_def)
next
  case (move x y)
  have len: "length (gs (fst x)) = length checks" using ready_reach_inv [OF move(1)] by (simp add: ready_inv_def)
  from move(2) show ?case
  proof cases
    case (poll j s w b w')
    show ?thesis
    proof (cases "j = i \<and> b")
      case True
      then show ?thesis using poll move(1) by (auto simp: held_def)
    next
      case False
      then have "gs (fst x) ! i \<in> {Sending, Sent}"
        using poll move(4,5) len by (cases "j = i") (auto simp: after_poll_def split: if_splits)
      then show ?thesis using move by blast
    qed
  qed (use move len in \<open>auto simp: nth_list_update split: if_splits\<close>)
qed

subsection \<open>Progress\<close>

definition probing :: "'e readyCheck list \<Rightarrow> ctx \<Rightarrow> bool" where
  "probing checks c \<longleftrightarrow> (\<forall>k\<in>set checks. \<forall>w. \<exists>b w'. check_fn k c w = (Ok b, w'))"

definition all_over :: "ready_state \<Rightarrow> bool" where
  "all_over s \<longleftrightarrow> is_returned (main s) \<and> set (gs s) \<subseteq> {Sent, Stopped}"

lemma ready_inv_room:
  assumes "ready_inv n s" "i < n" "gs s ! i \<noteq> Sent"
  shows "length (chan s) < cap s"
proof -
  have "count_list (gs s) Sent \<noteq> length (gs s)"
    using assms count_list_full [of "gs s" Sent i] by (auto simp: ready_inv_def)
  then show ?thesis using assms(1) count_list_length [of "gs s" Sent] by (auto simp: ready_inv_def)
qed

lemma goroutine_moves:
  assumes "ready_inv (length checks) s" and "probing checks c" and "i < length checks" and "gs s ! i \<notin> {Sent, Stopped}"
  shows "\<exists>y. ready_step checks c (s, w) y"
proof (cases "gs s ! i")
  case Polling
  then obtain b w' where "check_fn (checks ! i) c w = (Ok b, w')"
    using assms(2,3) nth_mem by (fastforce simp: probing_def)
  then show ?thesis using Polling assms(3) by (blast intro: ready_step.poll)
next
  case Sending
  then show ?thesis using assms ready_inv_room [OF assms(1,3)] by (blast intro: ready_step.send)
next
  case (Pausing t)
  then show ?thesis using assms(3) by (blast intro: ready_step.wake)
qed (use assms(4) in auto)

lemma collector_moves:
  assumes "main s = Collecting r" and "ctx_deadline c = Some d"
  shows "\<exists>y. ready_step checks c (s, w) y"
proof (cases r)
  case 0
  then show ?thesis using assms(1) by (blast intro: ready_step.finish)
next
  case (Suc k)
  obtain e where "ctx_Err c (at_time d w) = Some e"
    using ctx_Err_deadline [OF assms(2) w_now_at_time(2) [of d w]] by auto
  then show ?thesis using assms(1) Suc by (blast intro: ready_step.give_up)
qed

subsection \<open>Termination\<close>

text \<open>How often a goroutine can still start a pause before the deadline.\<close>

definition rounds :: "int \<Rightarrow> int \<Rightarrow> nat" where
  "rounds d now = (if now < d then Suc (nat ((d - now) div seconds 2)) else 0)"

fun weight :: "int \<Rightarrow> int \<Rightarrow> goroutine \<Rightarrow> nat" where
  "weight d now Polling = 4 * rounds d now + 3"
| "weight d now Sending = 2"
| "weight d now (Pausing t) = 4 * rounds d t + 4"
| "weight d now Sent = 0"
| "weight d now Stopped = 0"

definition ready_measure :: "int \<Rightarrow> ready_state \<times> 'e world \<Rightarrow> nat" where
  "ready_measure d x = sum_list (map (weight d (w_now (snd x))) (gs (fst x))) + length (chan (fst x)) +
     (if is_returned (main (fst x)) then 0 else 1)"

lemma rounds_mono: "s \<le> t \<Longrightarrow> rounds d t \<le> rounds d s"
  by (auto simp: rounds_def seconds_def intro!: nat_mono zdiv_mono1)

lemma rounds_pause: "t < d \<Longrightarrow> Suc (rounds d (t + seconds 2)) \<le> rounds d t"
  by (auto simp: rounds_def seconds_def)

lemma weight_mono: "s \<le> t \<Longrightarrow> weight d t g \<le> weight d s g"
  by (cases g) (auto intro: rounds_mono)

lemma sum_weight_mono: "s \<le> t \<Longrightarrow> sum_list (map (weight d t) xs) \<le> sum_list (map (weight d s) xs)"
  by (intro sum_list_mono weight_mono)

lemma sum_weight_update:
  assumes "i < length xs" and "s \<le> t" and "weight d t g + k < weight d s (xs ! i)"
  shows "sum_list (map (weight d t) (xs[i := g])) + k < sum_list (map (weight d s) xs)"
  using assms(1,3)
proof (induction xs arbitrary: i)
  case (Cons x xs)
  then show ?case
    using sum_weight_mono [OF assms(2), of d xs] weight_mono [OF assms(2), of d x] by (cases i) (auto simp: add.assoc add_le_less_mono)
qed simp

lemma ready_step_decreases:
  assumes "ready_step checks c x y" and "length (gs (fst x)) = length checks"
    and "ctx_deadline c = Some d" and fwd: "\<forall>k\<in>set checks. forward (check_fn k c)"
  shows "ready_measure d y < ready_measure d x"
  using assms(1,2)
proof (induction rule: ready_step.induct)
  case (poll i s w b w')
  have t: "w_now w \<le> w_now w'" using forwardD fwd poll nth_mem by metis
  have "weight d (w_now w') (after_poll c s b w') < weight d (w_now w) Polling"
    using rounds_mono [OF t, of d] rounds_pause [of "w_now w'" d] ctx_Err_None [OF _ assms(3), of w']
    by (auto simp: after_poll_def stopped_def)
  with sum_weight_update [OF _ t, of i "gs s" d _ 0] poll show ?case
    by (simp add: ready_measure_def)
next
  case (send i s w)
  with sum_weight_update [of i "gs s" "w_now w" "w_now w" d Sent 1] show ?case by (simp add: ready_measure_def)
next
  case (wake i s t w)
  have "weight d (w_now (at_time t w)) Polling < weight d (w_now w) (Pausing t)"
    using rounds_mono [OF w_now_at_time(2) [of t w], of d] by simp
  with sum_weight_update [OF _ w_now_at_time(1), of i "gs s" d t w _ 0] wake show ?case
    by (simp add: ready_measure_def)
next
  case (stop i s t u w)
  with sum_weight_update [OF _ w_now_at_time(1), of i "gs s" d u w Stopped 0] show ?case
    by (simp add: ready_measure_def)
next
  case (receive s r x xs w)
  then show ?case by (simp add: ready_measure_def)
next
  case (give_up s r u w e)
  then show ?case using sum_weight_mono [OF w_now_at_time(1), of d u w "gs s"] by (simp add: ready_measure_def)
next
  case (finish s w)
  then show ?case by (simp add: ready_measure_def)
qed

subsection \<open>The scheduler follows the relation\<close>

lemma candidates_Some: "Some i \<in> set (candidates c s w) \<Longrightarrow> i < length (gs s) \<and> gs s ! i \<notin> {Sent, Stopped}"
  by (auto simp: candidates_def)

lemma move_goroutine_step:
  assumes "move_goroutine checks c i s w = Inr y" and "ready_inv (length checks) s" and "i < length checks"
  shows "ready_step checks c (s, w) y"
proof (cases "gs s ! i")
  case Sending
  then show ?thesis using assms ready_inv_room [OF assms(2,3)]
    by (auto simp: move_goroutine_def intro: ready_step.send)
qed (use assms in \<open>auto simp: move_goroutine_def Let_def split: prod.splits outcome.splits if_splits option.splits
        intro: ready_step.poll ready_step.wake ready_step.stop\<close>)

lemma move_collector_step: "move_collector (length checks) c u s w = Some y \<Longrightarrow> ready_step checks c (s, w) y"
  unfolding move_collector_def
  by (auto split: collector.splits nat.splits list.splits option.splits
      intro: ready_step.receive ready_step.give_up ready_step.finish)

lemma ready_next_step:
  assumes "ready_next checks c s w = Some (Inr y)" and "ready_inv (length checks) s"
  shows "ready_step checks c (s, w) y"
proof (cases "candidates c s w = []")
  case True
  then show ?thesis using assms(1) by (auto simp: ready_next_def Let_def intro: move_collector_step)
next
  case False
  let ?k = "candidates c s w ! (o_rnd (w_orc w) (w_tick w) mod length (candidates c s w))"
  have k: "?k \<in> set (candidates c s w)" using False by (intro nth_mem) simp
  show ?thesis
  proof (cases ?k)
    case None
    then show ?thesis using assms(1) False by (auto simp: ready_next_def Let_def intro: move_collector_step)
  next
    case (Some i)
    then have "i < length checks" using candidates_Some k assms(2) by (metis ready_inv_def)
    with Some False assms show ?thesis by (auto simp: ready_next_def Let_def intro: move_goroutine_step)
  qed
qed

lemma ready_next_crash:
  assumes "ready_next checks c s w = Some (Inl v)" and "length (gs s) = length checks"
  shows "\<exists>i<length checks. \<exists>r. check_fn (checks ! i) c w = (r, v) \<and> (\<forall>b. r \<noteq> Ok b)"
proof -
  have ne: "candidates c s w \<noteq> []" using assms(1) by (auto simp: ready_next_def Let_def)
  let ?k = "candidates c s w ! (o_rnd (w_orc w) (w_tick w) mod length (candidates c s w))"
  have k: "?k \<in> set (candidates c s w)" using ne by (intro nth_mem) simp
  obtain i where i: "?k = Some i" "move_goroutine checks c i s w = Inl v"
    using assms(1) ne by (auto simp: ready_next_def Let_def split: option.splits)
  then have "i < length checks" "gs s ! i \<notin> {Sent, Stopped}" using candidates_Some k assms(2) by metis+
  with i(2) show ?thesis
    by (auto simp: move_goroutine_def Let_def split: goroutine.splits prod.splits outcome.splits if_splits option.splits
        intro!: exI [of _ i])
qed

text \<open>An error is returned at the moment at which the context was found done.\<close>

definition just_over :: "nat \<Rightarrow> ctx \<Rightarrow> ready_state \<times> 'e world \<Rightarrow> bool" where
  "just_over n c x \<longleftrightarrow> (\<forall>r e. main (fst x) = Returned r (Some e) \<longrightarrow>
     0 < r \<and> (\<exists>ce. ctx_Err c (snd x) = Some ce \<and> e = not_ready ce r n))"

lemma just_over_step: "ready_step checks c x y \<Longrightarrow> main (fst x) = Collecting r \<Longrightarrow> just_over (length checks) c y"
  by (induction rule: ready_step.induct) (auto simp: just_over_def)

lemma candidates_None:
  "None \<in> set (candidates c s w) \<Longrightarrow> chan s \<noteq> [] \<or> pending (main s) = 0 \<or> ctx_Err c w \<noteq> None"
  by (auto simp: candidates_def split: if_splits)

lemma move_collector_moves:
  "main s = Collecting r \<Longrightarrow> chan s \<noteq> [] \<or> r = 0 \<or> ctx_Err c (at_time u w) \<noteq> None \<Longrightarrow> move_collector n c u s w \<noteq> None"
  by (auto simp: move_collector_def split: nat.splits list.splits)

lemma ready_next_moves:
  assumes "main s = Collecting r" and "ctx_deadline c = Some d"
  shows "ready_next checks c s w \<noteq> None"
proof (cases "candidates c s w = []")
  case True
  have "ctx_Err c (at_time d w) \<noteq> None" by (rule ctx_Err_deadline [OF assms(2) w_now_at_time(2)])
  then show ?thesis using True assms(2) move_collector_moves [OF assms(1), of c d w]
    by (auto simp: ready_next_def Let_def)
next
  case False
  let ?k = "candidates c s w ! (o_rnd (w_orc w) (w_tick w) mod length (candidates c s w))"
  have k: "?k \<in> set (candidates c s w)" using False by (intro nth_mem) simp
  show ?thesis
  proof (cases ?k)
    case None
    then have "move_collector (length checks) c (w_now w) s w \<noteq> None"
      using candidates_None [of c s w] k assms(1) ctx_Err_at_time [of c w "w_now w"]
      by (intro move_collector_moves [OF assms(1)]) auto
    then show ?thesis using None False by (simp add: ready_next_def Let_def)
  qed (use False in \<open>simp add: ready_next_def Let_def\<close>)
qed

text \<open>
  The run ends. It ends in a state that the goroutines reach, in which the collector has just returned; or with a
  power loss in one of the requests.
\<close>

definition ready_outcome :: "'e readyCheck list \<Rightarrow> ctx \<Rightarrow> 'e world \<Rightarrow> gerr option outcome \<Rightarrow> 'e world \<Rightarrow> bool" where
  "ready_outcome checks c w0 out v \<longleftrightarrow>
     out = Crash \<and> (\<exists>s u. ready_reach checks c w0 (s, u) \<and>
       (\<exists>i<length checks. \<exists>r. check_fn (checks ! i) c u = (r, v) \<and> (\<forall>b. r \<noteq> Ok b))) \<or>
     (\<exists>s r e. out = Ok e \<and> ready_reach checks c w0 (s, v) \<and> main s = Returned r e \<and> just_over (length checks) c (s, v))"

lemma ready_run_returns:
  assumes "ctx_deadline c = Some d" and "\<forall>k\<in>set checks. forward (check_fn k c)"
  shows "ready_reach checks c w0 x \<Longrightarrow> just_over (length checks) c x \<Longrightarrow>
    \<exists>out v. ready_run checks c x = Some (out, v) \<and> ready_outcome checks c w0 out v"
proof (induction "ready_measure d x" arbitrary: x rule: less_induct)
  case less
  obtain s w where x: "x = (s, w)" by (cases x)
  have inv: "ready_inv (length checks) s" using ready_reach_inv [OF less(2)] x by simp
  show ?case
  proof (cases "main s")
    case (Returned r e)
    then have "ready_run checks c x = Some (Ok e, w)" by (subst ready_run.simps) (simp add: ready_round_def x)
    moreover have "ready_outcome checks c w0 (Ok e) w"
      using Returned less(2,3) unfolding ready_outcome_def x by blast
    ultimately show ?thesis by blast
  next
    case (Collecting r)
    then obtain y where y: "ready_next checks c s w = Some y" using ready_next_moves [OF Collecting assms(1)] by auto
    show ?thesis
    proof (cases y)
      case (Inl w')
      have "ready_run checks c x = Some (Crash, w')"
        using x y Collecting Inl by (subst ready_run.simps) (simp add: ready_round_def)
      moreover have "ready_outcome checks c w0 Crash w'"
        using ready_next_crash [of checks c s w w'] y Inl inv less(2) x unfolding ready_outcome_def ready_inv_def by blast
      ultimately show ?thesis by blast
    next
      case (Inr z)
      have st: "ready_step checks c x z" using ready_next_step [OF _ inv] y Inr x by simp
      have j: "just_over (length checks) c z" using just_over_step [OF st] Collecting x by simp
      have "ready_measure d z < ready_measure d x"
        using ready_step_decreases [OF st _ assms] inv x by (simp add: ready_inv_def)
      from less(1) [OF this ready_reach.move [OF less(2) st] j] show ?thesis
        using x y Inr Collecting by (subst ready_run.simps) (simp add: ready_round_def)
    qed
  qed
qed

section \<open>Properties\<close>

text \<open>An API server that answers from the fourth second on, and whose node and pods are ready from the seventh on.\<close>

definition answer_from :: "int \<Rightarrow> 'a \<Rightarrow> ('e, 'a) io" where
  "answer_from t x w = (if w_now w < seconds t then (Err (Msg ''connection refused''), adv w) else (Ok x, adv w))"

definition cluster_ref :: "('e, unit) cluster" where
  "cluster_ref = \<lparr>
     BuildConfigFromFlags = (\<lambda>p. bind (os_ReadFile p) (\<lambda>s. ret \<lparr>Timeout = 0, UserAgent = [], rc_rest = s\<rparr>)),
     NewForConfig = (\<lambda>r. ret ()), Readyz = (\<lambda>client c. answer_from 4 ''ok''),
     GetNode = (\<lambda>client c n. answer_from 5 [(''Ready'', ''True'')]),
     GetPod = (\<lambda>client c ns n. answer_from 7 [(''PodScheduled'', ''True''), (''Ready'', ''True'')])\<rparr>"

lemma forward_answer_from [simp]: "forward (answer_from t x)"
  by (simp add: forward_def answer_from_def)

lemma forward_attempt: "forward m \<Longrightarrow> forward (attempt m)"
  by (auto simp: forward_def attempt_def split: prod.splits outcome.splits) (metis snd_conv)+

lemma forward_bind: "forward m \<Longrightarrow> (\<And>x. forward (f x)) \<Longrightarrow> forward (bind m f)"
  unfolding forward_def bind_def
  by (auto split: prod.splits outcome.splits) (metis order.trans snd_conv)+

lemma forward_ret: "forward (ret x)"
  by (simp add: forward_def ret_def)

lemma forward_nodeReady: "forward (GetNode cl client c n) \<Longrightarrow> forward (nodeReady cl c client n)"
  unfolding nodeReady_def by (intro forward_bind forward_attempt) (auto intro: forward_ret split: sum.split)

lemma forward_staticPodReady: "forward (GetPod cl client c ''kube-system'' n) \<Longrightarrow> forward (staticPodReady cl c client n)"
  unfolding staticPodReady_def by (intro forward_bind forward_attempt) (auto intro: forward_ret split: sum.split)

lemma nodeReady_True:
  "nodeReady cl c client n w = (Ok True, w') \<Longrightarrow>
   \<exists>cs. GetNode cl client c n w = (Ok cs, w') \<and> condition_true ''Ready'' cs"
  by (auto simp: nodeReady_def bind_def attempt_def ret_def split: prod.splits outcome.splits sum.splits)

lemma staticPodReady_True:
  "staticPodReady cl c client n w = (Ok True, w') \<Longrightarrow>
   \<exists>cs. GetPod cl client c ''kube-system'' n w = (Ok cs, w') \<and> condition_true ''Ready'' cs"
  by (auto simp: staticPodReady_def bind_def attempt_def ret_def split: prod.splits outcome.splits sum.splits)

text \<open>C30: with a deadline on its context, \<open>WaitForAPIServer\<close> always returns: its loop ends. It asks again only
  after a failed request and a pause of two seconds in which the context did not end. When it returns normally, the
  request it made last was answered; when it returns an error, the request it made last failed and then the
  context ended, and the error wraps the error of the context at that moment and quotes that of this last request.\<close>

theorem wait_api_server:
  assumes "ctx_deadline c = Some t" and "forward (Readyz cl client c)"
  shows "wait_loop (Readyz cl client c) c w = Some (WaitForAPIServer cl c client w) \<and>
    (\<exists>w1. failed_polls (Readyz cl client c) c w w1 \<and> (case WaitForAPIServer cl c client w of
       (Ok _, v) \<Rightarrow> \<exists>b. Readyz cl client c w1 = (Ok b, v)
     | (Err e, v) \<Rightarrow> \<exists>last w2 ce. Readyz cl client c w1 = (Err last, w2) \<and>
         select_after c (seconds 2) w2 = (Ok True, v) \<and> ctx_Err c v = Some ce \<and>
         e = Suffixed (Wrapf ''apiserver not ready'' ce) ('' (last probe: '' @ Error last @ '')'')
     | (Crash, v) \<Rightarrow> Readyz cl client c w1 = (Crash, v) \<or>
         (\<exists>last w2. Readyz cl client c w1 = (Err last, w2) \<and> select_after c (seconds 2) w2 = (Crash, v))))"
  using wait_loop_returns [OF assms(2,1), of w] by (auto simp: WaitForAPIServer_def run_partial_def wait_verdict_def)

definition sample_world :: "unit world" where
  "sample_world = world_at calm_orc []"

definition minute :: ctx where
  "minute = Ctx (Some (seconds 60))"

text \<open>Two seconds are too short for the server of the example: its last refusal is quoted.\<close>

theorem wait_api_server_witness:
  "\<exists>v w1 w2. WaitForAPIServer cluster_ref (Ctx (Some (seconds 3))) () sample_world = (Err (Suffixed
       (Wrapf ''apiserver not ready'' DeadlineExceeded) '' (last probe: connection refused)''), v) \<and>
     failed_polls (Readyz cluster_ref () (Ctx (Some (seconds 3)))) (Ctx (Some (seconds 3))) sample_world w1 \<and>
     Readyz cluster_ref () (Ctx (Some (seconds 3))) w1 = (Err (Msg ''connection refused''), w2)"
proof -
  let ?c = "Ctx (Some (seconds 3))"
  let ?r = "WaitForAPIServer cluster_ref ?c () sample_world"
  let ?e = "Suffixed (Wrapf ''apiserver not ready'' DeadlineExceeded) '' (last probe: connection refused)''"
  have "fst ?r = Err ?e" by code_simp
  then obtain v where r: "?r = (Err ?e, v)" by (cases ?r) simp
  have "ctx_deadline ?c = Some (seconds 3)" "forward (Readyz cluster_ref () ?c)" by (simp_all add: cluster_ref_def)
  from wait_api_server [OF this, of sample_world] r obtain w1 last w2
    where "failed_polls (Readyz cluster_ref () ?c) ?c sample_world w1" "Readyz cluster_ref () ?c w1 = (Err last, w2)"
      by auto
  moreover from this(2) have "last = Msg ''connection refused''"
    by (auto simp: cluster_ref_def answer_from_def split: if_splits)
  ultimately show ?thesis using r by blast
qed

text \<open>C14: no send of the wait for the control plane ever blocks, whatever the collector does: in every reachable
  state, a goroutine that is about to send its name can send it at once. And the number of names the collector still
  waits for is the number of checks less those whose names it has received.\<close>

theorem ready_channel_has_room:
  assumes "ready_reach checks c w0 (s, w)"
  shows "(\<forall>i<length checks. gs s ! i = Sending \<longrightarrow>
      ready_step checks c (s, w) (s\<lparr>gs := (gs s)[i := Sent], chan := chan s @ [check_name (checks ! i)]\<rparr>, w)) \<and>
    count_list (gs s) Sent + pending (main s) = length checks + length (chan s)"
proof -
  have inv: "ready_inv (length checks) s" using ready_reach_inv [OF assms] by simp
  then show ?thesis using ready_inv_room [OF inv] by (auto simp: ready_inv_def intro: ready_step.send)
qed

definition sample_checks :: "unit readyCheck list" where
  "sample_checks =
     [\<lparr>check_name = ''node/n1'', check_fn = (\<lambda>c. nodeReady cluster_ref c () ''n1'')\<rparr>,
      \<lparr>check_name = ''pod/kube-scheduler-n1'', check_fn = (\<lambda>c. staticPodReady cluster_ref c () ''kube-scheduler-n1'')\<rparr>]"

definition late_world :: "unit world" where
  "late_world = sample_world\<lparr>w_now := seconds 10\<rparr>"

theorem ready_channel_has_room_witness:
  "\<exists>s w s'. ready_reach sample_checks minute late_world (s, w) \<and> gs s ! 0 = Sending \<and>
    ready_step sample_checks minute (s, w) (s', w) \<and> gs s' ! 0 = Sent \<and> chan s' = [''node/n1'']"
proof -
  let ?s = "(ready_init sample_checks)\<lparr>gs := (gs (ready_init sample_checks))[0 := after_poll minute (ready_init sample_checks) True (adv late_world)]\<rparr>"
  have "check_fn (sample_checks ! 0) minute late_world = (Ok True, adv late_world)"
    by (simp add: sample_checks_def nodeReady_def bind_def attempt_def ret_def cluster_ref_def answer_from_def late_world_def seconds_def)
  then have "ready_step sample_checks minute (ready_init sample_checks, late_world) (?s, adv late_world)"
    by (intro ready_step.poll) (simp_all add: sample_checks_def ready_init_def)
  then have reach: "ready_reach sample_checks minute late_world (?s, adv late_world)"
    by (rule ready_reach.move [OF ready_reach.start])
  have s: "gs ?s = [Sending, Polling]" "chan ?s = []" "length sample_checks = 2" "check_name (sample_checks ! 0) = ''node/n1''"
    by (simp_all add: after_poll_def ready_init_def sample_checks_def)
  then have "ready_step sample_checks minute (?s, adv late_world)
      (?s\<lparr>gs := (gs ?s)[0 := Sent], chan := chan ?s @ [check_name (sample_checks ! 0)]\<rparr>, adv late_world)"
    using ready_channel_has_room [OF reach] by (metis nth_Cons_0 zero_less_numeral)
  then show ?thesis using reach s
    by (intro exI [of _ ?s] exI [of _ "adv late_world"] exI [of _ "?s\<lparr>gs := (gs ?s)[0 := Sent], chan := chan ?s @ [check_name (sample_checks ! 0)]\<rparr>"]) simp
qed

text \<open>C12: the goroutines of the wait for the control plane never leak. Under a deadline, and for every interleaving, no
  run is infinite; and while no request loses power, a run cannot stop before the collector has returned
  and every goroutine has ended.\<close>

theorem ready_no_leak:
  assumes "ctx_deadline c = Some d" and "\<forall>k\<in>set checks. forward (check_fn k c)"
  shows "wfp (\<lambda>y x. ready_reach checks c w0 x \<and> ready_step checks c x y) \<and>
    (probing checks c \<longrightarrow> (\<forall>s w. ready_reach checks c w0 (s, w) \<longrightarrow> \<not> (\<exists>y. ready_step checks c (s, w) y) \<longrightarrow> all_over s))"
proof (intro conjI impI allI)
  have "ready_measure d y < ready_measure d x" if "ready_reach checks c w0 x" "ready_step checks c x y" for x y
    using ready_step_decreases [OF that(2) _ assms] ready_reach_inv [OF that(1)] by (simp add: ready_inv_def)
  then have "{(y, x). ready_reach checks c w0 x \<and> ready_step checks c x y} \<subseteq> measure (ready_measure d)" by auto
  then have "wf {(y, x). ready_reach checks c w0 x \<and> ready_step checks c x y}" by (rule wf_subset [OF wf_measure])
  then show "wfp (\<lambda>y x. ready_reach checks c w0 x \<and> ready_step checks c x y)" by (simp add: wfp_def)
next
  fix s w
  assume run: "probing checks c" "ready_reach checks c w0 (s, w)" "\<not> (\<exists>y. ready_step checks c (s, w) y)"
  have inv: "ready_inv (length checks) s" using ready_reach_inv [OF run(2)] by simp
  have "set (gs s) \<subseteq> {Sent, Stopped}"
  proof
    fix g
    assume "g \<in> set (gs s)"
    then obtain i where "i < length checks" "g = gs s ! i" using inv by (auto simp: in_set_conv_nth ready_inv_def)
    then show "g \<in> {Sent, Stopped}" using goroutine_moves [OF inv run(1)] run(3) by blast
  qed
  moreover have "is_returned (main s)"
    using collector_moves [OF _ assms(1), where s = s and checks = checks and w = w] run(3) by (cases "main s") auto
  ultimately show "all_over s" by (simp add: all_over_def)
qed

lemma sample_checks_forward: "\<forall>k\<in>set sample_checks. forward (check_fn k c)"
  by (simp add: sample_checks_def forward_nodeReady forward_staticPodReady cluster_ref_def)

theorem ready_no_leak_witness:
  "wfp (\<lambda>y x. ready_reach sample_checks minute sample_world x \<and> ready_step sample_checks minute x y)"
  by (rule ready_no_leak [where d = "seconds 60", THEN conjunct1]) (simp_all add: minute_def sample_checks_forward)

text \<open>What the wait for the control plane establishes.\<close>

definition control_plane_up :: "('e, 'c) cluster \<Rightarrow> ctx \<Rightarrow> 'c \<Rightarrow> string \<Rightarrow> bool" where
  "control_plane_up cl c client nodeName \<longleftrightarrow>
     (\<exists>w1 cs w2. GetNode cl client c nodeName w1 = (Ok cs, w2) \<and> condition_true ''Ready'' cs) \<and>
     (\<forall>p\<in>{''kube-apiserver-'', ''kube-controller-manager-'', ''kube-scheduler-''}.
        \<exists>w1 cs w2. GetPod cl client c ''kube-system'' (p @ nodeName) w1 = (Ok cs, w2) \<and> condition_true ''Ready'' cs)"

text \<open>In the course of this wait, the conditions that \<open>get\<close> asks for were found with \<open>Ready\<close> true.\<close>

definition seen_ready :: "'e readyCheck list \<Rightarrow> ctx \<Rightarrow> 'e world \<Rightarrow> ('e, (string \<times> string) list) io \<Rightarrow> bool" where
  "seen_ready checks c w get \<longleftrightarrow>
     (\<exists>s w1 cs w2. ready_reach checks c w (s, w1) \<and> get w1 = (Ok cs, w2) \<and> condition_true ''Ready'' cs)"

definition control_plane_verdict :: "('e, 'c) cluster \<Rightarrow> ctx \<Rightarrow> 'c \<Rightarrow> string \<Rightarrow> 'e world \<Rightarrow> unit outcome \<times> 'e world \<Rightarrow> bool" where
  "control_plane_verdict cl c client n w r \<longleftrightarrow> (case r of
     (Ok _, v) \<Rightarrow> seen_ready (control_plane_checks cl client n) c w (GetNode cl client c n) \<and>
       (\<forall>p\<in>{''kube-apiserver-'', ''kube-controller-manager-'', ''kube-scheduler-''}.
          seen_ready (control_plane_checks cl client n) c w (GetPod cl client c ''kube-system'' (p @ n)))
   | (Err e, v) \<Rightarrow> \<exists>s k ce. ready_reach (control_plane_checks cl client n) c w (s, v) \<and> ctx_Err c v = Some ce \<and>
       0 < k \<and> k \<le> 4 \<and> count_list (gs s) Sent + k = 4 + length (chan s) \<and> e = not_ready ce k 4
   | (Crash, v) \<Rightarrow> \<exists>s u. ready_reach (control_plane_checks cl client n) c w (s, u) \<and>
       (\<exists>k\<in>set (control_plane_checks cl client n). check_fn k c u = (Crash, v)))"

lemma length_control_plane_checks [simp]: "length (control_plane_checks cl client n) = 4"
  by (simp add: control_plane_checks_def)

lemma nodeReady_no_err: "nodeReady cl c client n w \<noteq> (Err e, v)"
  by (auto simp: nodeReady_def bind_def attempt_def ret_def split: prod.splits outcome.splits sum.splits)

lemma staticPodReady_no_err: "staticPodReady cl c client n w \<noteq> (Err e, v)"
  by (auto simp: staticPodReady_def bind_def attempt_def ret_def split: prod.splits outcome.splits sum.splits)

lemma checks_no_err: "k \<in> set (control_plane_checks cl client n) \<Longrightarrow> check_fn k c w \<noteq> (Err e, v)"
  by (auto simp: control_plane_checks_def nodeReady_no_err staticPodReady_no_err)

lemma all_sent_seen:
  assumes "ready_reach (control_plane_checks cl client n) c w (s, v)" and "main s = Returned r None"
  shows "seen_ready (control_plane_checks cl client n) c w (GetNode cl client c n) \<and>
       (\<forall>p\<in>{''kube-apiserver-'', ''kube-controller-manager-'', ''kube-scheduler-''}.
          seen_ready (control_plane_checks cl client n) c w (GetPod cl client c ''kube-system'' (p @ n)))"
proof -
  let ?checks = "control_plane_checks cl client n"
  have inv: "ready_inv 4 s" using ready_reach_inv [OF assms(1)] by simp
  have "gs s ! i = Sent" if "i < 4" for i
    using inv assms(2) count_list_full [of "gs s" Sent i] count_list_length [of "gs s" Sent] that by (auto simp: ready_inv_def)
  then have "held ?checks c w i" if "i < 4" for i using ready_reach_held [OF assms(1)] that by simp
  from this [of 0] this [of 1] this [of 2] this [of 3]
  have "\<exists>s w1 w2. ready_reach ?checks c w (s, w1) \<and> nodeReady cl c client n w1 = (Ok True, w2)"
    "\<exists>s w1 w2. ready_reach ?checks c w (s, w1) \<and> staticPodReady cl c client (''kube-apiserver-'' @ n) w1 = (Ok True, w2)"
    "\<exists>s w1 w2. ready_reach ?checks c w (s, w1) \<and> staticPodReady cl c client (''kube-controller-manager-'' @ n) w1 = (Ok True, w2)"
    "\<exists>s w1 w2. ready_reach ?checks c w (s, w1) \<and> staticPodReady cl c client (''kube-scheduler-'' @ n) w1 = (Ok True, w2)"
    unfolding held_def by (simp_all add: control_plane_checks_def numeral_2_eq_2 numeral_3_eq_3)
  then show ?thesis
    unfolding seen_ready_def by (blast dest: nodeReady_True staticPodReady_True)
qed

lemma control_plane_returns:
  assumes "ctx_deadline c = Some d" and "\<forall>n. forward (GetNode cl client c n) \<and> forward (GetPod cl client c ''kube-system'' n)"
  shows "(\<exists>r. ready_run (control_plane_checks cl client n) c (ready_init (control_plane_checks cl client n), w) = Some r) \<and>
    control_plane_verdict cl c client n w (WaitForControlPlane cl c client n w)"
proof -
  let ?checks = "control_plane_checks cl client n"
  have fwd: "\<forall>k\<in>set ?checks. forward (check_fn k c)"
    using assms(2) by (simp add: control_plane_checks_def forward_nodeReady forward_staticPodReady)
  have "just_over (length ?checks) c (ready_init ?checks, w)" by (simp add: just_over_def ready_init_def)
  from ready_run_returns [OF assms(1) fwd ready_reach.start this] obtain out v where
    run: "ready_run ?checks c (ready_init ?checks, w) = Some (out, v)" and out: "ready_outcome ?checks c w out v" by blast
  have W: "WaitForControlPlane cl c client n w = (case out of Ok None \<Rightarrow> (Ok (), v) | Ok (Some e) \<Rightarrow> (Err e, v)
      | Err e \<Rightarrow> (Err e, v) | Crash \<Rightarrow> (Crash, v))"
    by (simp add: WaitForControlPlane_def waitAllReady_def bind_def run_partial_def run ret_def throw_def
        split: outcome.splits option.splits)
  have "control_plane_verdict cl c client n w (WaitForControlPlane cl c client n w)"
  proof (cases "out = Crash")
    case True
    then obtain s u i r where "ready_reach ?checks c w (s, u)" "i < 4" "check_fn (?checks ! i) c u = (r, v)" "\<forall>b. r \<noteq> Ok b"
      using out by (auto simp: ready_outcome_def)
    moreover from this have "?checks ! i \<in> set ?checks" by (intro nth_mem) simp
    moreover have "r = Crash" using calculation checks_no_err by (cases r) fastforce+
    ultimately have "\<exists>k\<in>set ?checks. check_fn k c u = (Crash, v)" by blast
    then show ?thesis using True W \<open>ready_reach ?checks c w (s, u)\<close> unfolding control_plane_verdict_def by auto
  next
    case False
    then obtain s r e where s: "out = Ok e" "ready_reach ?checks c w (s, v)" "main s = Returned r e" "just_over 4 c (s, v)"
      using out by (auto simp: ready_outcome_def)
    show ?thesis
    proof (cases e)
      case (Some x)
      moreover have "ready_inv 4 s" using ready_reach_inv [OF s(2)] by simp
      ultimately show ?thesis using s W by (auto simp: control_plane_verdict_def just_over_def ready_inv_def)
    next
      case None
      then show ?thesis using all_sent_seen [of cl client n c w s v r] s W by (simp add: control_plane_verdict_def)
    qed
  qed
  with run show ?thesis by blast
qed

lemma seen_ready_asked: "seen_ready checks c w get \<Longrightarrow> \<exists>w1 cs w2. get w1 = (Ok cs, w2) \<and> condition_true ''Ready'' cs"
  by (auto simp: seen_ready_def)

text \<open>C13: \<open>WaitForControlPlane\<close> always returns under a deadline, whatever the API server answers: the run of its
  goroutines and collector ends. A normal return means that in this wait the node and each of the three control-plane
  pods were found with \<open>Ready\<close> true. An error means that the run has reached a state in which the context is done, and
  it wraps the error of the context at that moment and says how many of the four checks have not been received.
  The only other end is a power loss in one of the four requests.\<close>

theorem wait_control_plane:
  assumes "ctx_deadline c = Some d" and "\<forall>n. forward (GetNode cl client c n) \<and> forward (GetPod cl client c ''kube-system'' n)"
  shows "(\<exists>r. ready_run (control_plane_checks cl client n) c (ready_init (control_plane_checks cl client n), w) = Some r) \<and>
    (case WaitForControlPlane cl c client n w of
       (Ok _, v) \<Rightarrow> seen_ready (control_plane_checks cl client n) c w (GetNode cl client c n) \<and>
         (\<forall>p\<in>{''kube-apiserver-'', ''kube-controller-manager-'', ''kube-scheduler-''}.
            seen_ready (control_plane_checks cl client n) c w (GetPod cl client c ''kube-system'' (p @ n)))
     | (Err e, v) \<Rightarrow> \<exists>s k ce. ready_reach (control_plane_checks cl client n) c w (s, v) \<and> ctx_Err c v = Some ce \<and>
         0 < k \<and> k \<le> 4 \<and> count_list (gs s) Sent + k = 4 + length (chan s) \<and> e = not_ready ce k 4
     | (Crash, v) \<Rightarrow> \<exists>s u. ready_reach (control_plane_checks cl client n) c w (s, u) \<and>
         (\<exists>k\<in>set (control_plane_checks cl client n). check_fn k c u = (Crash, v)))"
  using control_plane_returns [OF assms, of n w] by (simp only: control_plane_verdict_def)

text \<open>A minute is enough for the cluster of the example; seven seconds are not, and the three pods are pending then.\<close>

theorem wait_control_plane_witness:
  "(\<exists>v. WaitForControlPlane cluster_ref minute () ''n1'' sample_world = (Ok (), v)) \<and>
   seen_ready (control_plane_checks cluster_ref () ''n1'') minute sample_world (GetNode cluster_ref () minute ''n1'') \<and>
   (\<exists>v s. WaitForControlPlane cluster_ref (Ctx (Some (seconds 7))) () ''n1'' sample_world = (Err (not_ready DeadlineExceeded 3 4), v) \<and>
      ready_reach (control_plane_checks cluster_ref () ''n1'') (Ctx (Some (seconds 7))) sample_world (s, v))"
proof -
  let ?c = "Ctx (Some (seconds 7))"
  let ?r = "WaitForControlPlane cluster_ref minute () ''n1'' sample_world"
  let ?q = "WaitForControlPlane cluster_ref ?c () ''n1'' sample_world"
  have "fst ?r = Ok ()" by code_simp
  then obtain v where r: "?r = (Ok (), v)" by (cases ?r) simp
  have "fst ?q = Err (not_ready DeadlineExceeded 3 4)" by code_simp
  then obtain u where q: "?q = (Err (not_ready DeadlineExceeded 3 4), u)" by (cases ?q) simp
  have fwd: "\<forall>n. forward (GetNode cluster_ref () c n) \<and> forward (GetPod cluster_ref () c ''kube-system'' n)" for c
    by (simp add: cluster_ref_def)
  have d: "ctx_deadline minute = Some (seconds 60)" "ctx_deadline ?c = Some (seconds 7)" by (simp_all add: minute_def)
  have "\<exists>s. ready_reach (control_plane_checks cluster_ref () ''n1'') ?c sample_world (s, u)"
    using wait_control_plane [OF d(2) fwd, of "''n1''" sample_world] q by auto
  then show ?thesis using wait_control_plane [OF d(1) fwd, of "''n1''" sample_world] r q by auto
qed

end
