(* ===== verification/Host.thy ===== *)
theory Host
  imports Snapshot Catalog Ostree Rotation Kubeadm Healthcheck
begin

text \<open>
  The host as the lifecycle code sees it: everything outside the repository that \<open>picokube boot\<close>, \<open>init\<close>
  and \<open>reset\<close> call, in one record. \<open>CombinedOutput\<close> runs a command under a context and gives its output
  together with its error, \<open>SdNotify\<close> is the notification of systemd, and the CRI calls are kubeadm's
  container runtime. \<open>h_order\<close> is the order in which Go iterates over the map of \<open>Prune\<close>, \<open>h_wide\<close> the
  conversion of a float64 that does not fit a \<open>uint64\<close>. \<open>Unmount\<close> is \<open>syscall.Unmount(t, MNT_DETACH)\<close>,
  \<open>NewAggregate\<close> the aggregate of a list of errors, nil for none.
\<close>

record ('e, 'g, 'c) host =
  h_pki :: "('e, 'g) pki_ext"
  h_phases :: "('e, 'g, 'c) phases"
  h_cluster :: "('e, 'c) cluster"
  h_cp :: "'e cp"
  h_statfs :: "'e statfs"
  h_wide :: "64 word"
  h_rpm :: "'e rpm_ostree"
  h_order :: "groups \<Rightarrow> groups"
  CombinedOutput :: "ctx \<Rightarrow> string list \<Rightarrow> ('e, string \<times> gerr option) io"
  SdNotify :: "bool \<Rightarrow> string \<Rightarrow> ('e, bool) io"
  Unmount :: "string \<Rightarrow> ('e, errno option) io"
  NewAggregate :: "gerr list \<Rightarrow> gerr option"
  CRI_Connect :: "string \<Rightarrow> ('e, unit) io"
  CRI_Close :: "string \<Rightarrow> ('e, unit) io"
  ListKubeContainers :: "string \<Rightarrow> ('e, string list) io"
  RemoveContainers :: "string \<Rightarrow> string list \<Rightarrow> ('e, unit) io"

text \<open>A command that must succeed: its error says what was run, the error and the output.\<close>

definition run_command :: "('e, 'g, 'c) host \<Rightarrow> ctx \<Rightarrow> string \<Rightarrow> string list \<Rightarrow> ('e, unit) io" where
  "run_command h c what argv =
     bind (CombinedOutput h c argv) (\<lambda>(out, err). case err of
       Some e \<Rightarrow> throw (Msg (what @ '': '' @ Error e @ '': '' @ out))
     | None \<Rightarrow> ret ())"

section \<open>Parts of a run\<close>

text \<open>To show something of a normal return, the steps before and after it may be skipped.\<close>

lemma wp_skip: "wp m (\<lambda>_ _. True) (\<lambda>_ _. True) (\<lambda>_. True) w"
  by (simp add: wp_def split: outcome.split prod.split)

lemma wp_after_bind:
  "(\<And>x v. wp (f x) Q (\<lambda>_ _. True) (\<lambda>_. True) v) \<Longrightarrow> wp (bind m f) Q (\<lambda>_ _. True) (\<lambda>_. True) w"
  unfolding wp_bind by (rule wp_mono [OF wp_skip]) auto

lemma wp_after_seq:
  "(\<And>v. wp k Q (\<lambda>_ _. True) (\<lambda>_. True) v) \<Longrightarrow> wp (seq m k) Q (\<lambda>_ _. True) (\<lambda>_. True) w"
  unfolding seq_def by (rule wp_after_bind)

text \<open>What a step has established and what does not depend on the state stays.\<close>

lemma wp_seq_const:
  "wp m (\<lambda>_ _. P) (\<lambda>_ _. True) (\<lambda>_. True) w \<Longrightarrow> wp (seq m k) (\<lambda>_ _. P) (\<lambda>_ _. True) (\<lambda>_. True) w"
  unfolding wp_seq by (erule wp_mono) (auto intro: wp_mono [OF wp_skip])

lemma wp_bind_const:
  "wp m (\<lambda>_ _. P) (\<lambda>_ _. True) (\<lambda>_. True) w \<Longrightarrow> wp (bind m f) (\<lambda>_ _. P) (\<lambda>_ _. True) (\<lambda>_. True) w"
  unfolding wp_bind by (erule wp_mono) (auto intro: wp_mono [OF wp_skip])

lemma wp_only_const: "wp m (\<lambda>_ _. P) (\<lambda>_ _. True) (\<lambda>_. True) w \<longleftrightarrow> (\<forall>x v. m w = (Ok x, v) \<longrightarrow> P)"
  by (auto simp: wp_def split: outcome.split prod.split)

lemma wp_on_err_const:
  "wp m (\<lambda>_ _. P) (\<lambda>_ _. True) (\<lambda>_. True) w \<Longrightarrow> (\<And>e v. wp (k e) (\<lambda>_ _. P) (\<lambda>_ _. True) (\<lambda>_. True) v) \<Longrightarrow>
   wp (on_err m k) (\<lambda>_ _. P) (\<lambda>_ _. True) (\<lambda>_. True) w"
  by (auto simp: wp_only_const on_err_def split: prod.splits outcome.splits)

lemma wp_wrapf_const: "wp m (\<lambda>_ _. P) (\<lambda>_ _. True) (\<lambda>_. True) w \<Longrightarrow> wp (wrapf s m) (\<lambda>_ _. P) (\<lambda>_ _. True) (\<lambda>_. True) w"
  unfolding wrapf_def by (erule wp_on_err_const) (simp add: wp_throw)

lemma wp_deferred_const: "wp m (\<lambda>_ _. P) (\<lambda>_ _. True) (\<lambda>_. True) w \<Longrightarrow> wp (deferred c m) (\<lambda>_ _. P) (\<lambda>_ _. True) (\<lambda>_. True) w"
  by (auto simp: wp_only_const deferred_def bind_def attempt_def seq_def throw_def split: prod.splits outcome.splits sum.splits)

lemma deadline_WithTimeout: "\<exists>d. ctx_deadline (WithTimeout c t now) = Some d"
  by (simp add: WithTimeout_def)

section \<open>The file system during a wait\<close>

text \<open>A wait changes the file system only as its requests do, however it ends.\<close>

lemma w_fs_at_time [simp]: "w_fs (at_time t w) = w_fs w"
  by (simp add: at_time_def)

lemma w_fs_select_after [simp]: "w_fs (snd (select_after c d w)) = w_fs w"
  by (auto simp: select_after_def Let_def split: if_splits fate.splits option.splits)

lemma keeps_run_partial:
  assumes "\<And>w r. m w = Some r \<Longrightarrow> P (w_fs w) \<Longrightarrow> P (w_fs (snd r))"
  shows "keeps (on_fs P) (run_partial m)"
  using assms by (auto simp: keeps_alt on_fs_def run_partial_def split: option.split)

lemma wait_round_keeps:
  assumes "keeps (on_fs P) probe" and "P (w_fs w)"
  shows "case wait_round probe c w of Inl r \<Rightarrow> P (w_fs (snd r)) | Inr v \<Rightarrow> P (w_fs v)"
proof -
  obtain out w1 where p: "probe w = (out, w1)" by (cases "probe w") simp
  have w1: "P (w_fs w1)" using assms p unfolding keeps_alt on_fs_def by (metis snd_conv)
  obtain out' w2 where s: "select_after c (seconds 2) w1 = (out', w2)" by (cases "select_after c (seconds 2) w1") simp
  have "w_fs w2 = w_fs w1" using w_fs_select_after [of c "seconds 2" w1] s by simp
  with w1 show ?thesis by (cases out; cases out') (simp_all add: wait_round_def p s)
qed

lemma wait_loop_keeps:
  assumes "wait_loop probe c w = Some r" and "keeps (on_fs P) probe" and "P (w_fs w)"
  shows "P (w_fs (snd r))"
proof -
  have "keeps (on_fs P) probe \<longrightarrow> P (w_fs w) \<longrightarrow> P (w_fs (snd r))"
    using _ assms(1)
  proof (rule wait_loop.raw_induct, intro impI)
    fix rec probe c and w :: "'a world" and r
    assume "\<And>probe c w r. rec probe c w = Some r \<Longrightarrow> keeps (on_fs P) probe \<longrightarrow> P (w_fs w) \<longrightarrow> P (w_fs (snd r))"
      and "(case wait_round probe c w of Inl r \<Rightarrow> Some r | Inr w' \<Rightarrow> rec probe c w') = Some r"
      and "keeps (on_fs P) probe" "P (w_fs w)"
    then show "P (w_fs (snd r))"
      using wait_round_keeps [of P probe w c] by (cases "wait_round probe c w") auto
  qed
  then show ?thesis using assms(2,3) by blast
qed

lemma keeps_WaitForAPIServer: "keeps (on_fs P) (Readyz cl client c) \<Longrightarrow> keeps (on_fs P) (WaitForAPIServer cl c client)"
  unfolding WaitForAPIServer_def by (intro keeps_run_partial) (rule wait_loop_keeps)

lemma ready_next_keeps:
  assumes "\<forall>k\<in>set checks. keeps (on_fs P) (check_fn k c)" and "length (gs s) = length checks" and "P (w_fs w)"
    and "ready_next checks c s w = Some r"
  shows "case r of Inl v \<Rightarrow> P (w_fs v) | Inr y \<Rightarrow> P (w_fs (snd y)) \<and> length (gs (fst y)) = length checks"
proof -
  have collect: "P (w_fs v) \<and> length (gs s') = length checks" if "move_collector n c u s w = Some (s', v)" for n u s' v
    using that assms(2,3) by (auto simp: move_collector_def split: collector.splits nat.splits list.splits option.splits)
  have go: "case move_goroutine checks c i s w of Inl v \<Rightarrow> P (w_fs v) | Inr y \<Rightarrow> P (w_fs (snd y)) \<and> length (gs (fst y)) = length checks"
    if "i < length (gs s)" for i
  proof -
    have "P (w_fs (snd (check_fn (checks ! i) c w)))"
      using that assms(1-3) by (auto simp: keeps_alt on_fs_def)
    then show ?thesis
      using assms(2,3) by (auto simp: move_goroutine_def Let_def split: goroutine.split prod.split outcome.split)
  qed
  have member: "i < length (gs s)" if "Some i \<in> set (candidates c s w)" for i
    using that by (auto simp: candidates_def split: if_splits)
  show ?thesis
  proof (cases "candidates c s w = []")
    case True
    then show ?thesis using assms(4) collect by (auto simp: ready_next_def)
  next
    case False
    note choice = assms(4) [unfolded ready_next_def Let_def if_not_P [OF False]]
    define k where "k = candidates c s w ! (o_rnd (w_orc w) (w_tick w) mod length (candidates c s w))"
    have k: "k \<in> set (candidates c s w)" using False by (simp add: k_def)
    show ?thesis
    proof (cases k)
      case None
      then show ?thesis using choice [folded k_def] collect by auto
    next
      case (Some i)
      then show ?thesis using choice [folded k_def] go [OF member] k by auto
    qed
  qed
qed

lemma ready_run_keeps:
  assumes "ready_run checks c x = Some r" and "\<forall>k\<in>set checks. keeps (on_fs P) (check_fn k c)"
    and "length (gs (fst x)) = length checks" and "P (w_fs (snd x))"
  shows "P (w_fs (snd r))"
proof -
  let ?G = "\<lambda>checks c x r. (\<forall>k\<in>set checks. keeps (on_fs P) (check_fn k c)) \<longrightarrow> length (gs (fst x)) = length checks \<longrightarrow>
    P (w_fs (snd x)) \<longrightarrow> P (w_fs (snd r))"
  have "?G checks c x r"
  proof (rule ready_run.raw_induct [of ?G "((checks, c), x)" r, unfolded prod.case], intro impI)
    fix rec checks c x r
    assume ih: "\<And>checks c x r. rec checks c x = Some r \<Longrightarrow> ?G checks c x r"
      and r: "(case ready_round checks c x of Inl r \<Rightarrow> r | Inr y \<Rightarrow> rec checks c y) = Some r"
      and k: "\<forall>k\<in>set checks. keeps (on_fs P) (check_fn k c)" "length (gs (fst x)) = length checks" "P (w_fs (snd x))"
    show "P (w_fs (snd r))"
    proof (cases "ready_round checks c x")
      case (Inl y)
      then show ?thesis
        using r k(3) ready_next_keeps [OF k] by (auto simp: ready_round_def split: collector.splits option.splits sum.splits)
    next
      case (Inr y)
      then have "ready_next checks c (fst x) (snd x) = Some (Inr y)"
        by (auto simp: ready_round_def split: collector.splits option.splits sum.splits)
      from ready_next_keeps [OF k this] show ?thesis using Inr r ih k(1) by simp
    qed
  qed (rule assms(1))
  then show ?thesis using assms(2-4) by blast
qed

lemma keeps_waitAllReady:
  "(\<And>k. k \<in> set checks \<Longrightarrow> keeps (on_fs P) (check_fn k c)) \<Longrightarrow> keeps (on_fs P) (waitAllReady c checks)"
  unfolding waitAllReady_def
  by (intro keeps_bind keeps_run_partial keeps_case_option keeps_ret keeps_throw, erule ready_run_keeps)
    (simp_all add: ready_init_def)

lemma keeps_nodeReady: "keeps I (GetNode cl client c n) \<Longrightarrow> keeps I (nodeReady cl c client n)"
  unfolding nodeReady_def by (intro keeps_bind keeps_attempt) (auto split: sum.split intro: keeps_ret)

lemma keeps_staticPodReady: "keeps I (GetPod cl client c ''kube-system'' n) \<Longrightarrow> keeps I (staticPodReady cl c client n)"
  unfolding staticPodReady_def by (intro keeps_bind keeps_attempt) (auto split: sum.split intro: keeps_ret)

lemma keeps_WaitForControlPlane:
  assumes "\<And>n. keeps (on_fs P) (GetNode cl client c n)" and "\<And>n. keeps (on_fs P) (GetPod cl client c ''kube-system'' n)"
  shows "keeps (on_fs P) (WaitForControlPlane cl c client nodeName)"
  unfolding WaitForControlPlane_def control_plane_checks_def
  by (rule keeps_waitAllReady)
    (simp only: set_simps insert_iff empty_iff, elim disjE FalseE,
     simp_all only: readyCheck.simps keeps_nodeReady keeps_staticPodReady assms)

section \<open>Calls that leave files alone\<close>

text \<open>The API server, rpm-ostree and systemd are asked, and what \<open>P\<close> says of the file system holds on.\<close>

definition host_quiet :: "('e, 'g, 'c) host \<Rightarrow> (fsys \<Rightarrow> bool) \<Rightarrow> bool" where
  "host_quiet h P \<longleftrightarrow>
     (\<forall>client c. keeps (on_fs P) (Readyz (h_cluster h) client c) \<and>
        (\<forall>n. keeps (on_fs P) (GetNode (h_cluster h) client c n)) \<and> (\<forall>ns n. keeps (on_fs P) (GetPod (h_cluster h) client c ns n))) \<and>
     (\<forall>client n cfg. keeps (on_fs P) (MarkControlPlane (h_phases h) client n cfg)) \<and>
     (\<forall>client. keeps (on_fs P) (AutoApproveNodeCertificateRotation (h_phases h) client) \<and>
        keeps (on_fs P) (AllowAPIServerToAccessKubeletAPI (h_phases h) client)) \<and>
     (\<forall>cfg client pd pm. keeps (on_fs P) (EnsureDNSAddon (h_phases h) cfg client pd pm) \<and>
        keeps (on_fs P) (EnsureProxyAddon (h_phases h) cfg client pm)) \<and>
     keeps (on_fs P) (h_rpm h) \<and> (\<forall>c argv. keeps (on_fs P) (CombinedOutput h c argv))"

lemma keeps_run_command: "host_quiet h P \<Longrightarrow> keeps (on_fs P) (run_command h c what argv)"
  unfolding run_command_def host_quiet_def by (intro keeps_bind) (auto split: option.split intro: keeps_ret keeps_throw)

definition files_quiet :: "('e, 'g) pki_ext \<Rightarrow> Layout \<Rightarrow> (fsys \<Rightarrow> bool) \<Rightarrow> bool" where
  "files_quiet x l P \<longleftrightarrow> keeps (on_fs P) (LoadFromFile x (KubeletKubeconfig l)) \<and>
     (\<forall>k. keeps (on_fs P) (WriteToFile x k (KubeletKubeconfig l)))"

lemma keeps_Finalize: "files_quiet x l P \<Longrightarrow> keeps (on_fs P) (FinalizeKubeletKubeconfig x l)"
  unfolding FinalizeKubeletKubeconfig_def Let_def files_quiet_def
  by (intro keeps_rules) (auto split: option.split intro!: keeps_rules)

section \<open>The records of a boot on the file system\<close>

definition live_area :: "Layout \<Rightarrow> path set" where
  "live_area l = below (EtcdDataDir l) \<union> below (KubernetesDir l) \<union> below (KubeletDir l)"

definition backup_area :: "Layout \<Rightarrow> path set" where
  "backup_area l = below (BackupsDir l) - {RestoreMarker l}"

lemma keeps_from_frame:
  assumes "\<And>v0. keeps (on_fs (same_on Z v0)) m" and "\<And>v v'. P v \<Longrightarrow> same_on Z v v' \<Longrightarrow> P v'"
  shows "keeps (on_fs P) m"
  unfolding keeps_alt on_fs_def
proof (intro allI impI)
  fix w :: "'a world"
  assume "P (w_fs w)"
  moreover have "same_on Z (w_fs w) (w_fs (snd (m w)))"
    using assms(1) [of "w_fs w"] by (simp add: keeps_alt on_fs_def)
  ultimately show "P (w_fs (snd (m w)))" by (rule assms(2))
qed

lemma frame_step: "(\<And>v0. keeps (on_fs (same_on Z v0)) m) \<Longrightarrow> same_on Z (w_fs w) (w_fs (snd (m w)))"
  by (simp add: keeps_alt on_fs_def)

lemma fwp_deferred_keeps:
  assumes "fwp m (\<lambda>_. Q) (\<lambda>_. E) C fs" and "keeps (on_fs Q) c" "keeps (on_fs E) c"
    and "\<And>v. Q v \<Longrightarrow> C v" "\<And>v. E v \<Longrightarrow> C v"
  shows "fwp (deferred c m) (\<lambda>_. Q) (\<lambda>_. E) C fs"
  by (rule fwp_deferred, rule fwp_mono [OF assms(1)])
    (auto intro: fwp_mono [OF fwp_keeps [OF assms(2)]] fwp_mono [OF fwp_keeps [OF assms(3)]] assms(4,5))

lemma state_region:
  assumes "layout_ok l"
  shows "(live_area l \<union> below (BackupsDir l)) \<inter> (below (StateDir l) \<union> above (StateDir l)) = {}"
proof -
  have p: "pairwise_apart [EtcdDataDir l, restoring (EtcdDataDir l), KubernetesDir l, restoring (KubernetesDir l), KubeletDir l, PicoKubeVarDir l]"
    "prefix (PicoKubeVarDir l) (StateDir l)" "apart (BackupsDir l) (StateDir l)"
    using assms by (auto simp: layout_ok_def)
  have "apart (EtcdDataDir l) (StateDir l)" "apart (KubernetesDir l) (StateDir l)" "apart (KubeletDir l) (StateDir l)"
    by (rule apart_prefix [OF _ prefix_order.refl p(2)]; use p(1) in simp)+
  with p(3) show ?thesis unfolding live_area_def
    by (auto dest!: below_around)
qed

text \<open>A file of the state directory is replaced, and its directory with the way to it is all that changes.\<close>

lemma fwp_WriteLastBoot:
  assumes l: "layout_ok l"
    and "\<And>v. look v (LastBootFile l) = Some (File 0x180 (Marshal lb)) \<Longrightarrow> same_on (live_area l \<union> below (BackupsDir l)) fs v \<Longrightarrow> Q () v"
    and "\<And>e v. look v (LastBootFile l) = look fs (LastBootFile l) \<Longrightarrow> same_on (live_area l \<union> below (BackupsDir l)) fs v \<Longrightarrow> E e v"
    and "\<And>v. look v (LastBootFile l) \<in> {look fs (LastBootFile l), Some (File 0x180 (Marshal lb))} \<Longrightarrow>
           same_on (live_area l \<union> below (BackupsDir l)) fs v \<Longrightarrow> C v"
  shows "fwp (WriteLastBoot l lb) Q E C fs"
proof -
  let ?S = "below (LastBootFile l) \<union> above (LastBootFile l) \<union> state_scratch (LastBootFile l)"
  have "live_area l \<union> below (BackupsDir l) \<subseteq> - ?S"
    using state_region [OF l] state_files_inside [OF l, of "LastBootFile l"] by blast
  then have near: "same_on (- ?S) fs v \<Longrightarrow> same_on (live_area l \<union> below (BackupsDir l)) fs v" for v
    using same_on_mono by blast
  show ?thesis
    unfolding WriteLastBoot_def
    by (rule fwp_mono [OF nodefile.write_outcome])
      (use state_file_ok [OF l, of "LastBootFile l"] assms(2-4) near in auto)
qed

lemma keeps_event_last_boot:
  assumes "layout_ok l"
  shows "keeps (on_fs (same_on {LastBootFile l} v0)) (WriteLastEvent l msg)"
proof -
  have p: "butlast (LastBootFile l) = StateDir l" "butlast (LastEventFile l) = StateDir l" "LastBootFile l \<noteq> []"
    "LastEventFile l \<noteq> []" "LastBootFile l \<noteq> LastEventFile l" "\<not> prefix ''.tmp-'' (last (LastBootFile l))"
    using assms by (auto simp: layout_ok_def)
  obtain a b where ab: "LastBootFile l = StateDir l @ [a]" "LastEventFile l = StateDir l @ [b]"
    using p(1-4) by (metis append_butlast_last_id)
  have "LastBootFile l \<notin> below (LastEventFile l) \<union> above (LastEventFile l) \<union> state_scratch (LastEventFile l)"
    using p(5,6) by (auto simp: ab state_scratch_def temp_names_def Dir_of_snoc)
  then show ?thesis
    unfolding WriteLastEvent_def
    by (intro nodefile.keeps_put_file) (use state_file_ok [OF assms, of "LastEventFile l"] in auto)
qed

lemma keeps_event: "layout_ok l \<Longrightarrow> keeps (on_fs (same_on (live_area l \<union> below (BackupsDir l)) v0)) (WriteLastEvent l msg)"
  by (rule keeps_WriteLastEvent) (simp_all add: state_region)

text \<open>A step that never returns an error adds none to what precedes it.\<close>

definition no_error :: "('e, 'a) io \<Rightarrow> bool" where
  "no_error m \<longleftrightarrow> (\<forall>w e. fst (m w) \<noteq> Err e)"

lemma no_error_simps [simp]: "no_error (ret x)" "no_error (logf s)" "no_error (ignore m)" "no_error (attempt m)"
  by (auto simp: no_error_def ret_def logf_def ignore_def attempt_def bind_def split: prod.splits outcome.splits)

lemma no_error_bind: "no_error m \<Longrightarrow> (\<And>x. no_error (f x)) \<Longrightarrow> no_error (bind m f)"
  unfolding no_error_def bind_def by (auto split: prod.splits outcome.splits) (metis fst_conv)+

lemma no_error_seq: "no_error m \<Longrightarrow> no_error k \<Longrightarrow> no_error (seq m k)"
  by (simp add: seq_def no_error_bind)

lemma no_error_on_err: "(\<And>e. no_error (h e)) \<Longrightarrow> no_error (on_err m h)"
  by (auto simp: no_error_def on_err_def split: prod.splits outcome.splits)

lemma deferred_error:
  "deferred c m w = (Err e, v) \<longleftrightarrow> (\<exists>w1. m w = (Err e, w1) \<and> ignore c w1 = (Ok (), v))"
proof -
  have "ignore c u \<noteq> (Err e', u')" for u e' u'
    using no_error_simps(3) [of c] by (auto simp: no_error_def dest: spec [of _ u])
  then show ?thesis
    by (auto simp: deferred_def seq_def bind_def attempt_def ret_def throw_def split: prod.splits outcome.splits)
qed

lemma no_error_deferred: "no_error m \<Longrightarrow> no_error (deferred c m)"
  unfolding no_error_def
proof (intro allI notI)
  fix w e
  assume m: "\<forall>w e. fst (m w) \<noteq> Err e" and "fst (deferred c m w) = Err e"
  then obtain v where "deferred c m w = (Err e, v)" by (cases "deferred c m w") simp
  then show False using m unfolding deferred_error by (metis fst_conv)
qed

lemma fwp_no_error: "no_error m \<Longrightarrow> fwp m Q E C fs \<Longrightarrow> fwp m Q (\<lambda>_ _. False) C fs"
  unfolding fwp_def wp_def no_error_def
  by (auto split: prod.splits outcome.splits) (metis fst_conv)+

section \<open>A cluster that is up\<close>

text \<open>
  The API server was reached, and the node and the pods were found ready, each in a wait of three minutes.
\<close>

definition apiserver_up :: "('e, 'c) cluster \<Rightarrow> ctx \<Rightarrow> 'c \<Rightarrow> bool" where
  "apiserver_up cl c client \<longleftrightarrow> (\<exists>w1 b w2. Readyz cl client c w1 = (Ok b, w2))"

definition cluster_up :: "('e, 'c) cluster \<Rightarrow> ctx \<Rightarrow> string \<Rightarrow> bool" where
  "cluster_up cl c nodeName \<longleftrightarrow>
     (\<exists>client now. apiserver_up cl (WithTimeout c (seconds 180) now) client) \<and>
     (\<exists>client now. control_plane_up cl (WithTimeout c (seconds 180) now) client nodeName)"

text \<open>No request turns the clock back.\<close>

definition clock_ok :: "('e, 'c) cluster \<Rightarrow> bool" where
  "clock_ok cl \<longleftrightarrow> (\<forall>client c. forward (Readyz cl client c) \<and> (\<forall>n. forward (GetNode cl client c n)) \<and>
     (\<forall>ns n. forward (GetPod cl client c ns n)))"

lemma clock_ok_ref: "clock_ok cluster_ref"
  by (simp add: clock_ok_def cluster_ref_def)

lemma wp_apiserver_up:
  assumes "clock_ok cl"
  shows "wp (WaitForAPIServer cl (WithTimeout c t now) client) (\<lambda>_ _. apiserver_up cl (WithTimeout c t now) client)
    (\<lambda>_ _. True) (\<lambda>_. True) w"
proof -
  let ?c = "WithTimeout c t now" and ?probe = "Readyz cl client (WithTimeout c t now)"
  obtain d where d: "ctx_deadline ?c = Some d" using deadline_WithTimeout by blast
  obtain r where "wait_loop ?probe ?c w = Some r" "wait_verdict ?probe ?c w r"
    using wait_loop_returns [OF _ d, of ?probe w] assms by (auto simp: clock_ok_def)
  then show ?thesis
    by (auto simp: wp_only_const WaitForAPIServer_def run_partial_def wait_verdict_def apiserver_up_def) blast
qed

lemma wp_control_plane_up:
  assumes "clock_ok cl"
  shows "wp (WaitForControlPlane cl (WithTimeout c t now) client n) (\<lambda>_ _. control_plane_up cl (WithTimeout c t now) client n)
    (\<lambda>_ _. True) (\<lambda>_. True) w"
proof -
  obtain d where d: "ctx_deadline (WithTimeout c t now) = Some d" using deadline_WithTimeout by blast
  have "control_plane_verdict cl (WithTimeout c t now) client n w (WaitForControlPlane cl (WithTimeout c t now) client n w)"
    by (rule control_plane_returns [OF d, THEN conjunct2]) (use assms in \<open>simp add: clock_ok_def\<close>)
  then show ?thesis
    unfolding wp_only_const control_plane_verdict_def control_plane_up_def
    by (simp split: prod.splits outcome.splits) (meson seen_ready_asked)
qed

lemma wp_const_mono: "wp m (\<lambda>_ _. P) (\<lambda>_ _. True) (\<lambda>_. True) w \<Longrightarrow> (P \<Longrightarrow> R) \<Longrightarrow> wp m (\<lambda>_ _. R) (\<lambda>_ _. True) (\<lambda>_. True) w"
  by (auto simp: wp_only_const)

section \<open>A host for concrete runs\<close>

text \<open>Every external call succeeds at once, and one deployment is booted.\<close>

definition host_ref :: "(unit, unit, unit) host" where
  "host_ref = \<lparr>h_pki = conf_ref, h_phases = phases_ref, h_cluster = cluster_ref, h_cp = cp_ref,
     h_statfs = (\<lambda>p. ret (2 ^ 20, 4096)), h_wide = 0,
     h_rpm = ret ''{\"deployments\":[{\"id\":\"d.1\",\"booted\":true}]}'', h_order = (\<lambda>gs. gs),
     CombinedOutput = (\<lambda>c argv. ret ([], None)), SdNotify = (\<lambda>unset state. ret True), Unmount = (\<lambda>p. ret None),
     NewAggregate = (\<lambda>es. if es = [] then None else Some (Joined es)),
     CRI_Connect = (\<lambda>s. ret ()), CRI_Close = (\<lambda>s. ret ()), ListKubeContainers = (\<lambda>s. ret []),
     RemoveContainers = (\<lambda>s cs. ret ())\<rparr>"

lemma host_ref_parts [simp]: "h_pki host_ref = conf_ref" "h_phases host_ref = phases_ref" "h_cluster host_ref = cluster_ref"
  by (simp_all add: host_ref_def)

lemma keeps_answer_from: "keeps (on_fs P) (answer_from t x)"
  by (simp add: keeps_alt on_fs_def answer_from_def)

lemma quiet_ref: "host_quiet host_ref P"
  by (simp add: host_quiet_def host_ref_def cluster_ref_def phases_ref_def keeps_answer_from keeps_ret)

end
