(* ===== verification/Boot.thy ===== *)
theory Boot
  imports Host
begin

text \<open>
  \<open>internal/boot\<close>: \<open>picokube boot\<close>, the reconcile run of every reboot. The checks, the staging
  directory, a restore if greenboot has asked for one, the snapshot of the previous boot, the kubeadm phases and
  the certificates, kubelet, the two waits, the cluster-side reconciliation, and last the records of
  this boot and the notification of systemd. The rotation pass is in the theory \<open>Rotation\<close>. Log lines are
  without their tag.
\<close>

section \<open>Restoring\<close>

definition shortID :: "string \<Rightarrow> string" where
  "shortID i = (if length i \<le> 12 then i else take 12 i)"

definition shortPair :: "string \<Rightarrow> string \<Rightarrow> string" where
  "shortPair deploy boot = shortID deploy @ ''_'' @ shortID boot"

definition maybeRestore :: "'e cp \<Rightarrow> Layout \<Rightarrow> string \<Rightarrow> ('e, unit) io" where
  "maybeRestore cp l currentDeployment =
     bind (RestoreRequested l) (\<lambda>requested.
       if \<not> requested then ret ()
       else deferred (on_err (ClearRestoreMarker l) (\<lambda>e. logf (''clear restore marker failed: '' @ Error e)))
        (if currentDeployment = []
         then seq (logf ''restore marker present but no booted deployment id; ignoring'')
                (ignore (WriteLastEvent l ''restore requested but no deployment id''))
         else bind (LatestForDeployment l currentDeployment) (\<lambda>name.
           if name = []
           then seq (logf (''restore marker present but no backup for deployment '' @ shortID currentDeployment))
                  (ignore (WriteLastEvent l ''restore requested but no backup for current deployment''))
           else seq (logf (''restoring backup '' @ name))
               (seq (Restore cp l name)
               (bind (ReadMeta l name) (\<lambda>meta.
                seq (WriteLastBoot l meta)
                    (ignore (WriteLastEvent l (''restored backup '' @ name)))))))))"

section \<open>The snapshot of the previous boot\<close>

definition snapshot_previous :: "'e cp \<Rightarrow> Layout \<Rightarrow> bool \<Rightarrow> Workspace \<Rightarrow> string \<Rightarrow> string \<Rightarrow> LastBoot \<Rightarrow> bool \<Rightarrow> ('e, unit) io" where
  "snapshot_previous cp l useBackups workspace currentDeployment currentBoot prev hadPrev =
     (if useBackups \<and> hadPrev \<and> BootID prev \<noteq> [] \<and> BootID prev \<noteq> currentBoot then
        (if DeploymentID prev = [] \<or> DeploymentID prev \<noteq> currentDeployment
         then seq (logf (''skipping snapshot: prev deployment '' @ shortID (DeploymentID prev) @ '' != current '' @
                         shortID currentDeployment @ '' (likely ostree rebase)''))
                (ignore (WriteLastEvent l ''snapshot skipped: deployment id mismatch after rebase''))
         else let finalDir = Join (BackupsDir l) (Name prev) in
              seq (wrapf ''create backup''
                     (Create cp (case BackupTmp workspace of None \<Rightarrow> [] | Some d \<Rightarrow> d) finalDir prev l))
                  (logf (''snapshot of previous boot saved as '' @ shortPair (DeploymentID prev) (BootID prev))))
      else ret ())"

section \<open>Failures and notification\<close>

definition bootFailed :: "Layout \<Rightarrow> bool \<Rightarrow> string \<Rightarrow> string \<Rightarrow> gerr \<Rightarrow> ('e, 'a) io" where
  "bootFailed l upgrading prev self cause =
     seq (ignore (WriteLastEvent l
            (if upgrading then ''boot failed upgrading '' @ prev @ '' -> '' @ self @ '': '' @ Error cause
             else ''boot failed at '' @ self @ '': '' @ Error cause)))
         (throw cause)"

definition notifyReady :: "('e, 'g, 'c) host \<Rightarrow> ('e, unit) io" where
  "notifyReady h =
     bind (attempt (SdNotify h True ''READY=1'')) (\<lambda>r. case r of
       Inl e \<Rightarrow> logf (''sd_notify READY=1 failed (continuing): '' @ Error e)
     | Inr sent \<Rightarrow> if sent then logf ''sd_notify READY=1 sent'' else ret ())"

section \<open>Kubelet and the waits\<close>

definition startKubelet :: "('e, 'g, 'c) host \<Rightarrow> ctx \<Rightarrow> ('e, unit) io" where
  "startKubelet h c =
     seq (run_command h c ''systemctl start kubelet'' [''systemctl'', ''start'', ''--no-block'', ''kubelet.service''])
         (logf ''kubelet.service queued for start'')"

definition readyzTimeout :: int where
  "readyzTimeout = seconds (3 * 60)"

definition waitReadyz :: "('e, 'g, 'c) host \<Rightarrow> ctx \<Rightarrow> Layout \<Rightarrow> ('e, unit) io" where
  "waitReadyz h c l =
     seq (logf ''waiting for apiserver /readyz (timeout=3m0s)'')
    (bind (LoadAdmin (h_cluster h) (AdminKubeconfig l)) (\<lambda>client.
     bind time_Now (\<lambda>now.
       seq (WaitForAPIServer (h_cluster h) (WithTimeout c readyzTimeout now) client)
           (logf ''apiserver ready''))))"

definition controlPlaneTimeout :: int where
  "controlPlaneTimeout = seconds (3 * 60)"

definition waitControlPlane :: "('e, 'g, 'c) host \<Rightarrow> ctx \<Rightarrow> 'c \<Rightarrow> string \<Rightarrow> ('e, unit) io" where
  "waitControlPlane h c client nodeName =
     seq (logf ''waiting for node + control-plane static pods Ready (timeout=3m0s)'')
    (bind time_Now (\<lambda>now.
       seq (WaitForControlPlane (h_cluster h) (WithTimeout c controlPlaneTimeout now) client nodeName)
           (logf ''control plane ready'')))"

section \<open>The run\<close>

definition boot_checks :: "('e, 'g, 'c) host \<Rightarrow> Layout \<Rightarrow> bool \<Rightarrow> 'e check list" where
  "boot_checks h l isOSTree =
     [FSWritable [PicoKubeVarDir l, KubernetesDir l], CAExist l] @
     (if isOSTree then [SpacePreflight (h_statfs h) (h_wide h) (space_for l)] else [])"

text \<open>The steps from \<open>Ensure\<close> to the addons; \<open>boot_step\<close> records a failure before it is returned.\<close>

definition boot_step :: "Layout \<Rightarrow> bool \<Rightarrow> string \<Rightarrow> string \<Rightarrow> ('e, 'a) io \<Rightarrow> ('e, 'a) io" where
  "boot_step l upgrading prev self m = on_err m (bootFailed l upgrading prev self)"

definition reconcile :: "('e, 'g, 'c) host \<Rightarrow> ctx \<Rightarrow> 'g InitConfiguration \<Rightarrow> Layout \<Rightarrow> bool \<Rightarrow> string \<Rightarrow> string \<Rightarrow> ('e, unit) io" where
  "reconcile h c cfg l upgrading prev self =
     (let nodeName = NodeName cfg in
      seq (boot_step l upgrading prev self (wrapf ''ensure'' (Ensure (h_phases h) cfg l)))
     (seq (boot_step l upgrading prev self (rotateCertsIfStale (h_pki h) cfg l))
     (bind (boot_step l upgrading prev self (wrapf ''finalize kubelet.conf'' (FinalizeKubeletKubeconfig (h_pki h) l))) (\<lambda>changed.
      seq (if changed then logf ''kubelet.conf now references the rotated client certificate'' else ret ())
     (seq (boot_step l upgrading prev self (startKubelet h c))
     (seq (boot_step l upgrading prev self (waitReadyz h c l))
     (bind (boot_step l upgrading prev self (LoadAdmin (h_cluster h) (AdminKubeconfig l))) (\<lambda>client.
      seq (boot_step l upgrading prev self (waitControlPlane h c client nodeName))
     (seq (boot_step l upgrading prev self (wrapf ''mark control-plane'' (MarkControlPlane (h_phases h) client nodeName cfg)))
     (seq (boot_step l upgrading prev self
             (wrapf ''auto-approve node certificate rotation'' (AutoApproveNodeCertificateRotation (h_phases h) client)))
     (seq (boot_step l upgrading prev self
             (wrapf ''allow API server to access kubelet API'' (AllowAPIServerToAccessKubeletAPI (h_phases h) client)))
     (seq (logf ''allowed the apiserver kubelet client to access the kubelet API'')
          (boot_step l upgrading prev self (wrapf ''addons'' (EnsureAddons (h_phases h) cfg client)))))))))))))))"

definition prune_backups :: "('e, 'g, 'c) host \<Rightarrow> Layout \<Rightarrow> bool \<Rightarrow> ('e, unit) io" where
  "prune_backups h l useBackups =
     (if useBackups then
        bind (attempt (AllDeploymentIDs (h_rpm h))) (\<lambda>r. case r of
          Inl e \<Rightarrow> logf (''list deployments failed (skipping prune): '' @ Error e)
        | Inr deployments \<Rightarrow>
            on_err (Prune (h_order h) l deployments) (\<lambda>e. logf (''prune failed (continuing): '' @ Error e)))
      else ret ())"

definition announce :: "Layout \<Rightarrow> bool \<Rightarrow> LastBoot \<Rightarrow> string \<Rightarrow> ('e, unit) io" where
  "announce l hadPrev prev self =
     (if \<not> hadPrev then logf (''first healthy boot pending (version='' @ self @ '')'')
      else if Version prev \<noteq> self then
        seq (logf (''upgrade path: '' @ Version prev @ '' -> '' @ self))
            (ignore (WriteLastEvent l (''upgrading '' @ Version prev @ '' -> '' @ self)))
      else logf (''reconcile path (version='' @ self @ '')''))"

text \<open>The records of a healthy boot: neither may fail it.\<close>

definition record_boot :: "Layout \<Rightarrow> LastBoot \<Rightarrow> bool \<Rightarrow> LastBoot \<Rightarrow> ('e, unit) io" where
  "record_boot l now hadPrev prev =
     seq (on_err (WriteLastBoot l now) (\<lambda>e. logf (''write last-boot failed (continuing): '' @ Error e)))
         (ignore (WriteLastEvent l
            (if hadPrev \<and> Version prev \<noteq> Version now then ''upgraded '' @ Version prev @ '' -> '' @ Version now
             else if \<not> hadPrev then ''initialised at '' @ Version now
             else ''healthy at '' @ Version now)))"

text \<open>Everything between the staging directory and the notification.\<close>

definition boot_work :: "('e, 'g, 'c) host \<Rightarrow> ctx \<Rightarrow> 'g InitConfiguration \<Rightarrow> Layout \<Rightarrow> string \<Rightarrow> bool \<Rightarrow> Workspace \<Rightarrow> ('e, unit) io" where
  "boot_work h c cfg l self useBackups workspace =
     bind (if useBackups then wrapf ''booted deployment id'' (BootedDeploymentID (h_rpm h))
           else seq (logf ''non-ostree system: backup/restore disabled'') (ret [])) (\<lambda>currentDeployment.
     bind backup_BootID (\<lambda>currentBoot.
     seq (if useBackups then wrapf ''restore'' (maybeRestore (h_cp h) l currentDeployment) else ret ())
    (bind (ReadLastBoot l) (\<lambda>(prev, hadPrev).
     seq (snapshot_previous (h_cp h) l useBackups workspace currentDeployment currentBoot prev hadPrev)
    (seq (announce l hadPrev prev self)
    (seq (reconcile h c cfg l (hadPrev \<and> Version prev \<noteq> self) (Version prev) self)
    (seq (prune_backups h l useBackups)
         (record_boot l \<lparr>Version = self, DeploymentID = currentDeployment, BootID = currentBoot\<rparr> hadPrev prev))))))))"

definition boot_Run :: "('e, 'g, 'c) host \<Rightarrow> ctx \<Rightarrow> 'g InitConfiguration \<Rightarrow> Layout \<Rightarrow> string \<Rightarrow> ('e, unit) io" where
  "boot_Run h c cfg l self =
     bind (wrapf ''detect ostree'' IsOSTree) (\<lambda>isOSTree.
     seq (wrapf ''preflight'' (preflight_Run c (boot_checks h l isOSTree)))
    (bind (wrapf ''allocate workspace'' (AllocateWorkspace l isOSTree)) (\<lambda>(workspace, cleanup).
     deferred cleanup
       (seq (boot_work h c cfg l self isOSTree workspace)
       (seq (notifyReady h)
            (logf ''boot complete''))))))"

text \<open>What all of its calls keep, the whole of \<open>reconcile\<close> keeps.\<close>

lemma keeps_reconcile_calls:
  fixes h :: "('e, 'g, 'c) host"
  assumes quiet: "host_quiet h P" and conf: "files_quiet (h_pki h) l P" and client: "keeps (on_fs P) (LoadAdmin (h_cluster h) (AdminKubeconfig l))"
    and event: "\<And>m. keeps (on_fs P) (WriteLastEvent l m :: ('e, unit) io)"
    and ensure: "keeps (on_fs P) (Ensure (h_phases h) cfg l)" and rotate: "keeps (on_fs P) (rotateCertsIfStale (h_pki h) cfg l)"
  shows "keeps (on_fs P) (reconcile h c cfg l up p self)"
proof -
  note calls = quiet [unfolded host_quiet_def]
  have step: "keeps (on_fs P) (boot_step l up p self m)" if "keeps (on_fs P) m" for m :: "('e, 'a) io"
    unfolding boot_step_def bootFailed_def by (intro keeps_on_err that keeps_seq keeps_ignore event keeps_throw)
  have start: "keeps (on_fs P) (startKubelet h c)"
    unfolding startKubelet_def by (intro keeps_rules keeps_run_command quiet)
  have readyz: "keeps (on_fs P) (waitReadyz h c l)"
    unfolding waitReadyz_def by (intro keeps_rules client keeps_WaitForAPIServer) (use calls in blast)
  have plane: "keeps (on_fs P) (waitControlPlane h c client n)" for client n
    unfolding waitControlPlane_def by (intro keeps_rules keeps_WaitForControlPlane) (use calls in blast)+
  show ?thesis
    unfolding reconcile_def EnsureAddons_def Let_def
    by (intro keeps_rules step ensure rotate keeps_Finalize [OF conf] start readyz client plane)
      (use calls in \<open>blast\<close>)+
qed

section \<open>The snapshot and the restore on the file system\<close>

lemma restored_frame: "restored l n fs v \<Longrightarrow> same_on (live_area l) v v' \<Longrightarrow> restored l n fs v'"
  unfolding restored_def live_area_def
  by (auto simp: same_on_def sub_def fun_eq_iff)

lemma old_or_restored_frame: "old_or_restored l n fs v \<Longrightarrow> same_on (live_area l) v v' \<Longrightarrow> old_or_restored l n fs v'"
proof -
  assume v: "old_or_restored l n fs v" and s: "same_on (live_area l) v v'"
  have "sub v' (EtcdDataDir l) = sub v (EtcdDataDir l)" "sub v' (KubernetesDir l) = sub v (KubernetesDir l)"
    by (rule same_on_sub [OF s]; simp add: live_area_def sup.coboundedI1)+
  moreover have "look v' (KubeletDir l @ [f]) = look v (KubeletDir l @ [f])" for f
    by (rule same_on_look [OF s]) (simp add: live_area_def)
  ultimately show ?thesis using v by (simp add: old_or_restored_def tree_safe_def)
qed

lemma restored_old_or: "restored l n fs v \<Longrightarrow> old_or_restored l n fs v"
  by (simp add: restored_def old_or_restored_def tree_safe_def)

lemma keeps_clear: "layout_ok l \<Longrightarrow> RestoreMarker l \<notin> Z \<Longrightarrow> keeps (on_fs (same_on Z v0)) (ClearRestoreMarker l)"
  unfolding ClearRestoreMarker_def by (intro keeps_rules)

lemma fwp_RestoreRequested:
  assumes "C fs" "\<And>e. E e fs" "Q (look fs (RestoreMarker l) \<noteq> None) fs"
  shows "fwp (RestoreRequested l) Q E C fs"
  unfolding RestoreRequested_def
  by (intro fwp_bind fwp_attempt fwp_Stat fwp_case_sum fwp_if fwp_ret fwp_throw)
    (use assms in \<open>auto simp: look_def\<close>)

text \<open>The metadata of a backup.\<close>

definition meta_of :: "Layout \<Rightarrow> fsys \<Rightarrow> string \<Rightarrow> LastBoot option" where
  "meta_of l fs n = (case look fs (BackupsDir l @ [n, metaFileName]) of
     Some (File m b) \<Rightarrow> Unmarshal b | _ \<Rightarrow> None)"

lemma fwp_ReadMeta:
  assumes "simple_name n" "C fs" "\<And>e. E e fs" "\<And>meta. meta_of l fs n = Some meta \<Longrightarrow> Q meta fs"
  shows "fwp (ReadMeta l n) Q E C fs"
  unfolding ReadMeta_def
  by (intro fwp_bind fwp_wrapf fwp_ReadFile fwp_case_option fwp_throw fwp_ret)
    (use assms in \<open>auto simp: meta_of_def path_simps\<close>)

text \<open>What restoring the backup \<open>n\<close> leaves behind, when it is complete and when it is cut off.\<close>

definition restore_done :: "Layout \<Rightarrow> string \<Rightarrow> fsys \<Rightarrow> fsys \<Rightarrow> bool" where
  "restore_done l n fs v \<longleftrightarrow> restored l n fs v \<and> same_on (backup_area l) fs v \<and>
     (\<exists>meta. meta_of l fs n = Some meta \<and> look v (LastBootFile l) = Some (File 0x180 (Marshal meta)))"

definition restore_cut :: "Layout \<Rightarrow> string \<Rightarrow> fsys \<Rightarrow> fsys \<Rightarrow> bool" where
  "restore_cut l n fs v \<longleftrightarrow> old_or_restored l n fs v \<and> same_on (backup_area l) fs v"

lemma restore_done_cut: "restore_done l n fs v \<Longrightarrow> restore_cut l n fs v"
  by (simp add: restore_done_def restore_cut_def restored_old_or)

lemma last_boot_region:
  assumes "layout_ok l"
  shows "LastBootFile l \<notin> live_area l \<union> below (BackupsDir l)" "LastBootFile l \<noteq> RestoreMarker l"
proof -
  have "LastBootFile l \<in> below (StateDir l)"
    using assms by (auto simp: layout_ok_def) (metis prefixeq_butlast)
  then show "LastBootFile l \<notin> live_area l \<union> below (BackupsDir l)" using state_region [OF assms] by blast
  moreover have "RestoreMarker l \<in> below (BackupsDir l)" using assms by (simp add: layout_ok_def)
  ultimately show "LastBootFile l \<noteq> RestoreMarker l" by auto
qed

lemma restore_frames:
  "restore_cut l n fs v \<Longrightarrow> same_on (live_area l \<union> backup_area l) v v' \<Longrightarrow> restore_cut l n fs v'"
  "restore_done l n fs v \<Longrightarrow> same_on (live_area l \<union> backup_area l \<union> {LastBootFile l}) v v' \<Longrightarrow> restore_done l n fs v'"
proof -
  assume v: "restore_cut l n fs v" and s: "same_on (live_area l \<union> backup_area l) v v'"
  have "old_or_restored l n fs v'" "same_on (backup_area l) v v'"
    using v old_or_restored_frame [of l n fs v v'] same_on_mono [OF s] by (auto simp: restore_cut_def)
  then show "restore_cut l n fs v'" using v same_on_trans by (auto simp: restore_cut_def)
next
  assume v: "restore_done l n fs v" and s: "same_on (live_area l \<union> backup_area l \<union> {LastBootFile l}) v v'"
  have "restored l n fs v'" "same_on (backup_area l) v v'" "look v' (LastBootFile l) = look v (LastBootFile l)"
    using v restored_frame [of l n fs v v'] same_on_mono [OF s] same_on_look [OF s] by (auto simp: restore_done_def)
  then show "restore_done l n fs v'" using v same_on_trans by (auto simp: restore_done_def)
qed

lemma marker_region: "layout_ok l \<Longrightarrow> RestoreMarker l \<notin> live_area l \<union> backup_area l"
proof -
  assume l: "layout_ok l"
  then have "RestoreMarker l \<in> below (BackupsDir l)" by (simp add: layout_ok_def)
  moreover have "live_area l \<inter> below (BackupsDir l) = {}"
    using layout_okD(4-6) [OF l] by (auto simp: live_area_def below_apart)
  ultimately show ?thesis by (auto simp: backup_area_def)
qed

lemma keeps_done_clear:
  assumes "layout_ok l"
  shows "keeps (on_fs (restore_done l n fs)) (ClearRestoreMarker l)"
    "keeps (on_fs (restore_cut l n fs)) (ClearRestoreMarker l)"
proof -
  have out: "RestoreMarker l \<notin> live_area l \<union> backup_area l \<union> {LastBootFile l}"
    using marker_region [OF assms] last_boot_region(2) [OF assms] by auto
  show "keeps (on_fs (restore_done l n fs)) (ClearRestoreMarker l)"
    by (rule keeps_from_frame [OF keeps_clear [OF assms out]]) (rule restore_frames(2))
  show "keeps (on_fs (restore_cut l n fs)) (ClearRestoreMarker l)"
    by (intro keeps_from_frame [OF keeps_clear [OF assms marker_region [OF assms]]]) (rule restore_frames(1))
qed

lemma keeps_done_event: "layout_ok l \<Longrightarrow> keeps (on_fs (restore_done l n fs)) (WriteLastEvent l msg)"
proof -
  assume l: "layout_ok l"
  have "keeps (on_fs (same_on (live_area l \<union> backup_area l \<union> {LastBootFile l}) v0)) (WriteLastEvent l msg)" for v0
    unfolding keeps_alt on_fs_def
  proof (intro allI impI)
    fix w :: "'e world"
    assume w: "same_on (live_area l \<union> backup_area l \<union> {LastBootFile l}) v0 (w_fs w)"
    have "same_on (live_area l \<union> below (BackupsDir l)) (w_fs w) (w_fs (snd (WriteLastEvent l msg w)))"
      "same_on {LastBootFile l} (w_fs w) (w_fs (snd (WriteLastEvent l msg w)))"
      by (rule frame_step keeps_event [OF l] keeps_event_last_boot [OF l])+
    then show "same_on (live_area l \<union> backup_area l \<union> {LastBootFile l}) v0 (w_fs (snd (WriteLastEvent l msg w)))"
      using w by (auto simp: same_on_def backup_area_def)
  qed
  then show ?thesis using restore_frames(2) by (rule keeps_from_frame)
qed

context cp_tool begin

lemma fwp_restore_backup:
  assumes l: "layout_ok l" and n: "simple_name n" and wf: "wf_fs fs"
  shows "fwp (seq (Restore cp l n) (bind (ReadMeta l n) (\<lambda>meta. seq (WriteLastBoot l meta) (ignore (WriteLastEvent l (m n))))))
    (\<lambda>_. restore_done l n fs) (\<lambda>_. restore_cut l n fs) (restore_cut l n fs) fs"
proof -
  have keep: "keeps (on_fs (same_on (below (BackupsDir l)) fs)) (Restore cp l n)"
    by (rule keeps_Restore [OF l]) (rule restore_regions_apart(1) [OF l])
  have cut: "restore_cut l n fs v" if "same_on (below (BackupsDir l)) fs v" "old_or_restored l n fs v" for v
    using that by (auto simp: restore_cut_def backup_area_def intro: same_on_mono)
  have meta: "meta_of l v n = meta_of l fs n" if "same_on (below (BackupsDir l)) fs v" for v
    using same_on_look [OF that, of "BackupsDir l @ [n, metaFileName]"] by (simp add: meta_of_def)
  have commit: "fwp (seq (WriteLastBoot l mt) (ignore (WriteLastEvent l (m n))))
      (\<lambda>_. restore_done l n fs) (\<lambda>_. restore_cut l n fs) (restore_cut l n fs) v"
    if v: "same_on (below (BackupsDir l)) fs v" "restored l n fs v" "meta_of l fs n = Some mt" for v mt
  proof -
    have base: "restore_cut l n fs v" using cut v(1,2) restored_old_or by blast
    have near: "restore_cut l n fs v'" if "same_on (live_area l \<union> below (BackupsDir l)) v v'" for v'
      using restore_frames(1) [OF base same_on_mono [OF that]] by (auto simp: backup_area_def)
    have full: "restore_done l n fs v'"
      if s: "same_on (live_area l \<union> below (BackupsDir l)) v v'" and k: "look v' (LastBootFile l) = Some (File 0x180 (Marshal mt))" for v'
      using near [OF s] restored_frame [OF v(2) same_on_mono [OF s]] v(3) k by (auto simp: restore_done_def restore_cut_def)
    have event: "fwp (WriteLastEvent l (m n)) (\<lambda>_. restore_done l n fs) (\<lambda>_. restore_done l n fs) (restore_cut l n fs) v'"
      if "restore_done l n fs v'" for v'
      by (rule fwp_mono [OF fwp_keeps [OF keeps_done_event [OF l] that]]) (simp_all add: restore_done_cut)
    show ?thesis
      by (intro fwp_seq fwp_WriteLastBoot [OF l] fwp_ignore) (simp_all add: near full event)
  qed
  show ?thesis
  proof (rule fwp_seq, rule fwp_mono [OF fwp_with_invariant [OF keep same_on_refl fwp_Restore [OF l n wf]]], goal_cases)
    case (1 u v)
    then have v: "same_on (below (BackupsDir l)) fs v" "restored l n fs v" by simp_all
    have "restore_cut l n fs v" using cut [OF v(1)] restored_old_or [OF v(2)] .
    then show ?case
      by (intro fwp_bind fwp_ReadMeta [OF n] commit [OF v]) (simp_all add: meta [OF v(1)])
  qed (simp_all add: cut)
qed

end

lemma fwp_maybeRestore:
  fixes cp :: "'e cp"
  assumes "cp_tool cp" and "layout_ok l" and "wf_fs fs" and "names_ok fs" and "deployment \<noteq> []"
  defines "n \<equiv> newest_of l fs (matching l fs deployment)"
  shows "fwp (maybeRestore cp l deployment)
    (\<lambda>_ v. if look fs (RestoreMarker l) = None then v = fs
          else if matching l fs deployment = [] then same_on (live_area l \<union> backup_area l) fs v
          else restore_done l n fs v)
    (\<lambda>_ v. restore_cut l n fs v) (\<lambda>v. restore_cut l n fs v) fs"
proof -
  have refl: "restore_cut l n fs fs" by (simp add: restore_cut_def old_or_restored_refl)
  have same: "restore_cut l n fs v" if "same_on (live_area l \<union> backup_area l) fs v" for v
    using restore_frames(1) [OF refl that] .
  have clear: "keeps (on_fs P) (on_err (ClearRestoreMarker l) (\<lambda>e. logf (msg e)) :: ('e, unit) io)"
    if "keeps (on_fs P) (ClearRestoreMarker l :: ('e, unit) io)" for P and msg :: "gerr \<Rightarrow> string"
    using that by (intro keeps_rules)
  have none: "fwp (seq (logf m2) (ignore (WriteLastEvent l m3)) :: ('e, unit) io)
      (\<lambda>_. same_on (live_area l \<union> backup_area l) fs) (\<lambda>_. restore_cut l n fs) (restore_cut l n fs) fs" for m2 m3
  proof -
    have "keeps (on_fs (same_on (live_area l \<union> backup_area l) fs)) (seq (logf m2) (ignore (WriteLastEvent l m3)) :: ('e, unit) io)"
      by (intro keeps_seq keeps_logf keeps_ignore keeps_from_frame [OF keeps_event [OF assms(2)]])
        (auto simp: same_on_def backup_area_def)
    from fwp_keeps [OF this same_on_refl] show ?thesis by (rule fwp_mono) (simp_all add: same)
  qed
  have name: "simple_name n" "n \<noteq> []" if "matching l fs deployment \<noteq> []"
  proof -
    have "n \<in> set (matching l fs deployment)" unfolding n_def by (rule newest_of_in(1) [OF that])
    then have "n \<in> set (listed l fs)" by (simp add: matching_def)
    then show "simple_name n" "n \<noteq> []"
      using listed_ok [OF assms(4), of "listed l fs"] listed_in [of n l fs] by auto
  qed
  have run: "fwp (seq (logf m2) (seq (Restore cp l n) (bind (ReadMeta l n) (\<lambda>meta. seq (WriteLastBoot l meta) (ignore (WriteLastEvent l (m3 n)))))))
      (\<lambda>_. restore_done l n fs) (\<lambda>_. restore_cut l n fs) (restore_cut l n fs) fs"
    if "matching l fs deployment \<noteq> []" for m2 m3
    by (rule fwp_seq, rule fwp_logf, rule cp_tool.fwp_restore_backup [OF assms(1,2) name(1) [OF that] assms(3)])
  let ?Q = "\<lambda>v. if matching l fs deployment = [] then same_on (live_area l \<union> backup_area l) fs v else restore_done l n fs v"
  have body: "fwp (bind (LatestForDeployment l deployment) (\<lambda>name. if name = [] then seq (logf m1) (ignore (WriteLastEvent l m2))
      else seq (logf (m3 name)) (seq (Restore cp l name) (bind (ReadMeta l name) (\<lambda>meta. seq (WriteLastBoot l meta)
        (ignore (WriteLastEvent l (m4 name)))))))) (\<lambda>_. ?Q) (\<lambda>_. restore_cut l n fs) (restore_cut l n fs) fs" for m1 m2 m3 m4
  proof (rule fwp_bind, rule fwp_LatestForDeployment [OF assms(4)], goal_cases)
    case 3
    show ?case
    proof (cases "matching l fs deployment = []")
      case True
      then have "n = []" by (simp add: n_def newest_of_def entries_of_def)
      with True none show ?thesis by (simp add: n_def)
    next
      case False
      with name(2) run show ?thesis by (simp add: n_def)
    qed
  qed (simp_all add: refl)
  have Q_keeps: "keeps (on_fs ?Q) (ClearRestoreMarker l :: ('e, unit) io)"
    using keeps_done_clear(1) [OF assms(2)] keeps_clear [OF assms(2) marker_region [OF assms(2)]]
    by (cases "matching l fs deployment = []") simp_all
  show ?thesis
    unfolding maybeRestore_def
  proof (rule fwp_bind, rule fwp_RestoreRequested, goal_cases)
    case 3
    show ?case
    proof (cases "look fs (RestoreMarker l) = None")
      case True
      then show ?thesis by (simp add: fwp_ret)
    next
      case False
      have done_cut: "restore_cut l n fs v" if "?Q v" for v
        using that restore_done_cut same by (cases "matching l fs deployment = []") simp_all
      show ?thesis
        by (simp only: False assms(5) simp_thms if_False,
            rule fwp_deferred_keeps [OF body clear [OF Q_keeps] clear [OF keeps_done_clear(2) [OF assms(2)]]])
          (use done_cut in simp_all)
    qed
  qed (simp_all add: refl)
qed

section \<open>Properties\<close>

text \<open>C7: a requested restore. Without a marker nothing happens. With one and no backup of the booted deployment, the
  live trees and the backups stay as they are. Otherwise a normal return leaves exactly the trees of a newest backup
  of that deployment, and that backup's metadata as the record of the previous boot; an error or a power loss
  leaves each tree old or restored. The backups themselves are never changed.\<close>

theorem maybe_restore:
  fixes cp :: "'e cp"
  assumes "cp_tool cp" and "layout_ok l" and "wf_fs fs" and "names_ok fs" and "deployment \<noteq> []"
  defines "n \<equiv> newest_of l fs (matching l fs deployment)"
  shows "fwp (maybeRestore cp l deployment)
    (\<lambda>_ v. if look fs (RestoreMarker l) = None then v = fs
          else if matching l fs deployment = [] then same_on (live_area l \<union> backup_area l) fs v
          else restore_done l n fs v)
    (\<lambda>_ v. restore_cut l n fs v) (\<lambda>v. restore_cut l n fs v) fs"
  unfolding n_def using assms(1-5) by (rule fwp_maybeRestore)

definition marked_fs :: fsys where
  "marked_fs = put (RestoreMarker Default) (File 0x1A4 []) 10 shelf_fs"

theorem maybe_restore_witness:
  "fwp (maybeRestore cp_ref Default ''d.1'')
    (\<lambda>_ v. if look marked_fs (RestoreMarker Default) = None then v = marked_fs
          else if matching Default marked_fs ''d.1'' = [] then same_on (live_area Default \<union> backup_area Default) marked_fs v
          else restore_done Default ''d.1_b4'' marked_fs v)
    (\<lambda>_ v. restore_cut Default ''d.1_b4'' marked_fs v) (\<lambda>v. restore_cut Default ''d.1_b4'' marked_fs v) marked_fs \<and>
   look marked_fs (RestoreMarker Default) \<noteq> None \<and> matching Default marked_fs ''d.1'' \<noteq> []"
proof -
  have f: "wf_fs marked_fs" "names_ok marked_fs" by code_simp+
  have n: "newest_of Default marked_fs (matching Default marked_fs ''d.1'') = ''d.1_b4''" by code_simp
  have nz: "look marked_fs (RestoreMarker Default) \<noteq> None" "matching Default marked_fs ''d.1'' \<noteq> []" "''d.1'' \<noteq> []"
    by code_simp+
  show ?thesis
    by (intro conjI nz(1,2)) (rule maybe_restore [OF cpref.cp_tool_axioms layout_ok_Default f nz(3), unfolded n])
qed

lemma fwp_note:
  assumes "layout_ok l" and "\<And>v. same_on (- (below (StateDir l) \<union> above (StateDir l))) fs v \<Longrightarrow> C v \<and> Q () v"
  shows "fwp (seq (logf m) (ignore (WriteLastEvent l m'))) Q E C fs"
proof -
  have "keeps (on_fs (same_on (- (below (StateDir l) \<union> above (StateDir l))) fs)) (WriteLastEvent l m' :: ('a, unit) io)"
    by (intro keeps_WriteLastEvent assms(1)) auto
  from fwp_keeps [OF this same_on_refl] show ?thesis
    by (intro fwp_seq fwp_logf fwp_ignore) (erule fwp_mono; simp add: assms(2))
qed

text \<open>C8: which snapshot a boot takes. A backup is made exactly when the record of the previous boot names another boot
  of the very deployment that is booted now, and no backup of that name exists; it is then the snapshot of the
  live state under that record's name, whole or not at all. In every other case, a rebase above all, nothing
  outside the state directory changes and the step cannot fail.\<close>

theorem snapshot_gate:
  fixes l :: Layout and prev :: LastBoot and currentDeployment currentBoot :: string and hadPrev :: bool
  defines "take_it \<equiv> hadPrev \<and> BootID prev \<noteq> [] \<and> BootID prev \<noteq> currentBoot \<and> DeploymentID prev \<noteq> [] \<and>
      DeploymentID prev = currentDeployment"
    and "R \<equiv> BackupsDir l @ [Name prev]"
    and "quiet \<equiv> - (below (StateDir l) \<union> above (StateDir l))"
  assumes "cp_tool cp" and "wf_fs fs" and "layout_ok l" and "sub fs (staging_dir l) = empty_dir"
    and "simple_name (Name prev)" and "Name prev \<noteq> stagingSubdir"
  shows "fwp (snapshot_previous cp l True \<lparr>BackupTmp = Some (staging_dir l)\<rparr> currentDeployment currentBoot prev hadPrev)
    (\<lambda>_ v. if take_it \<and> look fs R = None
          then sub v R = snapshot l prev fs \<and> same_on (- (below (staging_dir l) \<union> below R)) fs v
          else same_on quiet fs v)
    (\<lambda>_ v. take_it \<and> same_on (- below (staging_dir l)) fs v)
    (\<lambda>v. same_on (quiet - below (staging_dir l)) fs v) fs"
proof (cases take_it)
  case True
  then have "currentDeployment \<noteq> []" by (auto simp: take_it_def)
  with True have "snapshot_previous cp l True \<lparr>BackupTmp = Some (staging_dir l)\<rparr> currentDeployment currentBoot prev hadPrev =
      seq (wrapf ''create backup'' (Create cp (staging_dir l) R prev l))
        (logf (''snapshot of previous boot saved as '' @ shortPair (DeploymentID prev) (BootID prev)))"
    using assms(8) by (simp add: snapshot_previous_def take_it_def Let_def R_def path_simps)
  moreover have "fwp (Create cp (staging_dir l) R prev l)
    (\<lambda>_ v. if look fs R = None then revealed l prev (staging_dir l) R fs v else v = fs)
    (\<lambda>_. same_on (- below (staging_dir l)) fs) (same_on (- below (staging_dir l)) fs) fs"
    unfolding R_def using assms(4-7) simple_apart [OF assms(9)] by (intro cp_tool.fwp_Create [OF _ _ _ staging_dir_eq])
  ultimately show ?thesis
    by (simp only:, intro fwp_seq fwp_wrapf, elim fwp_mono)
      (auto simp: revealed_def True intro!: fwp_logf intro: same_on_mono split: if_splits)
next
  case False
  have near: "same_on quiet fs v \<Longrightarrow> same_on (quiet - below (staging_dir l)) fs v" for v
    by (auto simp: same_on_def)
  have told: "fwp (seq (logf m) (ignore (WriteLastEvent l m'))) (\<lambda>_ v. same_on quiet fs v) (\<lambda>_ _. False)
      (same_on (quiet - below (staging_dir l)) fs) fs" for m m'
    by (rule fwp_note [OF assms(6)]) (use near in \<open>simp add: quiet_def\<close>)
  have "fwp (snapshot_previous cp l True \<lparr>BackupTmp = Some (staging_dir l)\<rparr> currentDeployment currentBoot prev hadPrev)
      (\<lambda>_ v. same_on quiet fs v) (\<lambda>_ _. False) (same_on (quiet - below (staging_dir l)) fs) fs"
  proof (cases "hadPrev \<and> BootID prev \<noteq> [] \<and> BootID prev \<noteq> currentBoot")
    case True
    with False have "DeploymentID prev = [] \<or> DeploymentID prev \<noteq> currentDeployment" by (auto simp: take_it_def)
    with True told show ?thesis by (simp only: snapshot_previous_def simp_thms if_True)
  next
    case False
    then have "\<not> (True \<and> hadPrev \<and> BootID prev \<noteq> [] \<and> BootID prev \<noteq> currentBoot)" by simp
    then show ?thesis by (simp only: snapshot_previous_def if_False) (simp add: fwp_ret)
  qed
  then show ?thesis by (simp only: False simp_thms if_False)
qed

theorem snapshot_gate_witness:
  "fwp (snapshot_previous cp_ref Default True \<lparr>BackupTmp = Some (staging_dir Default)\<rparr> ''d.1'' ''b3'' sample_meta True)
    (\<lambda>_ v. if (True \<and> BootID sample_meta \<noteq> [] \<and> BootID sample_meta \<noteq> ''b3'' \<and> DeploymentID sample_meta \<noteq> [] \<and>
             DeploymentID sample_meta = ''d.1'') \<and> look staged_fs (BackupsDir Default @ [Name sample_meta]) = None
          then sub v (BackupsDir Default @ [Name sample_meta]) = snapshot Default sample_meta staged_fs \<and>
               same_on (- (below (staging_dir Default) \<union> below (BackupsDir Default @ [Name sample_meta]))) staged_fs v
          else same_on (- (below (StateDir Default) \<union> above (StateDir Default))) staged_fs v)
    (\<lambda>_ v. (True \<and> BootID sample_meta \<noteq> [] \<and> BootID sample_meta \<noteq> ''b3'' \<and> DeploymentID sample_meta \<noteq> [] \<and>
             DeploymentID sample_meta = ''d.1'') \<and> same_on (- below (staging_dir Default)) staged_fs v)
    (\<lambda>v. same_on (- (below (StateDir Default) \<union> above (StateDir Default)) - below (staging_dir Default)) staged_fs v)
    staged_fs \<and>
   BootID sample_meta \<noteq> ''b3'' \<and> DeploymentID sample_meta = ''d.1'' \<and>
   look staged_fs (BackupsDir Default @ [Name sample_meta]) = None"
proof -
  have "BootID sample_meta \<noteq> ''b3'' \<and> DeploymentID sample_meta = ''d.1'' \<and>
     look staged_fs (BackupsDir Default @ [Name sample_meta]) = None" by code_simp
  then show ?thesis
    by (intro conjI snapshot_gate [OF cpref.cp_tool_axioms staged_fs_ready(1) layout_ok_Default staged_fs_ready(2)])
      (simp_all add: Name_def sample_meta_def stagingSubdir_def simple_name_def)
qed

section \<open>When systemd is told\<close>

lemma no_error_notifyReady: "no_error (notifyReady h)"
  unfolding notifyReady_def by (intro no_error_bind) (auto split: sum.split)

lemma seq_error: "seq m k w = (Err e, v) \<Longrightarrow> no_error k \<Longrightarrow> m w = (Err e, v)"
  by (auto simp: seq_def bind_def no_error_def split: prod.splits outcome.splits) (metis fst_conv)+

lemma error_seq: "m w = (Err e, v) \<Longrightarrow> seq m k w = (Err e, v)"
  by (simp add: seq_def bind_def)

lemma bind_error:
  "bind m f w = (Err e, v) \<longleftrightarrow> m w = (Err e, v) \<or> (\<exists>x w1. m w = (Ok x, w1) \<and> f x w1 = (Err e, v))"
  by (auto simp: bind_def split: prod.splits outcome.splits)

lemma boot_without_notify:
  "boot_checks (h\<lparr>SdNotify := f\<rparr>) = boot_checks h" "boot_work (h\<lparr>SdNotify := f\<rparr>) = boot_work h"
  by (simp_all add: boot_checks_def boot_work_def reconcile_def prune_backups_def startKubelet_def run_command_def
      waitReadyz_def waitControlPlane_def fun_eq_iff)

text \<open>C11: systemd is never told that a failed boot is ready. A boot that returns an error does not depend on the
  notification at all: with any other implementation of it the run from the same world ends with the same error in
  the same world.\<close>

theorem boot_error_not_ready:
  assumes "boot_Run h c cfg l self w = (Err e, v)"
  shows "boot_Run (h\<lparr>SdNotify := f\<rparr>) c cfg l self w = (Err e, v)"
proof -
  have tail: "deferred cleanup (seq m (seq (notifyReady h') (logf s'))) w1 = (Err e, v)"
    if "deferred cleanup (seq m (seq (notifyReady h) (logf s))) w1 = (Err e, v)" for cleanup m h' s s' w1
    using that unfolding deferred_error
    by (blast intro: error_seq dest: seq_error [OF _ no_error_seq [OF no_error_notifyReady no_error_simps(2)]])
  show ?thesis
    using assms unfolding boot_Run_def boot_without_notify seq_def [of "wrapf _ _"] bind_error
    by (auto intro: tail)
qed

theorem boot_error_not_ready_witness:
  "\<exists>e v. boot_Run host_ref Background sample_cfg Default ''v2'' (world_at calm_orc shelf_fs) = (Err e, v) \<and>
    boot_Run (host_ref\<lparr>SdNotify := \<lambda>unset state. throw Canceled\<rparr>) Background sample_cfg Default ''v2'' (world_at calm_orc shelf_fs) = (Err e, v)"
proof -
  let ?r = "boot_Run host_ref Background sample_cfg Default ''v2'' (world_at calm_orc shelf_fs)"
  have "(case fst ?r of Err e \<Rightarrow> True | _ \<Rightarrow> False)" by code_simp
  then obtain e v where "?r = (Err e, v)" by (cases ?r) (auto split: outcome.splits)
  then show ?thesis using boot_error_not_ready by blast
qed

section \<open>Parts of a healthy boot\<close>

lemma wp_boot_step:
  "wp m (\<lambda>_ _. P) (\<lambda>_ _. True) (\<lambda>_. True) w \<Longrightarrow> wp (boot_step l up p self m) (\<lambda>_ _. P) (\<lambda>_ _. True) (\<lambda>_. True) w"
  unfolding boot_step_def by (erule wp_on_err_const) (simp add: bootFailed_def wp_seq wp_throw wp_skip)

lemma wp_waitReadyz:
  assumes "clock_ok (h_cluster h)"
  shows "wp (waitReadyz h c l) (\<lambda>_ _. \<exists>client now. apiserver_up (h_cluster h) (WithTimeout c (seconds 180) now) client)
    (\<lambda>_ _. True) (\<lambda>_. True) w"
  unfolding waitReadyz_def readyzTimeout_def
  by (rule wp_after_seq, rule wp_after_bind, rule wp_after_bind, rule wp_seq_const, rule wp_const_mono [OF wp_apiserver_up [OF assms]])
    auto

lemma wp_waitControlPlane:
  assumes "clock_ok (h_cluster h)"
  shows "wp (waitControlPlane h c client n) (\<lambda>_ _. \<exists>client now. control_plane_up (h_cluster h) (WithTimeout c (seconds 180) now) client n)
    (\<lambda>_ _. True) (\<lambda>_. True) w"
  unfolding waitControlPlane_def controlPlaneTimeout_def
  by (rule wp_after_seq, rule wp_after_bind, rule wp_seq_const, rule wp_const_mono [OF wp_control_plane_up [OF assms]]) auto

lemma wp_reconcile:
  assumes "clock_ok (h_cluster h)"
  shows "wp (reconcile h c cfg l up p self) (\<lambda>_ _. cluster_up (h_cluster h) c (NodeName cfg)) (\<lambda>_ _. True) (\<lambda>_. True) w"
proof -
  have "wp (reconcile h c cfg l up p self) (\<lambda>_ _. \<exists>client now. apiserver_up (h_cluster h) (WithTimeout c (seconds 180) now) client)
      (\<lambda>_ _. True) (\<lambda>_. True) w"
    unfolding reconcile_def Let_def
    by (rule wp_after_seq, rule wp_after_seq, rule wp_after_bind, rule wp_after_seq, rule wp_after_seq, rule wp_seq_const,
        rule wp_boot_step, rule wp_waitReadyz [OF assms])
  moreover have "wp (reconcile h c cfg l up p self) (\<lambda>_ _. \<exists>client now. control_plane_up (h_cluster h) (WithTimeout c (seconds 180) now) client (NodeName cfg))
      (\<lambda>_ _. True) (\<lambda>_. True) w"
    unfolding reconcile_def Let_def
    by (rule wp_after_seq, rule wp_after_seq, rule wp_after_bind, rule wp_after_seq, rule wp_after_seq, rule wp_after_seq,
        rule wp_after_bind, rule wp_seq_const, rule wp_boot_step, rule wp_waitControlPlane [OF assms])
  ultimately show ?thesis by (simp add: wp_only_const cluster_up_def)
qed

text \<open>The records of a healthy boot cannot fail it. Whatever goes wrong while the backups are pruned and the
  records written, no error is returned; \<open>last-boot.json\<close> is the old record or the new one, whole, and all that the
  step removes lies under a listed backup.\<close>

theorem boot_tail_never_fails:
  assumes "layout_ok l" and "names_ok fs" and "\<And>P. keeps (on_fs P) (h_rpm h)"
    and "\<And>gs. distinct gs \<Longrightarrow> set (h_order h gs) = set gs \<and> distinct (h_order h gs)"
  shows "fwp (seq (prune_backups h l ub) (record_boot l now hadPrev prev))
    (\<lambda>_ v. look v (LastBootFile l) \<in> {look fs (LastBootFile l), Some (File 0x180 (Marshal now))} \<and> same_on (live_area l) fs v)
    (\<lambda>_ _. False)
    (\<lambda>v. look v (LastBootFile l) \<in> {look fs (LastBootFile l), Some (File 0x180 (Marshal now))} \<and> same_on (live_area l) fs v) fs"
proof -
  let ?G = "\<lambda>v. look v (LastBootFile l) \<in> {look fs (LastBootFile l), Some (File 0x180 (Marshal now))} \<and> same_on (live_area l) fs v"
  let ?P = "same_on (live_area l \<union> {LastBootFile l}) fs"
  have out: "q \<notin> below (BackupsDir l)" if "q \<in> live_area l \<union> {LastBootFile l}" for q
    using that last_boot_region(1) [OF assms(1)] layout_okD(4-6) [OF assms(1)] by (auto simp: live_area_def below_apart)
  have near: "?P v" if "pruned l fs S G v" for S G v
    using that out by (auto simp: pruned_def same_on_def prefix_def)
  have drop: "fwp (on_err (Prune (h_order h) l deployments) (\<lambda>e. logf (m e))) (\<lambda>_. ?P) (\<lambda>_ _. False) ?P fs" for deployments m
    by (intro fwp_on_err fwp_mono [OF fwp_Prune [OF assms(2,4)]] fwp_logf) (use near in auto)
  have ids: "fwp (AllDeploymentIDs (h_rpm h)) (\<lambda>_ v. v = fs) (\<lambda>_ v. v = fs) (\<lambda>v. v = fs) fs"
    by (rule fwp_keeps [OF keeps_AllDeploymentIDs [OF assms(3)]]) simp
  have prune: "fwp (prune_backups h l ub) (\<lambda>_. ?P) (\<lambda>_ _. False) ?P fs"
    unfolding prune_backups_def
    by (intro fwp_if fwp_bind fwp_attempt fwp_mono [OF ids] fwp_case_sum) (use drop in \<open>auto intro: fwp_logf fwp_ret\<close>)
  have event: "fwp (ignore (WriteLastEvent l m) :: ('a, unit) io) (\<lambda>_. ?G) (\<lambda>_ _. False) ?G v" if v: "?G v" for m v
  proof -
    have "keeps (on_fs ?G) (WriteLastEvent l m :: ('a, unit) io)"
      unfolding keeps_alt on_fs_def
    proof (intro allI impI)
      fix w :: "'a world"
      assume "?G (w_fs w)"
      then show "?G (w_fs (snd (WriteLastEvent l m w)))"
        using frame_step [OF keeps_event [OF assms(1)], of w m] frame_step [OF keeps_event_last_boot [OF assms(1)], of w m]
        by (auto simp: same_on_def)
    qed
    from fwp_keeps [OF this v] show ?thesis by (intro fwp_ignore) (erule fwp_mono; simp)
  qed
  have noted: "fwp (record_boot l now hadPrev prev :: ('a, unit) io) (\<lambda>_. ?G) (\<lambda>_ _. False) ?G v" if v: "?P v" for v
  proof -
    have old: "look v (LastBootFile l) = look fs (LastBootFile l)" "same_on (live_area l) fs v"
      using same_on_look [OF v] same_on_mono [OF v] by auto
    have both: "same_on (live_area l) fs v'" if "same_on (live_area l \<union> below (BackupsDir l)) v v'" for v'
      using same_on_trans [OF old(2) same_on_mono [OF that]] by auto
    show ?thesis
      unfolding record_boot_def
      by (intro fwp_seq fwp_on_err fwp_WriteLastBoot [OF assms(1)] fwp_logf event) (use old both in auto)
  qed
  show ?thesis
    by (intro fwp_seq fwp_mono [OF prune] noted) (auto dest: same_on_mono same_on_look)
qed

theorem boot_tail_never_fails_witness:
  "fwp (seq (prune_backups host_ref Default True) (record_boot Default sample_meta False no_boot))
    (\<lambda>_ v. look v (LastBootFile Default) \<in> {look shelf_fs (LastBootFile Default), Some (File 0x180 (Marshal sample_meta))} \<and>
      same_on (live_area Default) shelf_fs v)
    (\<lambda>_ _. False)
    (\<lambda>v. look v (LastBootFile Default) \<in> {look shelf_fs (LastBootFile Default), Some (File 0x180 (Marshal sample_meta))} \<and>
      same_on (live_area Default) shelf_fs v) shelf_fs"
  by (rule boot_tail_never_fails) (simp_all add: shelf_ok host_ref_def keeps_ret)

section \<open>A restore that fails halfway\<close>

text \<open>A backup of two trees with the marker set, and a disk that is full at one system call.\<close>

definition half_fs :: fsys where
  "half_fs = map (\<lambda>p. (p, Dir 0x1ED, 1)) [[], [''etc''], [''var''], [''var'', ''lib''], [''var'', ''lib'', ''picokube''],
     [''var'', ''lib'', ''picokube'', ''state''], [''etc'', ''kubernetes''], [''var'', ''lib'', ''etcd''],
     BackupsDir Default, BackupsDir Default @ [''d.1_b1''],
     BackupsDir Default @ [''d.1_b1'', ''etcd''], BackupsDir Default @ [''d.1_b1'', ''kubernetes'']] @
    [([''var'', ''lib'', ''etcd'', ''db''], File 0x180 ''live'', 1), ([''etc'', ''kubernetes'', ''admin.conf''], File 0x180 ''live'', 1),
     (BackupsDir Default @ [''d.1_b1'', ''etcd'', ''db''], File 0x180 ''saved'', 1),
     (BackupsDir Default @ [''d.1_b1'', ''kubernetes'', ''admin.conf''], File 0x180 ''saved'', 1),
     (BackupsDir Default @ [''d.1_b1'', metaFileName], File 0x180 (Marshal sample_meta), 1),
     (RestoreMarker Default, File 0x1A4 [], 1)]"

definition full_at :: "nat \<Rightarrow> ambient" where
  "full_at n = calm_orc\<lparr>o_fate := (\<lambda>i. if i = n then Fail ENOSPC else Go)\<rparr>"

definition half_restored :: "fsys \<Rightarrow> bool" where
  "half_restored v \<longleftrightarrow> look v [''var'', ''lib'', ''etcd'', ''db''] = Some (File 0x180 ''saved'') \<and>
     look v [''etc'', ''kubernetes'', ''admin.conf''] = Some (File 0x180 ''live'') \<and> look v (RestoreMarker Default) = None \<and>
     look v (LastBootFile Default) = None"

text \<open>C27: a restore that fails halfway is never completed. Here the disk is full while the second tree is copied: the
  error ends the boot with etcd from the backup beside the live \<open>/etc/kubernetes\<close>, and because the marker is cleared
  on that way out too, the next boot finds nothing to do and goes on with the mixture. (After a power loss the marker is
  still there, and the restore runs again.)\<close>

theorem failed_restore_not_repeated:
  "\<exists>e v v'. maybeRestore (cp_ref :: unit cp) Default ''d.1'' (world_at (full_at 20) half_fs) = (Err e, v) \<and> half_restored (w_fs v) \<and>
     maybeRestore (cp_ref :: unit cp) Default ''d.1'' (world_at calm_orc (w_fs v)) = (Ok (), v') \<and> half_restored (w_fs v')"
proof -
  let ?run = "\<lambda>w. maybeRestore (cp_ref :: unit cp) Default ''d.1'' w"
  have "case ?run (world_at (full_at 20) half_fs) of
      (Err e, v) \<Rightarrow> half_restored (w_fs v) \<and>
        (case ?run (world_at calm_orc (w_fs v)) of (Ok x, v') \<Rightarrow> half_restored (w_fs v') | _ \<Rightarrow> False)
    | _ \<Rightarrow> False"
    by code_simp
  then show ?thesis by (auto split: prod.splits outcome.splits)
qed

section \<open>A cut kubelet.conf\<close>

text \<open>Kubelet has its rotated certificate, and \<open>kubelet.conf\<close> has no user for its current context.\<close>

definition no_user :: "(string \<Rightarrow> Kubeconfig option) \<Rightarrow> Layout \<Rightarrow> fsys \<Rightarrow> bool" where
  "no_user parse l fs \<longleftrightarrow> look fs (pem_path l) \<noteq> None \<and>
     (\<forall>k. conf_at parse fs (KubeletKubeconfig l) = Some k \<longrightarrow> current_user k = None)"

lemma pem_path_below: "prefix (KubeletDir l) (pem_path l)"
proof -
  have "simple_name ''pki''" "simple_name ''kubelet-client-current.pem''" by code_simp+
  then show ?thesis by (simp add: pem_path_def path_simps)
qed

lemma keeps_no_user_event:
  assumes "layout_ok l" and "prefix (KubernetesDir l) (KubeletKubeconfig l)"
  shows "keeps (on_fs (no_user parse l)) (WriteLastEvent l msg)"
proof (rule keeps_from_frame [OF keeps_event [OF assms(1)]])
  fix v v'
  assume "no_user parse l v" and s: "same_on (live_area l \<union> below (BackupsDir l)) v v'"
  moreover have "look v' (pem_path l) = look v (pem_path l)"
    by (rule same_on_look [OF s]) (simp add: live_area_def pem_path_below)
  moreover have "look v' (KubeletKubeconfig l) = look v (KubeletKubeconfig l)"
    by (rule same_on_look [OF s]) (simp add: live_area_def assms(2))
  ultimately show "no_user parse l v'" by (simp add: no_user_def conf_at_def)
qed

lemma wp_boot_step_keeps:
  assumes event: "\<And>msg. keeps (on_fs P) (WriteLastEvent l msg :: ('e, unit) io)"
    and "wp m Q (\<lambda>_ v. P (w_fs v)) (\<lambda>v. P (w_fs v)) w"
  shows "wp (boot_step l up prev self m :: ('e, 'a) io) Q (\<lambda>_ v. P (w_fs v)) (\<lambda>v. P (w_fs v)) w"
proof -
  have "wp (bootFailed l up prev self e :: ('e, 'a) io) Q (\<lambda>_ v. P (w_fs v)) (\<lambda>v. P (w_fs v)) v" if "P (w_fs v)" for e and v :: "'e world"
  proof -
    have "fwp (bootFailed l up prev self e :: ('e, 'a) io) (\<lambda>_ _. False) (\<lambda>_. P) P (w_fs v)"
      unfolding bootFailed_def
      by (rule fwp_seq, rule fwp_mono [OF fwp_keeps [OF keeps_ignore [OF event] that]]) (auto intro: fwp_throw)
    from wp_mono [OF fwp_wp [OF this]] show ?thesis by simp
  qed
  then show ?thesis unfolding boot_step_def wp_on_err by (intro wp_mono [OF assms(2)])
qed

text \<open>C35: the rewriting of \<open>kubelet.conf\<close> is not atomic: client-go truncates the file and writes it in place. If a power
  loss in between has left it without a user for its current context, the boots that follow do not repair it, whatever the
  environment does: unless \<open>Ensure\<close> or the rotation pass of that boot have given it a user again, \<open>FinalizeKubeletKubeconfig\<close>
  fails, so the boot returns before it starts kubelet, and the file is left as useless as it was on every way out.\<close>

theorem cut_finalize_not_repaired:
  assumes files: "kubeconfig_files (h_pki h) parse render" and lay: "layout_ok l" "prefix (KubernetesDir l) (KubeletKubeconfig l)"
    and before: "wp (seq (wrapf ''ensure'' (Ensure (h_phases h) cfg l)) (rotateCertsIfStale (h_pki h) cfg l))
      (\<lambda>_ v. no_user parse l (w_fs v)) (\<lambda>_ v. no_user parse l (w_fs v)) (\<lambda>v. no_user parse l (w_fs v)) w"
  shows "wp (reconcile h c cfg l up prev self) (\<lambda>_ _. False)
    (\<lambda>_ v. no_user parse l (w_fs v)) (\<lambda>v. no_user parse l (w_fs v)) w"
proof -
  note step = wp_boot_step_keeps [OF keeps_no_user_event [OF lay]]
  have fails: "wp (wrapf s (FinalizeKubeletKubeconfig (h_pki h) l)) (\<lambda>_ _. False)
      (\<lambda>_ v. no_user parse l (w_fs v)) (\<lambda>v. no_user parse l (w_fs v)) v" if "no_user parse l (w_fs v)" for s v
  proof -
    have "fwp (FinalizeKubeletKubeconfig (h_pki h) l) (\<lambda>_ _. False) (\<lambda>_ u. u = w_fs v) (\<lambda>u. u = w_fs v) (w_fs v)"
      by (rule kubeconfig_files.fwp_Finalize_stuck [OF files]) (use that in \<open>auto simp: no_user_def\<close>)
    from fwp_wp [OF this] show ?thesis unfolding wp_wrapf by (rule wp_mono) (use that in auto)
  qed
  show ?thesis
    unfolding reconcile_def Let_def wp_seq wp_bind
    by (rule step, rule wp_mono [OF before [unfolded wp_seq]], rule step, erule wp_mono, rule step, rule wp_mono [OF fails]) auto
qed

text \<open>A node whose CAs are good for a year. The power is lost between the truncation and the write.\<close>

definition kubelet_fs :: fsys where
  "kubelet_fs = first_boot_fs @
    [([''etc'', ''kubernetes'', ''manifests''], Dir 0x1ED, 3), ([''etc'', ''kubernetes'', ''pki''], Dir 0x1ED, 3),
     ([''etc'', ''kubernetes'', ''pki'', ''ca.crt''], File 0x1A4 ''c'', 3),
     ([''etc'', ''kubernetes'', ''pki'', ''front-proxy-ca.crt''], File 0x1A4 ''f'', 3),
     ([''etc'', ''kubernetes'', ''pki'', ''etcd''], Dir 0x1ED, 3),
     ([''etc'', ''kubernetes'', ''pki'', ''etcd'', ''ca.crt''], File 0x1A4 ''e'', 3)]"

definition cut_finalize :: "bool outcome \<times> unit world" where
  "cut_finalize = FinalizeKubeletKubeconfig (conf_ref :: (unit, unit) pki_ext) Default (world_at (crash_orc 3) kubelet_fs)"

theorem cut_finalize_not_repaired_witness:
  "fst cut_finalize = Crash \<and>
   look (w_fs (snd cut_finalize)) (KubeletKubeconfig Default) = Some (File 0x180 []) \<and>
   (case reconcile host_ref Background sample_cfg Default False [] ''v1'' (world_at calm_orc (w_fs (snd cut_finalize))) of
      (r, v) \<Rightarrow> r \<noteq> Ok () \<and> no_user parse_ref Default (w_fs v))"
proof -
  let ?w = "world_at calm_orc (w_fs (snd cut_finalize))"
  let ?m = "seq (wrapf ''ensure'' (Ensure phases_ref sample_cfg Default)) (rotateCertsIfStale conf_ref sample_cfg Default) :: (unit, unit) io"
  have cut: "(case cut_finalize of (r, v) \<Rightarrow> r = Crash \<and> look (w_fs v) (KubeletKubeconfig Default) = Some (File 0x180 []))"
    by code_simp
  have ran: "(case ?m ?w of (r, v) \<Rightarrow> r = Ok () \<and> look (w_fs v) (KubeletKubeconfig Default) = Some (File 0x180 []) \<and>
      look (w_fs v) (pem_path Default) \<noteq> None)"
    by code_simp
  have empty: "(case parse_ref [] of None \<Rightarrow> True | Some k \<Rightarrow> current_user k = None)" by code_simp
  have "wp ?m (\<lambda>_ v. no_user parse_ref Default (w_fs v)) (\<lambda>_ v. no_user parse_ref Default (w_fs v))
      (\<lambda>v. no_user parse_ref Default (w_fs v)) ?w"
    using ran empty by (cases "?m ?w") (auto simp: wp_def no_user_def conf_at_def)
  then have "wp (reconcile host_ref Background sample_cfg Default False [] ''v1'') (\<lambda>_ _. False)
      (\<lambda>_ v. no_user parse_ref Default (w_fs v)) (\<lambda>v. no_user parse_ref Default (w_fs v)) ?w"
    by (intro cut_finalize_not_repaired [where render = render_ref]) (simp_all add: confref.kubeconfig_files_axioms)
  then have "case reconcile host_ref Background sample_cfg Default False [] ''v1'' ?w of
      (r, v) \<Rightarrow> r \<noteq> Ok () \<and> no_user parse_ref Default (w_fs v)"
    by (auto simp: wp_def split: prod.splits outcome.splits)
  moreover have "fst cut_finalize = Crash" "look (w_fs (snd cut_finalize)) (KubeletKubeconfig Default) = Some (File 0x180 [])"
    using cut by (simp_all add: case_prod_beta)
  ultimately show ?thesis by blast
qed

end
