(* ===== verification/Initialize.thy ===== *)
theory Initialize
  imports Host
begin

text \<open>
  \<open>internal/initialize\<close>: \<open>picokube init\<close> (\<open>initialize.go\<close>, \<open>admin_rbac.go\<close>). The PKI, the kubeadm
  artefacts and a super-admin.conf are written, kubelet is started and the API server waited for, the role
  binding of admin.conf is seeded and super-admin.conf removed again, the control plane is waited for and
  reconciled, \<open>kubelet.conf\<close> is pointed at the certificate kubelet rotates, and the first boot is recorded.
  The package has its own copies of the helpers of \<open>internal/boot\<close>; their names here start with \<open>init_\<close>.
  The loop of \<open>finalizeKubeletKubeconfig\<close> is a partial function whose \<open>None\<close> is a loop that does not end.
  Log lines are without their tag.
\<close>

section \<open>Helpers\<close>

definition initAdminRBAC :: "('e, 'g, 'c) host \<Rightarrow> Layout \<Rightarrow> 'g InitConfiguration \<Rightarrow> ('e, 'c) io" where
  "initAdminRBAC h l cfg =
     wrapf ''seed admin cluster role binding'' (EnsureAdminClusterRoleBinding (h_phases h) (KubernetesDir l) cfg)"

definition removeSuperAdminKubeconfig :: "Layout \<Rightarrow> ('e, unit) io" where
  "removeSuperAdminKubeconfig l =
     on_err (os_Remove (SuperAdminKubeconfig l))
       (\<lambda>e. if IsNotExist e then ret () else throw (Wrapf ''remove super-admin.conf'' e))"

definition init_writeFirstBootState :: "('e, 'g, 'c) host \<Rightarrow> Layout \<Rightarrow> string \<Rightarrow> bool \<Rightarrow> ('e, unit) io" where
  "init_writeFirstBootState h l selfVersion isOSTree =
     bind backup_BootID (\<lambda>bootID.
     bind (if isOSTree then wrapf ''booted deployment id'' (BootedDeploymentID (h_rpm h)) else ret []) (\<lambda>deploymentID.
       seq (WriteLastBoot l \<lparr>Version = selfVersion, DeploymentID = deploymentID, BootID = bootID\<rparr>)
           (ignore (WriteLastEvent l (''initialised at '' @ selfVersion)))))"

definition init_startKubelet :: "('e, 'g, 'c) host \<Rightarrow> ctx \<Rightarrow> ('e, unit) io" where
  "init_startKubelet h c =
     seq (run_command h c ''systemctl start kubelet'' [''systemctl'', ''start'', ''--no-block'', ''kubelet.service''])
         (logf ''kubelet.service queued for start'')"

definition init_restartKubelet :: "('e, 'g, 'c) host \<Rightarrow> ctx \<Rightarrow> ('e, unit) io" where
  "init_restartKubelet h c =
     seq (run_command h c ''systemctl restart kubelet'' [''systemctl'', ''restart'', ''kubelet.service''])
         (logf ''kubelet.service restarted'')"

definition kubeletCertTimeout :: int where
  "kubeletCertTimeout = seconds 90"

definition kubeletCertInterval :: int where
  "kubeletCertInterval = seconds 2"

text \<open>One round of the loop: the verdict (was \<open>kubelet.conf\<close> rewritten?) or the state of the next round.\<close>

definition finalize_round :: "('e, 'g) pki_ext \<Rightarrow> ctx \<Rightarrow> Layout \<Rightarrow> 'e world \<Rightarrow> bool outcome \<times> 'e world + 'e world" where
  "finalize_round x cctx l w = (case wrapf ''finalize kubelet.conf'' (FinalizeKubeletKubeconfig x l) w of
     (Err e, w1) \<Rightarrow> Inl (Err e, w1)
   | (Crash, w1) \<Rightarrow> Inl (Crash, w1)
   | (Ok changed, w1) \<Rightarrow>
       if changed then Inl (Ok True, w1)
       else (case select_after cctx kubeletCertInterval w1 of
         (Ok isdone, w2) \<Rightarrow> if isdone then Inl (Ok False, w2) else Inr w2
       | (Err e, w2) \<Rightarrow> Inl (Err e, w2)
       | (Crash, w2) \<Rightarrow> Inl (Crash, w2)))"

partial_function (option) finalize_loop ::
    "('e, 'g) pki_ext \<Rightarrow> ctx \<Rightarrow> Layout \<Rightarrow> 'e world \<Rightarrow> (bool outcome \<times> 'e world) option" where
  "finalize_loop x cctx l w = (case finalize_round x cctx l w of
     Inl r \<Rightarrow> Some r
   | Inr w' \<Rightarrow> finalize_loop x cctx l w')"

declare finalize_loop.simps [code]

definition init_finalizeKubeletKubeconfig :: "('e, 'g, 'c) host \<Rightarrow> ctx \<Rightarrow> Layout \<Rightarrow> ('e, unit) io" where
  "init_finalizeKubeletKubeconfig h c l =
     seq (logf ''waiting for kubelet client certificate rotation (timeout=1m30s)'')
    (bind time_Now (\<lambda>now.
     bind (run_partial (finalize_loop (h_pki h) (WithTimeout c kubeletCertTimeout now) l)) (\<lambda>changed.
       if changed then seq (logf ''kubelet.conf now references the rotated client certificate'') (init_restartKubelet h c)
       else logf ''kubelet client certificate not rotated within 1m30s; next boot will finalize kubelet.conf'')))"

definition init_readyzTimeout :: int where
  "init_readyzTimeout = seconds (3 * 60)"

definition init_waitReadyz :: "('e, 'g, 'c) host \<Rightarrow> ctx \<Rightarrow> Layout \<Rightarrow> ('e, unit) io" where
  "init_waitReadyz h c l =
     seq (logf ''waiting for apiserver /readyz (timeout=3m0s)'')
    (bind (LoadAdmin (h_cluster h) (AdminKubeconfig l)) (\<lambda>client.
     bind time_Now (\<lambda>now.
       seq (WaitForAPIServer (h_cluster h) (WithTimeout c init_readyzTimeout now) client)
           (logf ''apiserver ready''))))"

definition init_controlPlaneTimeout :: int where
  "init_controlPlaneTimeout = seconds (3 * 60)"

definition init_waitControlPlane :: "('e, 'g, 'c) host \<Rightarrow> ctx \<Rightarrow> 'c \<Rightarrow> string \<Rightarrow> ('e, unit) io" where
  "init_waitControlPlane h c client nodeName =
     seq (logf ''waiting for node + control-plane static pods Ready (timeout=3m0s)'')
    (bind time_Now (\<lambda>now.
       seq (WaitForControlPlane (h_cluster h) (WithTimeout c init_controlPlaneTimeout now) client nodeName)
           (logf ''control plane ready'')))"

section \<open>The run\<close>

definition init_checks :: "('e, 'g, 'c) host \<Rightarrow> Layout \<Rightarrow> bool \<Rightarrow> 'e check list" where
  "init_checks h l isOSTree =
     [FSWritable [PicoKubeVarDir l, KubernetesDir l]] @
     (if isOSTree then [SpacePreflight (h_statfs h) (h_wide h) (space_for l)] else [])"

text \<open>From the check of the host to the removal of super-admin.conf, with the client the rest uses.\<close>

definition init_provision :: "('e, 'g, 'c) host \<Rightarrow> ctx \<Rightarrow> 'g InitConfiguration \<Rightarrow> Layout \<Rightarrow> bool \<Rightarrow> ('e, 'c) io" where
  "init_provision h c cfg l isOSTree =
     seq (wrapf ''preflight'' (preflight_Run c (init_checks h l isOSTree)))
    (seq (wrapf ''certs init'' (certs_Init (h_pki h) cfg l))
    (seq (logf (''provisioned PKI under '' @ path_text (PKIDir l)))
    (seq (wrapf ''ensure'' (Ensure (h_phases h) cfg l))
    (seq (logf ''rendered static pod manifests and kubelet config'')
    (seq (WriteSuperAdminKubeconfig (h_pki h) cfg l)
    (seq (init_startKubelet h c)
    (seq (init_waitReadyz h c l)
         (initAdminRBAC h l cfg))))))))"

definition init_finish :: "('e, 'g, 'c) host \<Rightarrow> ctx \<Rightarrow> 'g InitConfiguration \<Rightarrow> Layout \<Rightarrow> string \<Rightarrow> bool \<Rightarrow> 'c \<Rightarrow> ('e, unit) io" where
  "init_finish h c cfg l selfVersion isOSTree client =
     (let nodeName = NodeName cfg in
      seq (init_waitControlPlane h c client nodeName)
     (seq (wrapf ''mark control-plane'' (MarkControlPlane (h_phases h) client nodeName cfg))
     (seq (logf ''marked control-plane node'')
     (seq (wrapf ''auto-approve node certificate rotation'' (AutoApproveNodeCertificateRotation (h_phases h) client))
     (seq (logf ''allowed auto-approval of node client certificate rotation'')
     (seq (wrapf ''allow API server to access kubelet API'' (AllowAPIServerToAccessKubeletAPI (h_phases h) client))
     (seq (logf ''allowed the apiserver kubelet client to access the kubelet API'')
     (seq (wrapf ''addons'' (EnsureAddons (h_phases h) cfg client))
     (seq (init_finalizeKubeletKubeconfig h c l)
     (seq (init_writeFirstBootState h l selfVersion isOSTree)
     (seq (logf (''init complete (node='' @ nodeName @ '', version='' @ selfVersion @ '')''))
          (logf ''next step: `systemctl enable picokube.service`''))))))))))))"

definition init_Run :: "('e, 'g, 'c) host \<Rightarrow> ctx \<Rightarrow> 'g InitConfiguration \<Rightarrow> Layout \<Rightarrow> string \<Rightarrow> ('e, unit) io" where
  "init_Run h c cfg l selfVersion =
     bind (wrapf ''detect ostree'' IsOSTree) (\<lambda>isOSTree.
     bind (init_provision h c cfg l isOSTree) (\<lambda>client.
     seq (logf ''seeded kubeadm:cluster-admins ClusterRoleBinding'')
    (seq (removeSuperAdminKubeconfig l)
    (seq (logf ''removed super-admin.conf (regenerate via `picokube kubeconfig super-admin` if needed)'')
         (init_finish h c cfg l selfVersion isOSTree client)))))"

section \<open>The wait for the rotated certificate\<close>

lemma forward_syscall: "forward (syscall mk f)"
  by (auto simp: forward_def syscall_def split: fate.split sum.split prod.split)

lemma forward_throw: "forward (throw e)"
  by (simp add: forward_def throw_def)

lemma forward_on_err: "forward m \<Longrightarrow> (\<And>e. forward (h e)) \<Longrightarrow> forward (on_err m h)"
  unfolding forward_def on_err_def
  by (auto split: prod.splits outcome.splits) (metis order.trans snd_conv)+

lemma forward_wrapf: "forward m \<Longrightarrow> forward (wrapf s m)"
  unfolding wrapf_def by (intro forward_on_err forward_throw)

lemma forward_seq: "forward m \<Longrightarrow> forward k \<Longrightarrow> forward (seq m k)"
  unfolding seq_def by (rule forward_bind)

text \<open>client-go reads and writes a file without turning the clock back.\<close>

definition files_forward :: "('e, 'g) pki_ext \<Rightarrow> bool" where
  "files_forward x \<longleftrightarrow> (\<forall>p. forward (LoadFromFile x p)) \<and> (\<forall>k p. forward (WriteToFile x k p))"

lemma forward_Finalize: "files_forward x \<Longrightarrow> forward (FinalizeKubeletKubeconfig x l)"
  unfolding FinalizeKubeletKubeconfig_def Let_def os_Stat_def files_forward_def
  by (intro forward_bind forward_attempt forward_syscall)
    (auto intro!: forward_ret forward_throw forward_bind forward_wrapf forward_seq split: sum.split option.split)

text \<open>What a return of the loop says, and that one comes.\<close>

definition finalize_verdict :: "('e, 'g) pki_ext \<Rightarrow> ctx \<Rightarrow> Layout \<Rightarrow> bool outcome \<times> 'e world \<Rightarrow> bool" where
  "finalize_verdict x cctx l r = (case r of
     (Ok True, v) \<Rightarrow> \<exists>w1. FinalizeKubeletKubeconfig x l w1 = (Ok True, v)
   | (Ok False, v) \<Rightarrow> ctx_Err cctx v \<noteq> None \<and> (\<exists>w1 w2. FinalizeKubeletKubeconfig x l w1 = (Ok False, w2))
   | (Err e, v) \<Rightarrow> \<exists>w1 cause. FinalizeKubeletKubeconfig x l w1 = (Err cause, v) \<and> e = Wrapf ''finalize kubelet.conf'' cause
   | (Crash, _) \<Rightarrow> True)"

lemma wrapf_cases:
  "wrapf s m w = (Ok x, v) \<longleftrightarrow> m w = (Ok x, v)"
  "wrapf s m w = (Err e, v) \<longleftrightarrow> (\<exists>cause. m w = (Err cause, v) \<and> e = Wrapf s cause)"
  by (auto simp: wrapf_def on_err_def throw_def split: prod.splits outcome.splits)

lemma finalize_round_stop: "finalize_round x cctx l w = Inl r \<Longrightarrow> finalize_verdict x cctx l r"
  unfolding finalize_round_def finalize_verdict_def
  by (auto split: prod.splits outcome.splits if_splits simp: wrapf_cases select_after_no_err)
    (use select_after_done in fastforce, blast)

lemma finalize_round_again:
  assumes "finalize_round x cctx l w = Inr v" and "files_forward x" and "ctx_deadline cctx = Some t"
  shows "w_now w < t \<and> w_now w < w_now v"
proof -
  obtain w1 where p: "FinalizeKubeletKubeconfig x l w = (Ok False, w1)"
    and s: "select_after cctx kubeletCertInterval w1 = (Ok False, v)"
    using assms(1) by (auto simp: finalize_round_def wrapf_cases split: prod.splits outcome.splits if_splits)
  show ?thesis
    using forwardD [OF forward_Finalize [OF assms(2)] p] select_after_timer [OF s] ctx_Err_None [OF _ assms(3), of w1]
    by (auto simp: seconds_def kubeletCertInterval_def)
qed

lemma finalize_loop_returns:
  assumes "files_forward x" and "ctx_deadline cctx = Some t"
  shows "\<exists>r. finalize_loop x cctx l w = Some r \<and> finalize_verdict x cctx l r"
proof (induction "nat (t - w_now w)" arbitrary: w rule: less_induct)
  case less
  show ?case
  proof (cases "finalize_round x cctx l w")
    case (Inl r)
    then show ?thesis using finalize_round_stop [OF Inl] by (simp add: finalize_loop.simps [of x cctx l w])
  next
    case (Inr v)
    with finalize_round_again [OF Inr assms] have "nat (t - w_now v) < nat (t - w_now w)" by simp
    from less [OF this] Inr show ?thesis by (simp add: finalize_loop.simps [of x cctx l w])
  qed
qed

section \<open>What the steps after the removal keep\<close>

lemma keeps_init_waitControlPlane:
  assumes "host_quiet h P"
  shows "keeps (on_fs P) (init_waitControlPlane h c client n)"
  unfolding init_waitControlPlane_def
  by (intro keeps_rules keeps_WaitForControlPlane) (use assms in \<open>auto simp: host_quiet_def\<close>)

lemma finalize_round_keeps:
  assumes "keeps (on_fs P) (FinalizeKubeletKubeconfig x l)" and "P (w_fs w)"
  shows "case finalize_round x cctx l w of Inl r \<Rightarrow> P (w_fs (snd r)) | Inr v \<Rightarrow> P (w_fs v)"
proof -
  obtain out w1 where f: "FinalizeKubeletKubeconfig x l w = (out, w1)" by (cases "FinalizeKubeletKubeconfig x l w") simp
  have w1: "P (w_fs w1)" using assms f unfolding keeps_alt on_fs_def by (metis snd_conv)
  obtain out' w2 where g: "select_after cctx kubeletCertInterval w1 = (out', w2)" by (cases "select_after cctx kubeletCertInterval w1") simp
  have "w_fs w2 = w_fs w1" using w_fs_select_after [of cctx kubeletCertInterval w1] g by simp
  with w1 show ?thesis
    by (cases out; cases out') (simp_all add: finalize_round_def wrapf_def on_err_def throw_def f g)
qed

lemma finalize_loop_keeps:
  assumes "finalize_loop x c l w = Some r" and "keeps (on_fs P) (FinalizeKubeletKubeconfig x l)" and "P (w_fs w)"
  shows "P (w_fs (snd r))"
proof -
  let ?G = "\<lambda>x c l w r. keeps (on_fs P) (FinalizeKubeletKubeconfig x l) \<longrightarrow> P (w_fs w) \<longrightarrow> P (w_fs (snd r))"
  have "?G x c l w r"
  proof (rule finalize_loop.raw_induct [of ?G "(((x, c), l), w)" r, unfolded prod.case], intro impI)
    fix rec x c l w r
    assume "\<And>x c l w r. rec x c l w = Some r \<Longrightarrow> ?G x c l w r"
      and "(case finalize_round x c l w of Inl r \<Rightarrow> Some r | Inr w' \<Rightarrow> rec x c l w') = Some r"
      and "keeps (on_fs P) (FinalizeKubeletKubeconfig x l)" "P (w_fs w)"
    then show "P (w_fs (snd r))"
      using finalize_round_keeps [of P x l w c] by (cases "finalize_round x c l w") auto
  qed (rule assms(1))
  then show ?thesis using assms(2,3) by blast
qed

lemma keeps_init_finalize:
  assumes "keeps (on_fs P) (FinalizeKubeletKubeconfig (h_pki h) l)" and "host_quiet h P"
  shows "keeps (on_fs P) (init_finalizeKubeletKubeconfig h c l)"
  unfolding init_finalizeKubeletKubeconfig_def init_restartKubelet_def
  by (intro keeps_rules keeps_run_command assms(2) keeps_run_partial, rule finalize_loop_keeps [OF _ assms(1)])

text \<open>The half of the run before the removal of super-admin.conf.\<close>

lemma keeps_init_provision:
  assumes quiet: "host_quiet h P" and client: "keeps (on_fs P) (LoadAdmin (h_cluster h) (AdminKubeconfig l))"
    and checks: "keeps (on_fs P) (preflight_Run c (init_checks h l b))" and pki: "keeps (on_fs P) (certs_Init (h_pki h) cfg l)"
    and ensure: "keeps (on_fs P) (Ensure (h_phases h) cfg l)"
    and super: "keeps (on_fs P) (WriteSuperAdminKubeconfig (h_pki h) cfg l)"
    and rbac: "keeps (on_fs P) (EnsureAdminClusterRoleBinding (h_phases h) (KubernetesDir l) cfg)"
  shows "keeps (on_fs P) (init_provision h c cfg l b)"
proof -
  have start: "keeps (on_fs P) (init_startKubelet h c)"
    unfolding init_startKubelet_def by (intro keeps_rules keeps_run_command quiet)
  have readyz: "keeps (on_fs P) (init_waitReadyz h c l)"
    unfolding init_waitReadyz_def by (intro keeps_rules client keeps_WaitForAPIServer)
      (use quiet in \<open>simp add: host_quiet_def\<close>)
  show ?thesis
    unfolding init_provision_def initAdminRBAC_def by (intro keeps_rules checks pki ensure super start readyz rbac)
qed

section \<open>What a finished init has done\<close>

lemma fwp_after_bind: "(\<And>x v. fwp (f x) Q (\<lambda>_ _. True) (\<lambda>_. True) v) \<Longrightarrow> fwp (bind m f) Q (\<lambda>_ _. True) (\<lambda>_. True) fs"
  by (rule fwp_bind, rule fwp_mono [OF fwp_True]) auto

lemma fwp_after_seq: "(\<And>v. fwp k Q (\<lambda>_ _. True) (\<lambda>_. True) v) \<Longrightarrow> fwp (seq m k) Q (\<lambda>_ _. True) (\<lambda>_. True) fs"
  unfolding seq_def by (rule fwp_after_bind)

definition recorded :: "Layout \<Rightarrow> string \<Rightarrow> fsys \<Rightarrow> bool" where
  "recorded l self v \<longleftrightarrow> (\<exists>dep boot. look v (LastBootFile l) =
     Some (File 0x180 (Marshal \<lparr>Version = self, DeploymentID = dep, BootID = boot\<rparr>)))"

lemma wp_init_waitReadyz:
  assumes "clock_ok (h_cluster h)"
  shows "wp (init_waitReadyz h c l) (\<lambda>_ _. \<exists>client now. apiserver_up (h_cluster h) (WithTimeout c (seconds 180) now) client)
    (\<lambda>_ _. True) (\<lambda>_. True) w"
  unfolding init_waitReadyz_def init_readyzTimeout_def
  by (rule wp_after_seq, rule wp_after_bind, rule wp_after_bind, rule wp_seq_const, rule wp_const_mono [OF wp_apiserver_up [OF assms]])
    auto

lemma wp_init_waitControlPlane:
  assumes "clock_ok (h_cluster h)"
  shows "wp (init_waitControlPlane h c client n) (\<lambda>_ _. \<exists>client now. control_plane_up (h_cluster h) (WithTimeout c (seconds 180) now) client n)
    (\<lambda>_ _. True) (\<lambda>_. True) w"
  unfolding init_waitControlPlane_def init_controlPlaneTimeout_def
  by (rule wp_after_seq, rule wp_after_bind, rule wp_seq_const, rule wp_const_mono [OF wp_control_plane_up [OF assms]]) auto

lemma init_cluster_up:
  assumes "clock_ok (h_cluster h)"
  shows "wp (init_Run h c cfg l self) (\<lambda>_ _. cluster_up (h_cluster h) c (NodeName cfg)) (\<lambda>_ _. True) (\<lambda>_. True) w"
proof -
  have "wp (init_Run h c cfg l self) (\<lambda>_ _. \<exists>client now. apiserver_up (h_cluster h) (WithTimeout c (seconds 180) now) client)
      (\<lambda>_ _. True) (\<lambda>_. True) w"
    unfolding init_Run_def init_provision_def
    by (rule wp_after_bind, rule wp_bind_const, rule wp_after_seq, rule wp_after_seq, rule wp_after_seq, rule wp_after_seq,
        rule wp_after_seq, rule wp_after_seq, rule wp_after_seq, rule wp_seq_const, rule wp_init_waitReadyz [OF assms])
  moreover have "wp (init_Run h c cfg l self) (\<lambda>_ _. \<exists>client now. control_plane_up (h_cluster h) (WithTimeout c (seconds 180) now) client (NodeName cfg))
      (\<lambda>_ _. True) (\<lambda>_. True) w"
    unfolding init_Run_def init_finish_def Let_def
    by (rule wp_after_bind, rule wp_after_bind, rule wp_after_seq, rule wp_after_seq, rule wp_after_seq, rule wp_seq_const,
        rule wp_init_waitControlPlane [OF assms])
  ultimately show ?thesis by (simp add: wp_only_const cluster_up_def)
qed

lemma keeps_recorded_event:
  assumes "layout_ok l"
  shows "keeps (on_fs (recorded l self)) (WriteLastEvent l msg)"
proof -
  have "keeps (on_fs (\<lambda>v. recorded l self v)) (WriteLastEvent l msg)"
    by (rule keeps_from_frame [OF keeps_event_last_boot [OF assms]]) (auto simp: recorded_def same_on_def)
  then show ?thesis .
qed

lemma init_recorded:
  assumes "layout_ok l"
  shows "fwp (init_Run h c cfg l self) (\<lambda>_. recorded l self) (\<lambda>_ _. True) (\<lambda>_. True) fs"
proof -
  have event: "fwp (ignore (WriteLastEvent l msg)) (\<lambda>_. recorded l self) (\<lambda>_ _. True) (\<lambda>_. True) v" if "recorded l self v" for msg v
    by (rule fwp_ignore, rule fwp_mono [OF fwp_keeps [OF keeps_recorded_event [OF assms] that]]) simp_all
  have "fwp (init_writeFirstBootState h l self b) (\<lambda>_. recorded l self) (\<lambda>_ _. True) (\<lambda>_. True) v" for b v
    unfolding init_writeFirstBootState_def
    by (rule fwp_after_bind, rule fwp_after_bind, rule fwp_seq, rule fwp_WriteLastBoot [OF assms], rule event,
        unfold recorded_def, blast) simp_all
  note first = this
  show ?thesis
    unfolding init_Run_def init_finish_def Let_def
    by (rule fwp_after_bind, rule fwp_after_bind, rule fwp_after_seq, rule fwp_after_seq, rule fwp_after_seq, rule fwp_after_seq,
        rule fwp_after_seq, rule fwp_after_seq, rule fwp_after_seq, rule fwp_after_seq, rule fwp_after_seq, rule fwp_after_seq,
        rule fwp_after_seq, rule fwp_after_seq, rule fwp_seq, rule fwp_mono [OF first])
      (auto intro!: fwp_seq fwp_logf)
qed

text \<open>super-admin.conf is gone after its removal, and no later step brings it back.\<close>

definition absent :: "path \<Rightarrow> fsys \<Rightarrow> bool" where
  "absent p v \<longleftrightarrow> look v p = None"

lemma keeps_absent_records:
  assumes "layout_ok l" and "p \<in> below (KubernetesDir l)"
  shows "keeps (on_fs (absent p)) (WriteLastBoot l lb)" "keeps (on_fs (absent p)) (WriteLastEvent l msg)"
proof -
  have "{p} \<inter> (below (StateDir l) \<union> above (StateDir l)) = {}"
    using state_region [OF assms(1)] assms(2) by (auto simp: live_area_def)
  then show "keeps (on_fs (absent p)) (WriteLastBoot l lb)" "keeps (on_fs (absent p)) (WriteLastEvent l msg)"
    by (auto simp: absent_def same_on_def
        intro!: keeps_from_frame [where Z = "{p}", OF keeps_WriteLastBoot [OF assms(1)]]
          keeps_from_frame [where Z = "{p}", OF keeps_WriteLastEvent [OF assms(1)]])
qed

lemma fwp_removeSuperAdmin:
  "fwp (removeSuperAdminKubeconfig l) (\<lambda>_. absent (SuperAdminKubeconfig l)) (\<lambda>_ _. True) (\<lambda>_. True) fs"
  unfolding removeSuperAdminKubeconfig_def
  by (intro fwp_on_err fwp_Remove fwp_if fwp_ret fwp_throw) (auto simp: absent_def miss_def split: if_splits)

lemma fwp_init_finish:
  fixes h :: "('e, 'g, 'c) host" and l :: Layout
  defines "P \<equiv> absent (SuperAdminKubeconfig l)"
  assumes "layout_ok l" "SuperAdminKubeconfig l \<in> below (KubernetesDir l)" "clock_ok (h_cluster h)"
    and "host_quiet h (absent (SuperAdminKubeconfig l))" "files_quiet (h_pki h) l (absent (SuperAdminKubeconfig l))" and "P fs"
  shows "fwp (init_finish h c cfg l self b client) (\<lambda>_. P) (\<lambda>_ _. True) (\<lambda>_. True) fs"
proof -
  have first: "keeps (on_fs P) (init_writeFirstBootState h l self b)"
    unfolding init_writeFirstBootState_def backup_BootID_def P_def
    by (intro keeps_rules keeps_AllDeploymentIDs keeps_BootedDeploymentID keeps_absent_records assms(2,3))
      (use assms(5) in \<open>simp add: host_quiet_def\<close>)
  have rest: "keeps (on_fs P) (seq (wrapf s1 (MarkControlPlane (h_phases h) client n cfg)) (seq (logf m1)
     (seq (wrapf s2 (AutoApproveNodeCertificateRotation (h_phases h) client)) (seq (logf m2)
     (seq (wrapf s3 (AllowAPIServerToAccessKubeletAPI (h_phases h) client)) (seq (logf m3)
     (seq (wrapf s4 (EnsureAddons (h_phases h) cfg client)) (seq (init_finalizeKubeletKubeconfig h c l)
     (seq (init_writeFirstBootState h l self b) (seq (logf m4) (logf m5)))))))))))" for s1 s2 s3 s4 m1 m2 m3 m4 m5 n
    unfolding EnsureAddons_def Let_def
    by (intro keeps_rules first keeps_init_finalize keeps_Finalize)
      (use assms(5,6) in \<open>simp_all add: host_quiet_def P_def\<close>)
  have "keeps (on_fs P) (init_finish h c cfg l self b client)"
    unfolding init_finish_def Let_def
    by (rule keeps_seq, rule keeps_init_waitControlPlane [OF assms(5) [folded P_def]], rule rest)
  from fwp_keeps [OF this assms(7)] show ?thesis by (rule fwp_mono) simp_all
qed

section \<open>Properties\<close>

text \<open>C31: the wait for kubelet's certificate always ends. It ends with \<open>kubelet.conf\<close> rewritten in the last round, with
  the error of that round, or, once its context is done, without either: the timeout is no error.\<close>

theorem init_finalize_ends:
  assumes "files_forward x"
  shows "\<exists>r. finalize_loop x (WithTimeout c kubeletCertTimeout now) l w = Some r \<and>
    finalize_verdict x (WithTimeout c kubeletCertTimeout now) l r"
  using finalize_loop_returns [OF assms] deadline_WithTimeout by blast

lemma forward_file_Write: "forward (file_Write p b)"
proof -
  have "forward (seq (write_chunk p (take n b)) (write_chunk p (drop n b)))" for n
    unfolding write_chunk_def by (intro forward_seq forward_syscall)
  then show ?thesis by (auto simp: forward_def file_Write_def Let_def)
qed

lemma files_forward_ref: "files_forward conf_ref"
  unfolding files_forward_def conf_ref_simps os_ReadFile_def os_WriteFile_def open_trunc_def
  by (auto intro!: forward_bind forward_seq forward_syscall forward_file_Write forward_ret forward_throw split: option.split)

theorem init_finalize_ends_witness:
  "\<exists>r. finalize_loop (conf_ref :: (unit, unit) pki_ext) (WithTimeout Background kubeletCertTimeout 0) Default sample_world = Some r \<and>
    finalize_verdict (conf_ref :: (unit, unit) pki_ext) (WithTimeout Background kubeletCertTimeout 0) Default r"
  by (rule init_finalize_ends [OF files_forward_ref])

text \<open>C18: a finished \<open>picokube init\<close>. When it returns normally, the API server has answered and the node and the three
  control-plane pods were found ready, the record of the previous boot is the one of this version, and
  super-admin.conf does not exist.\<close>

theorem init_ok:
  assumes "layout_ok l" and "SuperAdminKubeconfig l \<in> below (KubernetesDir l)" and "clock_ok (h_cluster h)"
    and "host_quiet h (absent (SuperAdminKubeconfig l))" and "files_quiet (h_pki h) l (absent (SuperAdminKubeconfig l))"
  shows "fwp (init_Run h c cfg l self)
    (\<lambda>_ v. cluster_up (h_cluster h) c (NodeName cfg) \<and> recorded l self v \<and> look v (SuperAdminKubeconfig l) = None)
    (\<lambda>_ _. True) (\<lambda>_. True) fs"
proof -
  have "fwp (init_Run h c cfg l self) (\<lambda>_ v. cluster_up (h_cluster h) c (NodeName cfg)) (\<lambda>_ _. True) (\<lambda>_. True) fs"
    unfolding fwp_def using init_cluster_up [OF assms(3)] by simp
  moreover have "fwp (init_Run h c cfg l self) (\<lambda>_ v. look v (SuperAdminKubeconfig l) = None) (\<lambda>_ _. True) (\<lambda>_. True) fs"
    unfolding init_Run_def
    by (rule fwp_after_bind, rule fwp_after_bind, rule fwp_after_seq, rule fwp_seq, rule fwp_mono [OF fwp_removeSuperAdmin],
        rule fwp_seq, rule fwp_logf, rule fwp_mono [OF fwp_init_finish [OF assms]]) (simp_all add: absent_def)
  ultimately show ?thesis
    using fwp_conj [OF fwp_conj] init_recorded [OF assms(1)] by (fastforce elim: fwp_mono)
qed

lemma files_quiet_ref: "files_quiet (conf_ref :: (unit, unit) pki_ext) Default (absent (SuperAdminKubeconfig Default))"
proof -
  have "keeps (on_fs (absent (SuperAdminKubeconfig Default))) (os_WriteFile (KubeletKubeconfig Default) s m :: (unit, unit) io)" for s m
    by (rule keeps_from_frame [where Z = "{SuperAdminKubeconfig Default}"], rule keeps_WriteFile) (auto simp: absent_def same_on_def)
  then show ?thesis
    unfolding files_quiet_def conf_ref_simps
    by (intro conjI allI keeps_bind keeps_ReadFile) (auto split: option.split intro: keeps_ret keeps_throw)
qed

theorem init_ok_witness:
  "fwp (init_Run host_ref Background sample_cfg Default ''v1'')
    (\<lambda>_ v. cluster_up (cluster_ref :: (unit, unit) cluster) Background (NodeName sample_cfg) \<and> recorded Default ''v1'' v \<and>
      look v (SuperAdminKubeconfig Default) = None) (\<lambda>_ _. True) (\<lambda>_. True) pki_fs"
  using init_ok [of Default host_ref Background sample_cfg "''v1''" pki_fs] quiet_ref files_quiet_ref
  by (simp add: clock_ok_ref)

text \<open>A host on which kubelet cannot be started, and an almost empty disk.\<close>

definition no_systemctl :: "(unit, unit, unit) host" where
  "no_systemctl = host_ref\<lparr>
     h_pki := conf_ref\<lparr>CreatePKIAssets := \<lambda>cfg. ret (),
        CreateKubeConfigFile := \<lambda>name d cfg. if name = ''super-admin.conf'' then os_WriteFile (d @ [name]) ''conf'' 0x180 else ret ()\<rparr>,
     h_phases := phases_ref\<lparr>CreateLocalEtcdStaticPodManifestFile := \<lambda>d pd n cfg dry. ret (),
        CreateInitStaticPodManifestFiles := \<lambda>d pd cfg dry. ret (), WriteKubeletDynamicEnvFile := \<lambda>cfg reg d. ret (),
        WriteInstanceConfigToDisk := \<lambda>s d. ret (), WriteConfigToDisk := \<lambda>cfg d pd. ret ()\<rparr>,
     CombinedOutput := \<lambda>c argv. ret (''unit not found'', Some (Msg ''exit status 5''))\<rparr>"

definition bare_fs :: fsys where
  "bare_fs = map (\<lambda>p. (p, Dir 0x1ED, 1)) [[], [''etc''], [''etc'', ''kubernetes''], [''etc'', ''kubernetes'', ''pki''],
     [''etc'', ''kubernetes'', ''manifests''], [''var''], [''var'', ''lib''], [''var'', ''lib'', ''picokube''], [''var'', ''lib'', ''kubelet'']]"

lemma no_systemctl_start: "init_startKubelet no_systemctl c w = (Err (Msg ''systemctl start kubelet: exit status 5: unit not found''), w)"
  by (simp add: init_startKubelet_def run_command_def no_systemctl_def seq_def bind_def ret_def throw_def)

lemma no_systemctl_quiet: "host_quiet no_systemctl P"
  using quiet_ref [of P] by (simp add: host_quiet_def no_systemctl_def host_ref_def keeps_ret)

text \<open>C36: an init that gets stuck after it has written super-admin.conf leaves it behind, for every host. If kubelet cannot
  be started, or the API server is not reached, or the role binding cannot be seeded - together these three steps never
  return normally - then no init returns normally, and on every error super-admin.conf is there, except when the error
  is that of a step before it was written. What kubeadm and client-go do is a hypothesis: kubeadm has created the file
  when it returns without an error, and none of the later calls removes it.\<close>

theorem failed_init_keeps_super_admin:
  fixes h :: "('e, 'g, 'c) host"
  assumes "SuperAdminKubeconfig l = KubernetesDir l @ [''super-admin.conf'']"
    and written: "\<And>cfg fs. fwp (CreateKubeConfigFile (h_pki h) ''super-admin.conf'' (KubernetesDir l) cfg)
      (\<lambda>_ v. look v (SuperAdminKubeconfig l) \<noteq> None) (\<lambda>_ _. True) (\<lambda>_. True) fs"
    and quiet: "host_quiet h (\<lambda>v. look v (SuperAdminKubeconfig l) \<noteq> None)"
    and client: "keeps (on_fs (\<lambda>v. look v (SuperAdminKubeconfig l) \<noteq> None)) (LoadAdmin (h_cluster h) (AdminKubeconfig l))"
    and binding: "keeps (on_fs (\<lambda>v. look v (SuperAdminKubeconfig l) \<noteq> None))
      (EnsureAdminClusterRoleBinding (h_phases h) (KubernetesDir l) cfg)"
    and stuck: "\<And>fs. fwp (seq (init_startKubelet h c) (seq (init_waitReadyz h c l) (initAdminRBAC h l cfg)))
      (\<lambda>_ _. False) (\<lambda>_ _. True) (\<lambda>_. True) fs"
  shows "fwp (init_Run h c cfg l self) (\<lambda>_ _. False)
    (\<lambda>e v. look v (SuperAdminKubeconfig l) \<noteq> None \<or>
       (\<exists>cause. e \<in> (\<lambda>s. Wrapf s cause) ` {''detect ostree'', ''preflight'', ''certs init'', ''ensure'', ''create super-admin kubeconfig''}))
    (\<lambda>_. True) fs"
proof -
  let ?P = "\<lambda>v. look v (SuperAdminKubeconfig l) \<noteq> None"
  let ?E = "\<lambda>e v. ?P v \<or> (\<exists>cause. e \<in> (\<lambda>s. Wrapf s cause) `
    {''detect ostree'', ''preflight'', ''certs init'', ''ensure'', ''create super-admin kubeconfig''})"
  let ?late = "seq (init_startKubelet h c) (seq (init_waitReadyz h c l) (initAdminRBAC h l cfg))"
  have early: "fwp (seq (wrapf s m) k) (\<lambda>_ _. False) ?E (\<lambda>_. True) v"
    if "s \<in> {''detect ostree'', ''preflight'', ''certs init'', ''ensure''}" "\<And>u. fwp k (\<lambda>_ _. False) ?E (\<lambda>_. True) u"
    for s v and m :: "('e, unit) io" and k :: "('e, 'c) io"
    by (rule fwp_seq, rule fwp_wrapf, rule fwp_mono [OF fwp_True]) (use that in auto)
  note calls = quiet [unfolded host_quiet_def]
  have "keeps (on_fs ?P) (init_startKubelet h c)"
    unfolding init_startKubelet_def by (intro keeps_rules keeps_run_command quiet)
  moreover have "keeps (on_fs ?P) (init_waitReadyz h c l)"
    unfolding init_waitReadyz_def by (intro keeps_rules client keeps_WaitForAPIServer) (use calls in blast)
  moreover have "keeps (on_fs ?P) (initAdminRBAC h l cfg)"
    unfolding initAdminRBAC_def by (intro keeps_rules binding)
  ultimately have "keeps (on_fs ?P) ?late" by (intro keeps_rules)
  from fwp_with_invariant [OF this _ stuck]
  have late: "fwp ?late (\<lambda>_ _. False) ?E (\<lambda>_. True) v" if "?P v" for v
    by (rule fwp_mono) (use that in auto)
  have own: "fwp (WriteSuperAdminKubeconfig (h_pki h) cfg l) (\<lambda>_. ?P) ?E (\<lambda>_. True) v" for v
    unfolding WriteSuperAdminKubeconfig_def Let_def
    by (rule fwp_wrapf, rule fwp_mono [OF written]) auto
  have provision: "fwp (init_provision h c cfg l b) (\<lambda>_ _. False) ?E (\<lambda>_. True) v" for b v
    unfolding init_provision_def
    by (rule early, simp, rule early, simp, rule fwp_seq, rule fwp_logf, rule early, simp, rule fwp_seq, rule fwp_logf,
        rule fwp_seq, rule fwp_mono [OF own]) (use late in auto)
  show ?thesis
    unfolding init_Run_def
    by (rule fwp_bind, rule fwp_wrapf, rule fwp_mono [OF fwp_True], rule fwp_bind, rule fwp_mono [OF provision]) auto
qed

text \<open>A host on which systemctl fails.\<close>

theorem failed_init_keeps_super_admin_witness:
  "\<exists>v. init_Run no_systemctl Background sample_cfg Default ''v1'' (world_at calm_orc bare_fs) =
       (Err (Msg ''systemctl start kubelet: exit status 5: unit not found''), v) \<and>
     look (w_fs v) (SuperAdminKubeconfig Default) \<noteq> None"
proof -
  let ?r = "init_Run no_systemctl Background sample_cfg Default ''v1'' (world_at calm_orc bare_fs)"
  have "fst ?r = Err (Msg ''systemctl start kubelet: exit status 5: unit not found'')" by code_simp
  then obtain v where r: "?r = (Err (Msg ''systemctl start kubelet: exit status 5: unit not found''), v)" by (cases ?r) simp
  let ?P = "\<lambda>v. look v (SuperAdminKubeconfig Default) \<noteq> None"
  have all: "fwp (init_Run no_systemctl Background sample_cfg Default ''v1'') (\<lambda>_ _. False)
    (\<lambda>e v. ?P v \<or> (\<exists>cause. e \<in> (\<lambda>s. Wrapf s cause) `
       {''detect ostree'', ''preflight'', ''certs init'', ''ensure'', ''create super-admin kubeconfig''})) (\<lambda>_. True) bare_fs"
  proof (rule failed_init_keeps_super_admin)
    show "fwp (CreateKubeConfigFile (h_pki no_systemctl) ''super-admin.conf'' (KubernetesDir Default) cfg)
      (\<lambda>_. ?P) (\<lambda>_ _. True) (\<lambda>_. True) fs" for cfg fs
      by (simp add: no_systemctl_def, rule fwp_WriteFile) simp_all
    show "keeps (on_fs ?P) (LoadAdmin (h_cluster no_systemctl) (AdminKubeconfig Default))"
      "keeps (on_fs ?P) (EnsureAdminClusterRoleBinding (h_phases no_systemctl) (KubernetesDir Default) sample_cfg)"
      unfolding LoadAdmin_def no_systemctl_def by (auto simp: host_ref_def cluster_ref_def phases_ref_def intro!: keeps_rules)
    show "fwp (seq (init_startKubelet no_systemctl Background) k) (\<lambda>_ _. False) (\<lambda>_ _. True) (\<lambda>_. True) fs"
      for fs and k :: "(unit, unit) io"
      by (simp add: fwp_def wp_def seq_def bind_def no_systemctl_start)
  qed (simp_all add: no_systemctl_quiet)
  show ?thesis using r fwp_Err [OF all _ r] by auto
qed

end
