(* ===== verification/Teardown.thy ===== *)
theory Teardown
  imports Host
begin

text \<open>
  \<open>internal/teardown\<close>: \<open>picokube reset\<close>. Kubelet is stopped, what it mounted is unmounted, the pods are
  removed, and then the four managed trees. \<open>/proc/mounts\<close> is a file of the model's file system. What a
  mount hides or shows is not part of that file system: \<open>Unmount\<close> is a call of the host. Log lines are
  without their tag, and a nil \<open>out\<close> is a log nobody reads.
\<close>

section \<open>Operations\<close>

definition defaultCRISocket :: string where
  "defaultCRISocket = ''unix:///var/run/crio/crio.sock''"

definition stopKubelet :: "('e, 'g, 'c) host \<Rightarrow> ctx \<Rightarrow> ('e, unit) io" where
  "stopKubelet h c =
     bind time_Now (\<lambda>now.
     bind (CombinedOutput h (WithTimeout c (seconds 30) now) [''systemctl'', ''stop'', ''kubelet.service'']) (\<lambda>(out, err).
       case err of
         Some e \<Rightarrow> logf (''systemctl stop kubelet.service (continuing): '' @ Error e @ '': '' @ TrimSpace out)
       | None \<Rightarrow> logf ''stopped kubelet.service''))"

definition removeKubeContainers :: "('e, 'g, 'c) host \<Rightarrow> ('e, unit) io" where
  "removeKubeContainers h =
     bind (attempt (CRI_Connect h defaultCRISocket)) (\<lambda>r. case r of
       Inl e \<Rightarrow> logf (''connect CRI runtime (continuing): '' @ Error e)
     | Inr _ \<Rightarrow> deferred (CRI_Close h defaultCRISocket)
         (bind (attempt (ListKubeContainers h defaultCRISocket)) (\<lambda>ls. case ls of
            Inl e \<Rightarrow> logf (''list CRI pod sandboxes (continuing): '' @ Error e)
          | Inr sandboxes \<Rightarrow>
              if sandboxes = [] then ret ()
              else bind (attempt (RemoveContainers h defaultCRISocket sandboxes)) (\<lambda>rm. case rm of
                Inl e \<Rightarrow> logf (''remove CRI pod sandboxes (continuing): '' @ Error e)
              | Inr _ \<Rightarrow> logf (''removed '' @ itoa (length sandboxes) @ '' CRI pod sandboxes'')))))"

text \<open>The second field of every line of \<open>/proc/mounts\<close> that starts with the prefix.\<close>

fun mount_targets :: "string \<Rightarrow> string list \<Rightarrow> string list" where
  "mount_targets pre [] = []"
| "mount_targets pre (line # lines) =
     (let fields = split_on (CHR '' '') line in
      if length fields < 2 \<or> \<not> HasPrefix (fields ! 1) pre then mount_targets pre lines
      else fields ! 1 # mount_targets pre lines)"

definition mount_prefix :: "Layout \<Rightarrow> string" where
  "mount_prefix l = (let p = path_text (KubeletDir l) in if HasSuffix p ''/'' then p else p @ ''/'')"

text \<open>Equal strings cannot be told apart, so any correct sort gives this list.\<close>

definition unmount_targets :: "Layout \<Rightarrow> string \<Rightarrow> string list" where
  "unmount_targets l raw = rev (sort (mount_targets (mount_prefix l) (split_on (CHR 0x0A) raw)))"

fun unmount_all :: "('e, 'g, 'c) host \<Rightarrow> string list \<Rightarrow> gerr list \<Rightarrow> nat \<Rightarrow> ('e, gerr list \<times> nat) io" where
  "unmount_all h [] errs unmounted = ret (errs, unmounted)"
| "unmount_all h (t # ts) errs unmounted =
     bind (Unmount h t) (\<lambda>r. case r of
       Some e \<Rightarrow> if e = EINVAL then unmount_all h ts errs unmounted
                 else unmount_all h ts (errs @ [Wrapf (''unmount '' @ t) (SysErr e)]) unmounted
     | None \<Rightarrow> unmount_all h ts errs (Suc unmounted))"

definition unmountKubeletMounts :: "('e, 'g, 'c) host \<Rightarrow> Layout \<Rightarrow> ('e, unit) io" where
  "unmountKubeletMounts h l =
     bind (wrapf ''read /proc/mounts'' (os_ReadFile (abs_path ''/proc/mounts''))) (\<lambda>raw.
     bind (unmount_all h (unmount_targets l raw) [] 0) (\<lambda>(errs, unmounted).
       seq (if unmounted > 0
            then logf (''unmounted '' @ itoa unmounted @ '' kubelet mounts under '' @ path_text (KubeletDir l))
            else ret ())
           (case NewAggregate h errs of None \<Rightarrow> ret () | Some e \<Rightarrow> throw e)))"

definition managed :: "Layout \<Rightarrow> path list" where
  "managed l = [KubernetesDir l, EtcdDataDir l, KubeletDir l, PicoKubeVarDir l]"

definition remove_tree :: "path \<Rightarrow> ('e, unit) io" where
  "remove_tree t = seq (wrapf (''remove '' @ path_text t) (os_RemoveAll t)) (logf (''removed '' @ path_text t))"

definition teardown_Run :: "('e, 'g, 'c) host \<Rightarrow> ctx \<Rightarrow> Layout \<Rightarrow> ('e, unit) io" where
  "teardown_Run h c l =
     seq (stopKubelet h c)
    (seq (wrapf (''unmount kubelet mounts under '' @ path_text (KubeletDir l)) (unmountKubeletMounts h l))
    (seq (removeKubeContainers h)
         (each (managed l) remove_tree)))"

section \<open>The mounts\<close>

lemma mount_targets_filter:
  "mount_targets pre lines = filter (\<lambda>t. HasPrefix t pre)
     (map (\<lambda>f. f ! 1) (filter (\<lambda>f. 2 \<le> length f) (map (split_on (CHR '' '')) lines)))"
  by (induction lines) (auto simp: Let_def)

lemma strict_prefix_less: "strict_prefix s t \<Longrightarrow> (s :: string) < t"
  by (auto simp: strict_prefix_def list_less_def lexord_append_rightI elim!: prefixE)
    (metis lexord_append_rightI neq_Nil_conv)

text \<open>What is unmounted, as all the calls first and the accounts after.\<close>

fun unmount_each :: "('e, 'g, 'c) host \<Rightarrow> string list \<Rightarrow> ('e, (string \<times> errno option) list) io" where
  "unmount_each h [] = ret []"
| "unmount_each h (t # ts) = bind (Unmount h t) (\<lambda>r. bind (unmount_each h ts) (\<lambda>rs. ret ((t, r) # rs)))"

definition unmount_errors :: "(string \<times> errno option) list \<Rightarrow> gerr list" where
  "unmount_errors rs = [Wrapf (''unmount '' @ t) (SysErr e). (t, Some e) \<leftarrow> rs, e \<noteq> EINVAL]"

definition unmount_count :: "(string \<times> errno option) list \<Rightarrow> nat" where
  "unmount_count rs = length (filter (\<lambda>(t, r). r = None) rs)"

lemma bind_assoc: "bind (bind m f) g = bind m (\<lambda>x. bind (f x) g)"
  by (auto simp: bind_def fun_eq_iff split: prod.splits outcome.splits)

lemma bind_ret: "bind (ret x) f = f x"
  by (simp add: bind_def ret_def fun_eq_iff)

lemma bind_cong_all: "(\<And>x. f x = g x) \<Longrightarrow> bind m f = bind m g"
  by presburger

lemma unmount_all_each:
  "unmount_all h ts errs n = bind (unmount_each h ts) (\<lambda>rs. ret (errs @ unmount_errors rs, n + unmount_count rs))"
proof (induction ts arbitrary: errs n)
  case Nil
  then show ?case by (simp add: bind_ret unmount_errors_def unmount_count_def)
next
  case (Cons t ts)
  show ?case
    by (simp add: bind_assoc bind_ret, rule bind_cong_all)
      (auto simp: Cons unmount_errors_def unmount_count_def bind_assoc bind_ret split: option.split intro!: bind_cong_all)
qed

section \<open>The trees\<close>

text \<open>Systemd, the kernel's unmount and the container runtime leave the nodes in \<open>Z\<close> alone.\<close>

definition outside :: "('e, 'g, 'c) host \<Rightarrow> path set \<Rightarrow> bool" where
  "outside h Z \<longleftrightarrow> (\<forall>v0. (\<forall>c argv. keeps (on_fs (same_on Z v0)) (CombinedOutput h c argv)) \<and>
     (\<forall>t. keeps (on_fs (same_on Z v0)) (Unmount h t)) \<and>
     (\<forall>s. keeps (on_fs (same_on Z v0)) (CRI_Connect h s) \<and> keeps (on_fs (same_on Z v0)) (CRI_Close h s) \<and>
        keeps (on_fs (same_on Z v0)) (ListKubeContainers h s) \<and> (\<forall>cs. keeps (on_fs (same_on Z v0)) (RemoveContainers h s cs))))"

lemma keeps_stopKubelet: "outside h Z \<Longrightarrow> keeps (on_fs (same_on Z v0)) (stopKubelet h c)"
  unfolding stopKubelet_def outside_def by (intro keeps_rules) (auto intro: keeps_rules split: option.split)

lemma keeps_removeKubeContainers: "outside h Z \<Longrightarrow> keeps (on_fs (same_on Z v0)) (removeKubeContainers h)"
  unfolding removeKubeContainers_def outside_def by (intro keeps_rules) auto

lemma keeps_unmount_all: "outside h Z \<Longrightarrow> keeps (on_fs (same_on Z v0)) (unmount_all h ts errs n)"
proof (induction ts arbitrary: errs n)
  case (Cons t ts)
  then have "keeps (on_fs (same_on Z v0)) (Unmount h t)" by (simp add: outside_def)
  with Cons show ?case by (auto intro!: keeps_bind split: option.split)
qed (simp add: keeps_ret)

lemma keeps_unmountKubeletMounts: "outside h Z \<Longrightarrow> keeps (on_fs (same_on Z v0)) (unmountKubeletMounts h l)"
  unfolding unmountKubeletMounts_def
  by (intro keeps_rules) (auto intro!: keeps_rules keeps_unmount_all split: option.split)

lemma fwp_remove_trees:
  assumes "same_on (Z - \<Union>(below ` set ts)) fs0 fs"
  shows "fwp (each ts remove_tree) (\<lambda>_ v. same_on (Z - \<Union>(below ` set ts)) fs0 v \<and> (\<forall>t\<in>set ts. sub v t = no_tree))
    (\<lambda>e v. (\<exists>t\<in>set ts. \<exists>cause. e = Wrapf (''remove '' @ path_text t) cause) \<and> same_on (Z - \<Union>(below ` set ts)) fs0 v)
    (\<lambda>v. same_on (Z - \<Union>(below ` set ts)) fs0 v) fs"
proof (rule fwp_each [where I = "\<lambda>dn v. same_on (Z - \<Union>(below ` set ts)) fs0 v \<and> (\<forall>t\<in>set dn. sub v t = no_tree)"], goal_cases)
  case (2 dn t rest v)
  have near: "same_on (Z - \<Union>(below ` set ts)) fs0 v'" if "shrunk t v v'" for v'
    using that 2 by (auto simp: shrunk_def same_on_def)
  have gone: "sub v' u = no_tree" if "shrunk t v v'" "sub v u = no_tree" for v' u
    using that by (auto simp: shrunk_def sub_def no_tree_def fun_eq_iff) metis
  have "t \<in> set ts" using 2(1) by simp
  then show ?case
    unfolding remove_tree_def
    by (intro fwp_seq fwp_wrapf fwp_RemoveAll fwp_logf) (use near gone 2(2) in auto)
qed (use assms in auto)

text \<open>Kubelet's stop and the removal of the pods are best effort.\<close>

lemma no_error_time_Now: "no_error time_Now"
  by (simp add: no_error_def time_Now_def)

lemma no_error_stopKubelet: "(\<And>c argv. no_error (CombinedOutput h c argv)) \<Longrightarrow> no_error (stopKubelet h c)"
  unfolding stopKubelet_def
  by (intro no_error_bind) (auto split: option.split simp: no_error_time_Now)

lemma no_error_removeKubeContainers: "no_error (removeKubeContainers h)"
  unfolding removeKubeContainers_def
  by (intro no_error_bind no_error_simps) (auto split: sum.split intro!: no_error_deferred no_error_bind)

section \<open>Properties\<close>

text \<open>C32: what reset unmounts. The targets are exactly the second fields of the lines of \<open>/proc/mounts\<close> that lie below
  kubelet's directory, and none comes before one that lies below it, so children are unmounted first.\<close>

theorem unmount_children_first:
  fixes l :: Layout and raw :: string
  defines "ts \<equiv> unmount_targets l raw"
  shows "set ts = {t. \<exists>line a r. line \<in> set (split_on (CHR 0x0A) raw) \<and> split_on (CHR '' '') line = a # t # r \<and>
      HasPrefix t (mount_prefix l)} \<and>
    (\<forall>i j. i < j \<longrightarrow> j < length ts \<longrightarrow> \<not> strict_prefix (ts ! i) (ts ! j))"
proof (intro conjI allI impI)
  have two: "2 \<le> length f \<and> f ! 1 = t \<longleftrightarrow> (\<exists>a r. f = a # t # r)" for f :: "string list" and t
    by (cases f; cases "tl f") auto
  show "set ts = {t. \<exists>line a r. line \<in> set (split_on (CHR 0x0A) raw) \<and> split_on (CHR '' '') line = a # t # r \<and>
      HasPrefix t (mount_prefix l)}"
  proof (intro set_eqI)
    show "t \<in> set ts \<longleftrightarrow> t \<in> {t. \<exists>line a r. line \<in> set (split_on (CHR 0x0A) raw) \<and> split_on (CHR '' '') line = a # t # r \<and>
        HasPrefix t (mount_prefix l)}" for t
      unfolding ts_def unmount_targets_def mount_targets_filter using two [where t = t] by (auto simp: image_iff) metis+
  qed
  fix i j
  assume ij: "i < j" "j < length ts"
  let ?s = "sort (mount_targets (mount_prefix l) (split_on (CHR 0x0A) raw))"
  have "ts ! j = ?s ! (length ?s - Suc j)" "ts ! i = ?s ! (length ?s - Suc i)" "length ts = length ?s"
    using ij by (simp_all add: ts_def unmount_targets_def rev_nth)
  then have "ts ! j \<le> ts ! i" using ij sorted_nth_mono [of ?s "length ?s - Suc j" "length ?s - Suc i"] by simp
  then show "\<not> strict_prefix (ts ! i) (ts ! j)" using strict_prefix_less by (metis leD)
qed

definition mounts_text :: string where
  "mounts_text = ''proc /proc proc rw 0 0'' @ CHR 0x0A # ''tmpfs /var/lib/kubelet/pods/a tmpfs rw 0 0'' @
     CHR 0x0A # ''tmpfs /var/lib/kubelet/pods/a/b tmpfs rw 0 0'' @ CHR 0x0A # ''tmpfs /var/lib/kubelet-x tmpfs rw 0 0'' @ [CHR 0x0A]"

theorem unmount_children_first_witness:
  "unmount_targets Default mounts_text = [''/var/lib/kubelet/pods/a/b'', ''/var/lib/kubelet/pods/a''] \<and>
   \<not> strict_prefix (unmount_targets Default mounts_text ! 0) (unmount_targets Default mounts_text ! 1)"
proof -
  have "unmount_targets Default mounts_text = [''/var/lib/kubelet/pods/a/b'', ''/var/lib/kubelet/pods/a'']" by code_simp
  with unmount_children_first [THEN conjunct2, of Default mounts_text] show ?thesis by (metis One_nat_def length_Cons lessI list.size(3) zero_less_one)
qed

text \<open>C34: one failed unmount does not stop the others. The step is the same as calling \<open>Unmount\<close> on every target
  in order and only then looking at the results: what failed with anything but \<open>EINVAL\<close> makes the error.\<close>

theorem unmount_attempts_all:
  "unmountKubeletMounts h l =
     bind (wrapf ''read /proc/mounts'' (os_ReadFile (abs_path ''/proc/mounts''))) (\<lambda>raw.
     bind (unmount_each h (unmount_targets l raw)) (\<lambda>rs.
       seq (if unmount_count rs > 0
            then logf (''unmounted '' @ itoa (unmount_count rs) @ '' kubelet mounts under '' @ path_text (KubeletDir l))
            else ret ())
           (case NewAggregate h (unmount_errors rs) of None \<Rightarrow> ret () | Some e \<Rightarrow> throw e)))"
  unfolding unmountKubeletMounts_def unmount_all_each by (simp add: bind_assoc bind_ret)

text \<open>C20: what reset leaves. A normal return leaves nothing of the four managed trees. Nothing outside them changes on
  any way out, beyond what systemd, the kernel and the container runtime change themselves; an error is that of the
  unmounting or of the removal of one of the trees, and when the unmounting fails, nothing has been removed.\<close>

theorem reset_removes:
  assumes "outside h Z" and "\<And>c argv. no_error (CombinedOutput h c argv)"
  shows "fwp (teardown_Run h c l)
    (\<lambda>_ v. (\<forall>t\<in>set (managed l). sub v t = no_tree) \<and> same_on (Z - \<Union>(below ` set (managed l))) fs v)
    (\<lambda>e v. (\<exists>cause. e = Wrapf (''unmount kubelet mounts under '' @ path_text (KubeletDir l)) cause) \<and> same_on Z fs v \<or>
       (\<exists>t\<in>set (managed l). \<exists>cause. e = Wrapf (''remove '' @ path_text t) cause) \<and> same_on (Z - \<Union>(below ` set (managed l))) fs v)
    (\<lambda>v. same_on (Z - \<Union>(below ` set (managed l))) fs v) fs"
proof -
  let ?kept = "same_on (Z - \<Union>(below ` set (managed l)))"
  have less: "?kept fs v" if "same_on Z fs v" for v
    by (rule same_on_mono [OF that]) auto
  have stop: "fwp (stopKubelet h c) (\<lambda>_. same_on Z fs) (\<lambda>_ _. False) (same_on Z fs) fs"
    by (rule fwp_no_error [OF no_error_stopKubelet [OF assms(2)] fwp_keeps [OF keeps_stopKubelet [OF assms(1)] same_on_refl]])
  have unmount: "fwp (unmountKubeletMounts h l) (\<lambda>_. same_on Z fs) (\<lambda>_. same_on Z fs) (same_on Z fs) v" if "same_on Z fs v" for v
    by (rule fwp_keeps [OF keeps_unmountKubeletMounts [OF assms(1)] that])
  have pods: "fwp (removeKubeContainers h) (\<lambda>_. same_on Z fs) (\<lambda>_ _. False) (same_on Z fs) v" if "same_on Z fs v" for v
    by (rule fwp_no_error [OF no_error_removeKubeContainers fwp_keeps [OF keeps_removeKubeContainers [OF assms(1)] that]])
  show ?thesis
    unfolding teardown_Run_def
    by (intro fwp_seq fwp_wrapf fwp_mono [OF stop] fwp_mono [OF unmount] fwp_mono [OF pods] fwp_mono [OF fwp_remove_trees])
      (use less in auto)
qed

theorem reset_removes_witness:
  "fwp (teardown_Run host_ref Background Default)
    (\<lambda>_ v. (\<forall>t\<in>set (managed Default). sub v t = no_tree) \<and> same_on (UNIV - \<Union>(below ` set (managed Default))) shelf_fs v)
    (\<lambda>e v. (\<exists>cause. e = Wrapf (''unmount kubelet mounts under '' @ path_text (KubeletDir Default)) cause) \<and> same_on UNIV shelf_fs v \<or>
       (\<exists>t\<in>set (managed Default). \<exists>cause. e = Wrapf (''remove '' @ path_text t) cause) \<and>
         same_on (UNIV - \<Union>(below ` set (managed Default))) shelf_fs v)
    (\<lambda>v. same_on (UNIV - \<Union>(below ` set (managed Default))) shelf_fs v) shelf_fs"
  by (rule reset_removes) (simp_all add: outside_def host_ref_def keeps_ret)

end
