(* ===== verification/Rollback.thy ===== *)
theory Rollback
  imports Boot
begin

text \<open>
  What a boot may lose. \<open>Boot\<close> takes each step of \<open>Run\<close> by itself; here they are composed, from the
  preflight checks to the clean-up of the workspace, to follow the backups and the record of the previous boot
  through a whole run and every way it may end. The contract of the host is the locale \<open>boot_host\<close>: that of
  \<open>cp\<close>, of kubeadm's issuing and of its phases, and that every other external call of the boot
  leaves the directory of picokube alone.
\<close>

section \<open>Regions\<close>

definition boot_layout :: "Layout \<Rightarrow> bool" where
  "boot_layout l \<longleftrightarrow> layout_ok l \<and> pki_layout l \<and> prefix (KubernetesDir l) (ManifestsDir l)"

lemma boot_layout_Default [simp]: "boot_layout Default"
  by (simp add: boot_layout_def)

text \<open>The records a boot must not lose: what lies below the backup directory, and the last boot.\<close>

definition records :: "Layout \<Rightarrow> path set" where
  "records l = below (BackupsDir l) \<union> {LastBootFile l}"

text \<open>Below the backup directory, without the staging directory and the restore marker.\<close>

definition shelf :: "Layout \<Rightarrow> path set" where
  "shelf l = below (BackupsDir l) - {BackupsDir l, RestoreMarker l} - below (staging_dir l)"

lemma shelf_records: "shelf l \<subseteq> records l" "{LastBootFile l} \<subseteq> records l" "below (BackupsDir l) \<subseteq> records l"
  "below (staging_dir l) \<subseteq> records l"
  by (auto simp: shelf_def records_def staging_dir_eq dest: append_prefixD)

lemma records_inside:
  assumes "layout_ok l" and "q \<in> records l"
  shows "\<exists>a r. q = PicoKubeVarDir l @ a # r" "q \<in> below (BackupsDir l) \<Longrightarrow> q \<noteq> BackupsDir l \<Longrightarrow> \<exists>a b r. q = PicoKubeVarDir l @ a # b # r"
    "\<exists>a b r. LastBootFile l = PicoKubeVarDir l @ a # b # r"
proof -
  have l: "prefix (PicoKubeVarDir l) (BackupsDir l)" "prefix (PicoKubeVarDir l) (StateDir l)" "apart (BackupsDir l) (StateDir l)"
    "butlast (LastBootFile l) = StateDir l" "LastBootFile l \<noteq> []"
    using assms(1) by (auto simp: layout_ok_def)
  obtain B S where BS: "BackupsDir l = PicoKubeVarDir l @ B" "StateDir l = PicoKubeVarDir l @ S"
    using l(1,2) by (auto simp: prefix_def)
  have ne: "B \<noteq> []" "S \<noteq> []" using l(3) by (auto simp: BS apart_def)
  obtain b where last: "LastBootFile l = StateDir l @ [b]" using l(4,5) by (metis append_butlast_last_id)
  then show lb: "\<exists>a b r. LastBootFile l = PicoKubeVarDir l @ a # b # r"
    using ne(2) by (cases S; cases "tl S") (auto simp: BS)
  show "\<exists>a r. q = PicoKubeVarDir l @ a # r"
    using assms(2) lb ne(1) by (cases B) (auto simp: records_def BS prefix_def)
  show "q \<in> below (BackupsDir l) \<Longrightarrow> q \<noteq> BackupsDir l \<Longrightarrow> \<exists>a b r. q = PicoKubeVarDir l @ a # b # r"
    using ne(1) by (cases B; cases "tl B") (auto simp: BS prefix_def neq_Nil_conv)
qed

lemma records_below: "layout_ok l \<Longrightarrow> records l \<subseteq> below (PicoKubeVarDir l)"
  using records_inside(1) by fastforce

text \<open>Where kubeadm, kubelet and a restore work, no record lies.\<close>

lemma records_outside:
  assumes "layout_ok l" and "Z \<subseteq> records l"
  shows "prefix (KubernetesDir l) d \<Longrightarrow> Z \<inter> (below d \<union> above d) = {}"
    "Z \<inter> (below (KubeletDir l) \<union> above (KubeletDir l)) = {}" "Z \<inter> restore_region l = {}"
proof -
  let ?V = "PicoKubeVarDir l"
  have p: "pairwise_apart [EtcdDataDir l, restoring (EtcdDataDir l), KubernetesDir l, restoring (KubernetesDir l), KubeletDir l, ?V]"
    using assms(1) by (simp add: layout_ok_def)
  then have ap: "apart ?V (EtcdDataDir l)" "apart ?V (restoring (EtcdDataDir l))" "apart ?V (KubernetesDir l)"
    "apart ?V (restoring (KubernetesDir l))" "apart ?V (KubeletDir l)"
    by (auto intro: apart_sym)
  have Z: "Z \<subseteq> below ?V" using assms records_below by blast
  show "Z \<inter> (below d \<union> above d) = {}" if "prefix (KubernetesDir l) d"
    using below_around [OF apart_prefix [OF ap(3) prefix_order.refl that]] Z by blast
  show kubelet: "Z \<inter> (below (KubeletDir l) \<union> above (KubeletDir l)) = {}"
    using below_around [OF ap(5)] Z by blast
  show "Z \<inter> restore_region l = {}"
    using below_restore_area [OF ap(1) ap(2) [unfolded restoring_def]] below_restore_area [OF ap(3) ap(4) [unfolded restoring_def]]
      kubelet Z
    unfolding restore_region_def kubelet_area_def by blast
qed

lemma keeps_records_event:
  assumes "layout_ok l" and "Z \<subseteq> records l"
  shows "keeps (on_fs (same_on Z v0)) (WriteLastEvent l msg)"
  unfolding keeps_alt on_fs_def
proof (intro allI impI)
  fix w :: "'a world"
  assume w: "same_on Z v0 (w_fs w)"
  have "same_on (records l) (w_fs w) (w_fs (snd (WriteLastEvent l msg w)))"
    using frame_step [OF keeps_event [OF assms(1)], of w msg] frame_step [OF keeps_event_last_boot [OF assms(1)], of w msg]
    by (auto simp: same_on_def records_def)
  then show "same_on Z v0 (w_fs (snd (WriteLastEvent l msg w)))"
    using w assms(2) same_on_trans same_on_mono by blast
qed

section \<open>Before the work\<close>

lemma shelf_apart:
  assumes "layout_ok l" and "Z \<subseteq> shelf l \<union> {LastBootFile l}"
  shows "Z \<inter> above (BackupsDir l) = {}" "Z \<inter> above (PicoKubeVarDir l) = {}" "Z \<inter> temp_names (PicoKubeVarDir l) pre = {}"
proof -
  have deep: "\<exists>a b r. q = PicoKubeVarDir l @ a # b # r" if "q \<in> Z" for q
    using that assms(2) records_inside(2) [OF assms(1), of q] records_inside(3) [OF assms(1), of q] shelf_records [of l]
    by (auto simp: shelf_def records_def)
  then show "Z \<inter> above (PicoKubeVarDir l) = {}" "Z \<inter> temp_names (PicoKubeVarDir l) pre = {}"
    by (fastforce simp: temp_names_def)+
  have "LastBootFile l \<in> below (StateDir l)" using assms(1) by (auto simp: layout_ok_def) (metis prefixeq_butlast)
  then have "\<not> prefix (LastBootFile l) (BackupsDir l)"
    using layout_okD(20) [OF assms(1)] by (auto simp: apart_def dest: prefix_order.trans)
  then show "Z \<inter> above (BackupsDir l) = {}" using assms(2) by (auto simp: shelf_def)
qed

lemma keeps_writeProbe:
  assumes "d \<noteq> []" "Z \<inter> above d = {}" "Z \<inter> temp_names d ''.preflight-'' = {}"
  shows "keeps (on_fs (same_on Z v0)) (writeProbe d)"
proof -
  have temp: "keeps (on_fs (same_on Z v0)) (bind (os_CreateTemp d ''.preflight-'') (\<lambda>name. seq (ignore (file_Close name)) (os_Remove name)))"
  proof (rule keeps_fwp)
    fix fs
    assume fs: "same_on Z v0 fs"
    show "fwp (bind (os_CreateTemp d ''.preflight-'') (\<lambda>name. seq (ignore (file_Close name)) (os_Remove name)))
        (\<lambda>_. same_on Z v0) (\<lambda>_. same_on Z v0) (same_on Z v0) fs"
    proof (rule fwp_bind, rule fwp_CreateTemp, goal_cases)
      case (3 p v)
      then have p: "p \<notin> Z" using assms(3) by auto
      have "same_on Z fs v" using same_on_mono [OF 3(3), of Z] p by auto
      then show ?case
        by (intro fwp_keeps keeps_rules p same_on_trans [OF fs])
    qed (use fs in simp_all)
  qed
  show ?thesis unfolding writeProbe_def by (intro keeps_rules temp assms(1,2))
qed

lemma wf_preflight:
  assumes "set checks \<subseteq> set (boot_checks h l b)" and "\<And>p. keeps (on_fs wf_fs) (h_statfs h p)"
  shows "keeps (on_fs wf_fs) (preflight_Run c checks)"
proof -
  have "keeps (on_fs wf_fs) (chk ctx)" if "chk \<in> set (boot_checks h l b)" for chk ctx
    using that assms(2)
    by (auto simp: boot_checks_def FSWritable_def writeProbe_def CAExist_def SpacePreflight_def Let_def split: if_splits intro!: keeps_rules)
  then show ?thesis unfolding preflight_Run_def using assms(1) by (intro keeps_rules) blast
qed

lemma keeps_preflight:
  assumes "set checks \<subseteq> set (boot_checks h l b)" and l: "layout_ok l" "KubernetesDir l \<noteq> []"
    and stat: "\<And>P p. keeps (on_fs P) (h_statfs h p)" and Z: "Z \<subseteq> shelf l \<union> {LastBootFile l}"
  shows "keeps (on_fs (same_on Z v0)) (preflight_Run c checks)"
proof -
  note ap = shelf_apart [OF l(1) Z]
  have ne: "PicoKubeVarDir l \<noteq> []" "BackupsDir l \<noteq> []"
    using l(1) layout_okD(18) [OF l(1)] by (auto simp: layout_ok_def apart_def)
  have "Z \<subseteq> records l" using Z shelf_records [of l] by blast
  note kub = records_outside(1) [OF l(1) this prefix_order.refl]
  have "temp_names (KubernetesDir l) ''.preflight-'' \<subseteq> below (KubernetesDir l)" by (auto simp: temp_names_def)
  then have probes: "keeps (on_fs (same_on Z v0)) (writeProbe (PicoKubeVarDir l))" "keeps (on_fs (same_on Z v0)) (writeProbe (KubernetesDir l))"
    using kub by (auto intro!: keeps_writeProbe ne l(2) ap)
  have "keeps (on_fs (same_on Z v0)) (SpacePreflight (h_statfs h) (h_wide h) (space_for l) ctx)" for ctx
    unfolding SpacePreflight_def Let_def space_for_def SpacePreflighter.simps
    by (intro keeps_rules ne ap stat) (auto simp: Let_def intro!: keeps_rules)
  then have "keeps (on_fs (same_on Z v0)) (chk ctx)" if "chk \<in> set (boot_checks h l b)" for chk ctx
    using that probes
    by (auto simp: boot_checks_def FSWritable_def CAExist_def Let_def split: if_splits intro!: keeps_rules)
  then show ?thesis unfolding preflight_Run_def using assms(1) by (intro keeps_rules) blast
qed

section \<open>What becomes of the records\<close>

text \<open>The record of the last boot is the old one, or that of a backup that was put back.\<close>

definition record_from :: "Layout \<Rightarrow> fsys \<Rightarrow> fsys \<Rightarrow> bool" where
  "record_from l fs v \<longleftrightarrow> look v (LastBootFile l) = look fs (LastBootFile l) \<or>
     (\<exists>n meta. n \<in> set (listed l fs) \<and> meta_of l fs n = Some meta \<and> look v (LastBootFile l) = Some (File 0x180 (Marshal meta)))"

text \<open>Every backup is the tree it was, and so is the record, unless it was put back.\<close>

definition intact :: "Layout \<Rightarrow> fsys \<Rightarrow> fsys \<Rightarrow> bool" where
  "intact l fs v \<longleftrightarrow> record_from l fs v \<and>
     (\<forall>n\<in>set (listed l fs). sub v (BackupsDir l @ [n]) = sub fs (BackupsDir l @ [n]))"

lemma record_from_refl [simp]: "record_from l fs fs"
  by (simp add: record_from_def)

lemma record_from_frame: "record_from l fs v \<Longrightarrow> same_on {LastBootFile l} v v' \<Longrightarrow> record_from l fs v'"
  by (auto simp: record_from_def same_on_def)

text \<open>The name of a backup has an underscore, so it is neither the staging directory nor the marker.\<close>

lemma listed_on_shelf:
  assumes "layout_ok l" and "n \<in> set (listed l fs)"
  shows "below (BackupsDir l @ [n]) \<subseteq> shelf l" "n \<noteq> stagingSubdir"
proof -
  have n: "CHR ''_'' \<in> set n" using listed_in [OF assms(2)] by simp
  then show "n \<noteq> stagingSubdir" by (auto simp: stagingSubdir_def)
  from n have "n \<noteq> ''restore''" by auto
  moreover have "RestoreMarker l = BackupsDir l @ [''restore'']" using assms(1) by (simp add: layout_ok_def)
  ultimately show "below (BackupsDir l @ [n]) \<subseteq> shelf l"
    using simple_apart [OF \<open>n \<noteq> stagingSubdir\<close>, of l] by (auto simp: shelf_def below_apart dest: append_prefixD)
qed

lemma intact_frame:
  assumes "layout_ok l" "intact l fs v" "same_on (shelf l \<union> {LastBootFile l}) v v'"
  shows "intact l fs v'"
proof -
  have "sub v' (BackupsDir l @ [n]) = sub v (BackupsDir l @ [n])" if "n \<in> set (listed l fs)" for n
    by (rule same_on_sub [OF assms(3)]) (use listed_on_shelf(1) [OF assms(1) that] in blast)
  moreover have "record_from l fs v'"
    using assms(2) record_from_frame [OF _ same_on_mono [OF assms(3)]] by (simp add: intact_def)
  ultimately show ?thesis using assms(2) by (simp add: intact_def)
qed

lemma intactI:
  assumes "layout_ok l" "same_on (shelf l) fs v" "record_from l fs v"
  shows "intact l fs v"
  using assms same_on_sub [OF assms(2) listed_on_shelf(1) [OF assms(1)]] by (simp add: intact_def)

lemma keeps_intact:
  assumes "layout_ok l" and "\<And>v0. keeps (on_fs (same_on (shelf l \<union> {LastBootFile l}) v0)) m"
  shows "keeps (on_fs (intact l fs)) m"
  using assms(2) intact_frame [OF assms(1)] by (rule keeps_from_frame)

text \<open>The names in the backup directory are those of the start as long as the shelf is.\<close>

lemma listed_same:
  assumes "layout_ok l" "same_on (shelf l) fs v" "n \<in> set (listed l v)" "wf_fs fs"
  shows "n \<in> set (listed l fs)" "meta_of l v n = meta_of l fs n"
proof -
  note sh = listed_on_shelf(1) [OF assms(1,3)]
  have "look v (BackupsDir l @ [n]) = look fs (BackupsDir l @ [n])"
    by (rule same_on_look [OF assms(2)]) (use sh in auto)
  then have dir: "is_dir fs (BackupsDir l @ [n])" "CHR ''_'' \<in> set n"
    using listed_in [OF assms(3)] by (auto simp: is_dir_look)
  moreover have "is_dir fs (BackupsDir l)" using wf_fs_child [OF assms(4)] dir(1) by (auto simp: is_dir_look [of fs "BackupsDir l @ [n]"])
  moreover have "is_backup (n, True)"
    using assms(3) dir(1) by (auto simp: listed_def is_backup_def split: if_splits)
  ultimately show "n \<in> set (listed l fs)"
    by (auto simp: listed_eq in_children) (auto simp: is_dir_look)
  show "meta_of l v n = meta_of l fs n"
    using same_on_look [OF assms(2), of "BackupsDir l @ [n, metaFileName]"] subsetD [OF sh, of "BackupsDir l @ [n, metaFileName]"]
    by (simp add: meta_of_def)
qed

text \<open>The names the records give to backups are single components, as those of a real node are.\<close>

definition good_name :: "string \<Rightarrow> bool" where
  "good_name b \<longleftrightarrow> (case Unmarshal b of None \<Rightarrow> True | Some lb \<Rightarrow> simple_name (Name lb))"

definition named :: "Layout \<Rightarrow> fsys \<Rightarrow> bool" where
  "named l fs \<longleftrightarrow> (case look fs (LastBootFile l) of Some (File _ b) \<Rightarrow> good_name b | _ \<Rightarrow> True) \<and>
     list_all (\<lambda>n. case meta_of l fs n of None \<Rightarrow> True | Some meta \<Rightarrow> good_name (Marshal meta)) (listed l fs)"

lemma named_record:
  assumes "named l fs" "record_from l fs v" "look v (LastBootFile l) = Some (File m b)"
  shows "good_name b"
  using assms by (fastforce simp: named_def record_from_def list_all_iff split: option.splits)

lemma fwp_ReadLastBoot:
  assumes "C v" "\<And>e. E e v" "Q (no_boot, False) v"
    and "\<And>m b lb. look v (LastBootFile l) = Some (File m b) \<Longrightarrow> Unmarshal b = Some lb \<Longrightarrow> Q (lb, True) v"
  shows "fwp (ReadLastBoot l) Q E C v"
  unfolding ReadLastBoot_def
  by (intro fwp_bind fwp_attempt fwp_ReadFile fwp_case_sum fwp_case_option fwp_if fwp_ret fwp_throw)
    (use assms in \<open>auto dest: look_map_of\<close>)

lemma fwp_Latest_listed:
  assumes "\<And>n. n \<in> set (listed l v) \<Longrightarrow> simple_name n"
    and "C v" "\<And>e. E e v" "\<And>n. n = [] \<or> n \<in> set (listed l v) \<Longrightarrow> Q n v"
  shows "fwp (LatestForDeployment l d) Q E C v"
proof -
  have names: "\<forall>n\<in>set (matching l v d). simple_name n \<and> look v (BackupsDir l @ [n]) \<noteq> None"
    using assms(1) listed_in [of _ l v] by (fastforce simp: matching_def is_dir_look)
  show ?thesis
    unfolding LatestForDeployment_def
  proof (rule fwp_bind, rule fwp_List, goal_cases)
    case 3
    have "entry_name e \<in> set (listed l v)" if "newest_first (entries_of l v (matching l v d)) = e # es" for e es
      using newest_first_hd(1) [OF that] by (auto simp: entries_of_def matching_def)
    then show ?case
      unfolding matching_def [symmetric]
      by (intro fwp_bind fwp_sort [OF names]) (use assms in \<open>auto split: list.split intro!: fwp_ret\<close>)
  qed (use assms in auto)
qed

text \<open>The snapshot never replaces a backup.\<close>

lemma fwp_snapshot_intact:
  assumes cp: "cp_tool cp" and l: "layout_ok l" and wf: "wf_fs v"
    and v: "same_on (shelf l) fs v" "record_from l fs v"
    and ws: "ub \<Longrightarrow> ws = \<lparr>BackupTmp = Some (staging_dir l)\<rparr> \<and> sub v (staging_dir l) = empty_dir"
    and name: "hadPrev \<Longrightarrow> simple_name (Name prev)"
  shows "fwp (snapshot_previous cp l ub ws cd cb prev hadPrev) (\<lambda>_. intact l fs) (\<lambda>_. intact l fs) (intact l fs) v"
proof -
  let ?R = "BackupsDir l @ [Name prev]"
  have start: "intact l fs v" using intactI [OF l v] .
  have ne: "Name prev \<noteq> stagingSubdir" by (auto simp: Name_def stagingSubdir_def append_eq_Cons_conv)
  have lb: "LastBootFile l \<notin> below (BackupsDir l)" using last_boot_region(1) [OF l] by simp
  have near: "intact l fs v'"
    if s: "same_on (- (below (staging_dir l) \<union> Y)) v v'" and Y: "Y \<subseteq> below ?R" "look v ?R \<noteq> None \<Longrightarrow> Y = {}" for v' Y
  proof -
    have "sub v' (BackupsDir l @ [n]) = sub v (BackupsDir l @ [n])" if n: "n \<in> set (listed l fs)" for n
    proof (rule same_on_sub [OF s])
      note sh = listed_on_shelf [OF l n]
      have "look v (BackupsDir l @ [n]) = look fs (BackupsDir l @ [n])" by (rule same_on_look [OF v(1)]) (use sh(1) in auto)
      moreover have "look fs (BackupsDir l @ [n]) \<noteq> None" using listed_in [OF n] by (auto simp: is_dir_look)
      ultimately have "n = Name prev \<Longrightarrow> Y = {}" using Y(2) by simp
      moreover have "n \<noteq> Name prev \<Longrightarrow> below (BackupsDir l @ [n]) \<inter> below ?R = {}"
        using apart_siblings [of n "Name prev" "BackupsDir l"] by (simp add: below_apart)
      ultimately have "below (BackupsDir l @ [n]) \<inter> Y = {}" using Y(1) by blast
      then show "below (BackupsDir l @ [n]) \<subseteq> - (below (staging_dir l) \<union> Y)"
        using sh(1) by (auto simp: shelf_def)
    qed
    moreover have "same_on {LastBootFile l} v v'"
      by (rule same_on_mono [OF s])
        (use lb subset_trans [OF Y(1) below_mono [OF prefixI [of ?R "BackupsDir l" "[Name prev]"]]] in
          \<open>auto simp: staging_dir_eq dest: append_prefixD\<close>)
    ultimately show ?thesis using start record_from_frame [of l fs v v'] by (simp add: intact_def)
  qed
  have event: "fwp (seq (logf m) (ignore (WriteLastEvent l m'))) (\<lambda>_. intact l fs) (\<lambda>_. intact l fs) (intact l fs) v" for m m'
    by (rule fwp_keeps [where P = "intact l fs", OF _ start], intro keeps_seq keeps_logf keeps_ignore keeps_intact [OF l] keeps_records_event [OF l])
      (use shelf_records in blast)
  have create: "fwp (seq (wrapf s1 (Create cp (staging_dir l) ?R prev l)) (logf m)) (\<lambda>_. intact l fs) (\<lambda>_. intact l fs) (intact l fs) v"
    if "sub v (staging_dir l) = empty_dir" for s1 m
  proof (rule fwp_seq, rule fwp_wrapf, rule fwp_mono [OF cp_tool.fwp_Create [OF cp wf l staging_dir_eq that simple_apart [OF ne]]], goal_cases)
    case (1 u v')
    then show ?case using start near [of "below ?R" v'] by (intro fwp_logf) (auto simp: revealed_def split: if_splits)
  qed (use near [of "{}"] in simp_all)
  show ?thesis
  proof (cases "ub \<and> hadPrev")
    case True
    then show ?thesis
      using ws name create event start
      by (auto simp: snapshot_previous_def Let_def path_simps intro: fwp_ret)
  next
    case False
    then show ?thesis using start by (auto simp: snapshot_previous_def intro: fwp_ret)
  qed
qed

section \<open>The contract of the host\<close>

definition leaves :: "Layout \<Rightarrow> ('e, 'a) io \<Rightarrow> bool" where
  "leaves l m \<longleftrightarrow> (\<forall>fs. keeps (on_fs (same_on (below (PicoKubeVarDir l)) fs)) m)"

lemma leaves_keeps:
  assumes "leaves l m" and "layout_ok l" and "Z \<subseteq> records l"
  shows "keeps (on_fs (same_on Z v0)) m"
proof (rule keeps_from_frame)
  show "keeps (on_fs (same_on (below (PicoKubeVarDir l)) v)) m" for v using assms(1) by (simp add: leaves_def)
  have "Z \<subseteq> below (PicoKubeVarDir l)" using assms(2,3) records_below by blast
  then show "same_on Z v0 v \<Longrightarrow> same_on (below (PicoKubeVarDir l)) v v' \<Longrightarrow> same_on Z v0 v'" for v v'
    using same_on_trans same_on_mono by blast
qed

text \<open>
  rpm-ostree and statfs only read. The API server, the commands, systemd and client-go's files and kubeadm's renewal
  may change what they like, but not below the directory of picokube.
\<close>

locale boot_host = cp: cp_tool "h_cp h" + pki: kubeadm_pki "h_pki h" complete minted conf + ph: phase_frames "h_phases h"
  for h :: "('e, 'g, 'c) host" and complete minted conf +
  fixes l :: Layout
  assumes layout: "boot_layout l"
    and reads: "\<And>P. keeps (on_fs P) (h_rpm h)" "\<And>P p. keeps (on_fs P) (h_statfs h p)"
    and requests: "\<And>fs. host_quiet h (same_on (below (PicoKubeVarDir l)) fs)"
    and client: "\<And>p. leaves l (BuildConfigFromFlags (h_cluster h) p)" "\<And>r. leaves l (NewForConfig (h_cluster h) r)"
    and files: "\<And>p. leaves l (LoadFromFile (h_pki h) p)" "\<And>k. leaves l (WriteToFile (h_pki h) k (KubeletKubeconfig l))"
    and renewal: "\<And>cfg. leaves l (NewManager (h_pki h) cfg (KubernetesDir l))"
      "\<And>cfg n. leaves l (GetCertificateExpirationInfo (h_pki h) cfg (KubernetesDir l) n)"
      "\<And>cfg n. leaves l (RenewUsingLocalCA (h_pki h) cfg (KubernetesDir l) n)"
    and notify: "\<And>b s. leaves l (SdNotify h b s)"
begin

lemma lay: "layout_ok l" "pki_layout l" "prefix (KubernetesDir l) (ManifestsDir l)"
  using layout by (simp_all add: boot_layout_def)

lemma quiet_records:
  assumes "Z \<subseteq> records l"
  shows "host_quiet h (same_on Z v0)"
  unfolding host_quiet_def
  by (intro conjI allI leaves_keeps [OF _ lay(1) assms]; use requests in \<open>simp add: host_quiet_def leaves_def\<close>)

text \<open>The certificates: issuing and renewing stays in the directory of Kubernetes.\<close>

lemma keeps_regenerate:
  assumes "Z \<subseteq> records l"
  shows "keeps (on_fs (same_on Z v0)) (RegenerateCA (h_pki h) (NewSigner cfg l) ca)"
proof -
  let ?K = "KubernetesDir l"
  note out = records_outside(1) [OF lay(1) assms]
  have pki: "PKIDir l = ?K @ [''pki'']" "regen_dir l = ?K @ [''pki.regen'']"
    using lay(2) pki_layoutD(1) by (simp_all add: pki_layout_def)
  have Z: "Z \<inter> (above ?K \<union> below (PKIDir l) \<union> below (regen_dir l)) = {}"
    using out [of ?K] out [of "PKIDir l"] out [of "regen_dir l"] by (auto simp: pki)
  have "kubeconfig_scratch ?K \<subseteq> below ?K"
    by (auto simp: kubeconfig_scratch_def temp_names_def dest: append_prefixD)
  then have "Z \<inter> kubeconfig_area ?K n = {}" for n
    using out [of ?K] out [of "?K @ [n]"] by (auto simp: kubeconfig_area_def)
  then show ?thesis
    unfolding pki.RegenerateCA_parts
    by (intro keeps_rules pki.keeps_regen_pki pki.keeps_writeKubeconfigAtomic pki.dependent_names)
      (use Z lay(2) in \<open>simp_all add: NewSigner_def\<close>)
qed

lemma keeps_rotate:
  assumes "Z \<subseteq> records l"
  shows "keeps (on_fs (same_on Z v0)) (rotateCertsIfStale (h_pki h) cfg l)"
proof (rule keeps_rotateCertsIfStale [OF _ keeps_regenerate [OF assms]])
  show "renewal_keeps (h_pki h) l (same_on Z v0)"
    unfolding renewal_keeps_def by (intro conjI allI leaves_keeps [OF _ lay(1) assms] files(1) renewal)
qed

lemma keeps_LoadAdmin: "Z \<subseteq> records l \<Longrightarrow> keeps (on_fs (same_on Z v0)) (LoadAdmin (h_cluster h) p)"
  unfolding LoadAdmin_def by (intro keeps_rules leaves_keeps [OF client(1) lay(1)] leaves_keeps [OF client(2) lay(1)])

text \<open>All of the work on the cluster leaves the records alone, however it ends.\<close>

lemma keeps_ensure:
  assumes "Z \<subseteq> records l"
  shows "keeps (on_fs (same_on Z v0)) (Ensure (h_phases h) cfg l)"
proof (rule ph.keeps_Ensure)
  show "ManifestsDir l \<noteq> []" using lay(2,3) by (auto simp: pki_layout_def)
  show "KubeletDir l \<noteq> []" using layout_okD(17) [OF lay(1)] .
  show "Z \<inter> (below (ManifestsDir l) \<union> above (ManifestsDir l)) = {}" using records_outside(1) [OF lay(1) assms lay(3)] .
  show "Z \<inter> (below (KubeletDir l) \<union> above (KubeletDir l)) = {}" using records_outside(2) [OF lay(1) assms] .
qed

lemma keeps_reconcile:
  assumes "Z \<subseteq> records l"
  shows "keeps (on_fs (same_on Z v0)) (reconcile h c cfg l up p self)"
proof (rule keeps_reconcile_calls)
  show "files_quiet (h_pki h) l (same_on Z v0)"
    unfolding files_quiet_def by (intro conjI allI leaves_keeps [OF _ lay(1) assms] files)
qed (rule quiet_records keeps_LoadAdmin keeps_records_event keeps_ensure keeps_rotate lay assms)+

text \<open>A restore: the shelf and the staging directory stay, and the record comes from a backup or is the old one.\<close>

lemma keeps_maybeRestore:
  "keeps (on_fs (same_on (shelf l \<union> below (staging_dir l)) v0)) (maybeRestore (h_cp h) l d)"
  "keeps (on_fs wf_fs) (maybeRestore (h_cp h) l d)"
proof -
  let ?Z = "shelf l \<union> below (staging_dir l)"
  have Z: "?Z \<subseteq> records l" using shelf_records by blast
  have below: "?Z \<subseteq> below (BackupsDir l)" by (auto simp: shelf_def staging_dir_eq dest: append_prefixD)
  have mark: "RestoreMarker l \<notin> ?Z"
    using lay(1) by (auto simp: shelf_def staging_dir_eq stagingSubdir_def layout_ok_def)
  have state: "?Z \<inter> (below (StateDir l) \<union> above (StateDir l)) = {}" using state_region [OF lay(1)] below by blast
  have latest: "keeps (on_fs P) (LatestForDeployment l d)" for P
    unfolding LatestForDeployment_def List_backups_def sortByModTimeDesc_def
    by (auto intro!: keeps_rules split: list.split)
  have meta: "keeps (on_fs P) (ReadMeta l n)" and requested: "keeps (on_fs P) (RestoreRequested l)" for P n
    unfolding ReadMeta_def RestoreRequested_def by (intro keeps_rules)+
  show "keeps (on_fs (same_on ?Z v0)) (maybeRestore (h_cp h) l d)"
    unfolding maybeRestore_def
    by (intro keeps_rules latest meta requested keeps_clear mark state keeps_records_event lay Z cp.keeps_Restore
        records_outside(3) [OF lay(1) Z])
  show "keeps (on_fs wf_fs) (maybeRestore (h_cp h) l d)"
    unfolding maybeRestore_def ClearRestoreMarker_def by (intro keeps_rules latest meta requested cp.wf_Restore)
qed

lemma fwp_maybeRestore_record:
  assumes "\<And>n. n \<in> set (listed l v) \<Longrightarrow> simple_name n" and old: "look v (LastBootFile l) = look fs (LastBootFile l)"
    and same: "\<And>n. n \<in> set (listed l v) \<Longrightarrow> n \<in> set (listed l fs) \<and> meta_of l v n = meta_of l fs n"
  shows "fwp (maybeRestore (h_cp h) l d) (\<lambda>_. record_from l fs) (\<lambda>_. record_from l fs) (record_from l fs) v"
proof -
  let ?J = "record_from l fs"
  have J: "?J v" using old by (simp add: record_from_def)
  have event: "keeps (on_fs ?J) (WriteLastEvent l m)" for m
    by (rule keeps_from_frame [OF keeps_event_last_boot [OF lay(1)]]) (rule record_from_frame)
  have clear: "keeps (on_fs ?J) (ClearRestoreMarker l)"
    by (rule keeps_from_frame [where Z = "{LastBootFile l}", OF keeps_clear [OF lay(1)]])
      (use last_boot_region(2) [OF lay(1)] in \<open>auto intro: record_from_frame\<close>)
  have commit: "fwp (seq (Restore (h_cp h) l n) (bind (ReadMeta l n) (\<lambda>meta. seq (WriteLastBoot l meta) (ignore (WriteLastEvent l m)))))
      (\<lambda>_. ?J) (\<lambda>_. ?J) ?J v"
    if n: "n \<in> set (listed l v)" for n m
  proof (rule fwp_seq, rule fwp_mono [OF fwp_keeps [OF cp.keeps_Restore [OF lay(1) records_outside(3) [OF lay(1) order_refl]] same_on_refl]], goal_cases)
    case (1 u v')
    have J': "?J v'" using J same_on_look [OF 1, of "LastBootFile l"] by (auto simp: record_from_def records_def)
    have meta: "meta_of l v' n = meta_of l fs n"
      using same [OF n] same_on_look [OF 1, of "BackupsDir l @ [n, metaFileName]"] by (auto simp: meta_of_def records_def)
    show ?case
    proof (intro fwp_bind fwp_ReadMeta [OF assms(1) [OF n]] J', goal_cases)
      case (1 mt)
      then have new: "?J v2" if "look v2 (LastBootFile l) = Some (File 0x180 (Marshal mt))" for v2
        using that meta same [OF n] by (auto simp: record_from_def)
      have kept: "?J v2" if "look v2 (LastBootFile l) = look v' (LastBootFile l)" for v2
        using J' that by (simp add: record_from_def)
      show ?case
        by (intro fwp_seq fwp_WriteLastBoot [OF lay(1)] fwp_keeps [OF keeps_ignore [OF event]])
          (use new kept in auto)
    qed
  next
    case (2 e v') then show ?case using J same_on_look [OF 2, of "LastBootFile l"] by (auto simp: record_from_def records_def)
  next
    case (3 v') then show ?case using J same_on_look [OF 3, of "LastBootFile l"] by (auto simp: record_from_def records_def)
  qed
  note told = fwp_keeps [OF keeps_seq [OF keeps_logf keeps_ignore [OF event]] J]
  have body: "fwp (bind (LatestForDeployment l d) (\<lambda>name. if name = [] then seq (logf m1) (ignore (WriteLastEvent l m2))
      else seq (logf (m3 name)) (seq (Restore (h_cp h) l name) (bind (ReadMeta l name) (\<lambda>meta. seq (WriteLastBoot l meta)
        (ignore (WriteLastEvent l (m4 name)))))))) (\<lambda>_. ?J) (\<lambda>_. ?J) ?J v" for m1 m2 m3 m4
  proof (rule fwp_bind, rule fwp_Latest_listed [OF assms(1)], goal_cases)
    case (4 n)
    then show ?case
      by (intro fwp_if told, simp) (intro fwp_seq [of "logf _"] fwp_logf commit, simp)
  qed (use J in simp_all)
  show ?thesis
    unfolding maybeRestore_def
    by (intro fwp_bind fwp_RestoreRequested fwp_if fwp_ret fwp_deferred_keeps told body keeps_on_err keeps_logf clear J)
qed

lemma keeps_announce:
  assumes "Z \<subseteq> records l"
  shows "keeps (on_fs (same_on Z v0)) (announce l hadPrev prev self)"
  unfolding announce_def by (intro keeps_rules keeps_records_event lay assms)

text \<open>From the announcement on: the records are intact until the cluster is up, and after that no error is returned.\<close>

lemma fwp_boot_rest:
  fixes c cfg
  defines "up \<equiv> cluster_up (h_cluster h) c (NodeName cfg)"
  assumes "clock_ok (h_cluster h)" and v: "intact l fs v"
  shows "fwp (seq (announce l hadPrev prev self) (seq (reconcile h c cfg l u p self) (seq (prune_backups h l ub) (record_boot l now hadPrev prev))))
    (\<lambda>_ _. up) (\<lambda>_. intact l fs) (\<lambda>v. up \<or> intact l fs v) v"
proof -
  have Z: "shelf l \<union> {LastBootFile l} \<subseteq> records l" using shelf_records by blast
  have tail: "fwp (seq (prune_backups h l ub) (record_boot l now hadPrev prev)) (\<lambda>_ _. up) (\<lambda>_. intact l fs) (\<lambda>v. up \<or> intact l fs v) v'"
    if up for v'
  proof -
    have "no_error (seq (prune_backups h l ub) (record_boot l now hadPrev prev) :: ('e, unit) io)"
      unfolding prune_backups_def record_boot_def
      by (intro no_error_seq no_error_on_err) (auto intro!: no_error_bind no_error_on_err split: sum.split)
    from fwp_no_error [OF this fwp_True] show ?thesis by (rule fwp_mono) (use that in simp_all)
  qed
  have work: "fwp (reconcile h c cfg l u p self) (\<lambda>_ v. intact l fs v \<and> up) (\<lambda>_ v. intact l fs v \<and> True) (\<lambda>v. intact l fs v \<and> True) v'"
    if "intact l fs v'" for v'
  proof (rule fwp_with_invariant [OF keeps_intact [OF lay(1) keeps_reconcile [OF Z]] that])
    show "fwp (reconcile h c cfg l u p self) (\<lambda>_ _. up) (\<lambda>_ _. True) (\<lambda>_. True) v'"
      unfolding fwp_def up_def by (intro allI impI wp_reconcile assms)
  qed
  show ?thesis
    by (rule fwp_seq, rule fwp_mono [OF fwp_keeps [OF keeps_intact [OF lay(1) keeps_announce [OF Z]] v]],
        rule fwp_seq, erule fwp_mono [OF work]) (blast intro: tail)+
qed

lemma fwp_boot_work:
  fixes c cfg
  defines "up \<equiv> cluster_up (h_cluster h) c (NodeName cfg)"
  assumes clock: "clock_ok (h_cluster h)" and fs: "wf_fs fs" "names_ok fs" "named l fs"
    and v: "wf_fs v" "same_on (shelf l \<union> {LastBootFile l}) fs v"
    and ws: "ub \<Longrightarrow> ws = \<lparr>BackupTmp = Some (staging_dir l)\<rparr> \<and> sub v (staging_dir l) = empty_dir"
  shows "fwp (boot_work h c cfg l self ub ws) (\<lambda>_ _. up) (\<lambda>_. intact l fs) (\<lambda>v. up \<or> intact l fs v) v"
proof -
  define J where "J v' \<longleftrightarrow> same_on (shelf l \<union> below (staging_dir l)) v v' \<and> wf_fs v' \<and> record_from l fs v'" for v'
  have sh: "same_on (shelf l) fs v" using v(2) by (rule same_on_mono) blast
  have Jv: "J v" using v same_on_look [OF v(2), of "LastBootFile l"] by (simp add: J_def record_from_def)
  have J_shelf: "same_on (shelf l) fs v'" "record_from l fs v'" "wf_fs v'" "sub v' (staging_dir l) = sub v (staging_dir l)" if "J v'" for v'
    using that same_on_trans [OF sh same_on_mono, of "shelf l \<union> below (staging_dir l)" v'] same_on_sub [of _ v v' "staging_dir l"]
    by (auto simp: J_def)
  have J_intact: "intact l fs v'" if "J v'" for v' using intactI [OF lay(1) J_shelf(1,2) [OF that]] .
  note listed = listed_same [OF lay(1) sh _ fs(1)]
  have simple: "simple_name n" if "n \<in> set (listed l v)" for n
    using listed_ok [OF fs(2), of "listed l fs" l] listed(1) [OF that] by auto
  have restore: "fwp (if ub then wrapf s (maybeRestore (h_cp h) l d) else ret ()) (\<lambda>_. J) (\<lambda>_. J) J v" for s d
  proof (intro fwp_if fwp_wrapf fwp_ret Jv)
    have "fwp (maybeRestore (h_cp h) l d) (\<lambda>_. record_from l fs) (\<lambda>_. record_from l fs) (record_from l fs) v"
      by (rule fwp_maybeRestore_record) (use simple listed same_on_look [OF v(2), of "LastBootFile l"] in auto)
    from fwp_with_invariant [OF keeps_maybeRestore(2) v(1) this]
    show "fwp (maybeRestore (h_cp h) l d) (\<lambda>_. J) (\<lambda>_. J) J v"
      by (rule fwp_mono [OF fwp_with_invariant [OF keeps_maybeRestore(1) same_on_refl]]) (simp_all add: J_def)
  qed
  have rest: "fwp (seq (snapshot_previous (h_cp h) l ub ws cd cb prev hadPrev) (seq (announce l hadPrev prev self)
      (seq (reconcile h c cfg l u p self) (seq (prune_backups h l ub) (record_boot l now hadPrev prev)))))
      (\<lambda>_ _. up) (\<lambda>_. intact l fs) (\<lambda>v. up \<or> intact l fs v) v'"
    if "J v'" and "hadPrev \<Longrightarrow> simple_name (Name prev)" for v' cd cb prev hadPrev u p now
  proof (rule fwp_seq, rule fwp_mono [OF fwp_snapshot_intact [OF cp.cp_tool_axioms lay(1) J_shelf(3) [OF that(1)] J_shelf(1,2) [OF that(1)]]], goal_cases)
    case 1 then show ?case using ws J_shelf(4) [OF that(1)] by simp
  next
    case 2 then show ?case using that(2) by simp
  next
    case (3 x v2) then show ?case using fwp_boot_rest [OF clock, of fs v2] by (simp add: up_def)
  qed simp_all
  have read: "fwp (bind (ReadLastBoot l) (\<lambda>(prev, hadPrev). seq (snapshot_previous (h_cp h) l ub ws cd cb prev hadPrev) (seq (announce l hadPrev prev self)
      (seq (reconcile h c cfg l (hadPrev \<and> Version prev \<noteq> self) (Version prev) self)
      (seq (prune_backups h l ub) (record_boot l now hadPrev prev))))))
      (\<lambda>_ _. up) (\<lambda>_. intact l fs) (\<lambda>v. up \<or> intact l fs v) v'"
    if "J v'" for v' cd cb now
  proof (rule fwp_bind, rule fwp_ReadLastBoot, goal_cases)
    case (4 m b lb)
    have "good_name b" using named_record [OF fs(3) J_shelf(2) [OF that] 4(1)] .
    then have "simple_name (Name lb)" using 4(2) by (simp add: good_name_def)
    then show ?case using rest [OF that] by simp
  qed (use rest [OF that] J_intact [OF that] in simp_all)
  have ids: "fwp (if ub then wrapf s1 (BootedDeploymentID (h_rpm h)) else seq (logf s2) (ret [])) (\<lambda>_ v'. v' = v) (\<lambda>_ v'. v' = v) (\<lambda>v'. v' = v) v"
    and boot: "fwp backup_BootID (\<lambda>_ v'. v' = v) (\<lambda>_ v'. v' = v) (\<lambda>v'. v' = v) v" for s1 s2
    unfolding backup_BootID_def
    by (rule fwp_keeps, intro keeps_rules keeps_BootedDeploymentID reads, rule refl)+
  show ?thesis
    unfolding boot_work_def
    by (rule fwp_bind, rule fwp_mono [OF ids], simp_all only:, rule fwp_bind, rule fwp_mono [OF boot], simp_all only:,
        rule fwp_seq, rule fwp_mono [OF restore], erule read)
      (use J_intact Jv in auto)
qed

lemma fwp_boot_Run:
  fixes c cfg
  defines "up \<equiv> cluster_up (h_cluster h) c (NodeName cfg)"
  assumes clock: "clock_ok (h_cluster h)" and fs: "wf_fs fs" "names_ok fs" "named l fs"
  shows "fwp (boot_Run h c cfg l self) (\<lambda>_ _. up) (\<lambda>_. intact l fs) (\<lambda>v. up \<or> intact l fs v) fs"
proof -
  let ?Z = "shelf l \<union> {LastBootFile l}"
  have start: "intact l fs fs" by (rule intactI [OF lay(1)]) simp_all
  have near: "intact l fs v" if "same_on ?Z fs v" for v by (rule intact_frame [OF lay(1) start that])
  have kub: "KubernetesDir l \<noteq> []" using lay(2) by (simp add: pki_layout_def)
  have sweep: "keeps (on_fs (intact l fs)) (ignore (os_RemoveAll (staging_dir l)) :: ('e, unit) io)"
    by (intro keeps_ignore keeps_intact [OF lay(1)] keeps_RemoveAll)
      (use last_boot_region(1) [OF lay(1)] in \<open>auto simp: shelf_def staging_dir_eq dest: append_prefixD\<close>)
  have work: "fwp (deferred cleanup (seq (boot_work h c cfg l self ub ws) (seq (notifyReady h) (logf m))))
      (\<lambda>_ _. up) (\<lambda>_. intact l fs) (\<lambda>v. up \<or> intact l fs v) v"
    if v: "wf_fs v" "same_on ?Z fs v" and clean: "keeps (on_fs (intact l fs)) cleanup" "keeps (on_fs (\<lambda>_. up)) cleanup"
      and ws: "ub \<Longrightarrow> ws = \<lparr>BackupTmp = Some (staging_dir l)\<rparr> \<and> sub v (staging_dir l) = empty_dir" for v ub ws cleanup m
  proof (rule fwp_deferred_keeps [OF _ clean(2,1)])
    have "no_error (seq (notifyReady h) (logf m))" by (intro no_error_seq no_error_notifyReady no_error_simps)
    from fwp_no_error [OF this fwp_True]
    have told: "fwp (seq (notifyReady h) (logf m)) (\<lambda>_ _. up) (\<lambda>_. intact l fs) (\<lambda>v. up \<or> intact l fs v) v'" if up for v'
      by (rule fwp_mono) (use that in simp_all)
    show "fwp (seq (boot_work h c cfg l self ub ws) (seq (notifyReady h) (logf m))) (\<lambda>_ _. up) (\<lambda>_. intact l fs) (\<lambda>v. up \<or> intact l fs v) v"
      by (rule fwp_seq, rule fwp_mono [OF fwp_boot_work [OF clock fs v ws]]) (use told in \<open>auto simp: up_def\<close>)
  qed simp_all
  have go: "fwp (bind (wrapf s (AllocateWorkspace l b)) (\<lambda>(ws, cleanup). deferred cleanup (seq (boot_work h c cfg l self b ws) (seq (notifyReady h) (logf m)))))
      (\<lambda>_ _. up) (\<lambda>_. intact l fs) (\<lambda>v. up \<or> intact l fs v) v"
    if v: "wf_fs v" "same_on ?Z fs v" for v b s m
  proof (cases b)
    case False
    then show ?thesis
      using work [OF v keeps_ret keeps_ret] by (auto simp: AllocateWorkspace_def intro!: fwp_bind fwp_wrapf fwp_ret)
  next
    case True
    have out: "?Z \<subseteq> - (below (staging_dir l) \<union> above (BackupsDir l))"
      using shelf_apart(1) [OF lay(1) order_refl] last_boot_region(1) [OF lay(1)]
      by (auto simp: shelf_def staging_dir_eq dest: append_prefixD)
    have far: "same_on ?Z fs v'" if "same_on (- (below (staging_dir l) \<union> above (BackupsDir l))) v v'" for v'
      using same_on_trans [OF v(2) same_on_mono [OF that out]] .
    have up: "keeps (on_fs (\<lambda>_. up)) (ignore (os_RemoveAll (staging_dir l)) :: ('e, unit) io)"
      by (simp add: keeps_alt on_fs_def)
    show ?thesis
    proof (simp only: True, rule fwp_bind, rule fwp_wrapf, rule fwp_mono [OF fwp_AllocateWorkspace [OF v(1) lay(1)]], goal_cases)
      case (1 x v')
      then show ?case using work [of v' "ignore (os_RemoveAll (staging_dir l))" True] far sweep up by auto
    qed (use near far in auto)
  qed
  have checks: "fwp (preflight_Run c (boot_checks h l b)) (\<lambda>_ v. same_on ?Z fs v \<and> wf_fs v) (\<lambda>_ v. same_on ?Z fs v \<and> wf_fs v)
      (\<lambda>v. same_on ?Z fs v \<and> wf_fs v) fs" for b
    by (rule fwp_conj [OF fwp_keeps [OF keeps_preflight [OF order_refl lay(1) kub reads(2) order_refl] same_on_refl] fwp_keeps [OF wf_preflight [OF order_refl reads(2)] fs(1)]])
  show ?thesis
    unfolding boot_Run_def
    by (rule fwp_bind, rule fwp_wrapf, rule fwp_IsOSTree)
      (use start near go in \<open>auto intro!: fwp_seq fwp_wrapf fwp_mono [OF checks]\<close>)
qed

end

section \<open>The contract can be met\<close>

lemma conf_ref_pki: "kubeadm_pki (conf_ref :: ('e, 'g) pki_ext) ref_complete ref_minted ref_conf"
  using pkiref.kubeadm_pki_axioms [where ?'a = 'e and ?'b = 'g] by (simp add: kubeadm_pki_def conf_ref_def)

lemma leaves_read: "(\<And>P. keeps (on_fs P) m) \<Longrightarrow> leaves l m"
  by (simp add: leaves_def)

interpretation bootref: boot_host "host_ref :: (unit, unit, unit) host" ref_complete ref_minted ref_conf Default
proof (intro boot_host.intro boot_host_axioms.intro)
  show "cp_tool (h_cp host_ref)" by (simp add: host_ref_def cpref.cp_tool_axioms)
  show "kubeadm_pki (h_pki host_ref) ref_complete ref_minted ref_conf" by (simp add: conf_ref_pki)
  show "phase_frames (h_phases host_ref)" by (simp add: phref.phase_frames_axioms)
  show "leaves Default (WriteToFile (h_pki (host_ref :: (unit, unit, unit) host)) k (KubeletKubeconfig Default))" for k
    unfolding leaves_def by (auto simp: conf_ref_simps intro!: keeps_WriteFile)
  show "leaves Default (LoadFromFile (h_pki (host_ref :: (unit, unit, unit) host)) p)" for p
    by (rule leaves_read) (auto simp: conf_ref_simps intro!: keeps_rules)
  show "leaves Default (BuildConfigFromFlags (h_cluster (host_ref :: (unit, unit, unit) host)) p)" for p
    by (rule leaves_read) (auto simp: cluster_ref_def intro!: keeps_rules)
qed (simp_all add: host_ref_def host_quiet_def cluster_ref_def phases_ref_def conf_ref_def pki_ref_def keeps_ret leaves_read
      keeps_answer_from)

section \<open>Properties\<close>

text \<open>C1: a boot never costs the node what a rollback needs. Until the cluster has been seen up - the API server, the node
  and the control-plane pods, each within its timeout - no way out of \<open>Run\<close>, an error or a power loss at any moment,
  has lost or changed a backup, and \<open>last-boot.json\<close> is the old one or that of a backup that was put back: no failed
  boot is recorded as the last healthy one. An error never does, whenever it comes, and a normal return
  means that the cluster was up.\<close>

theorem boot_keeps_records:
  assumes "boot_host h complete minted conf l" and "clock_ok (h_cluster h)"
    and "wf_fs fs" and "names_ok fs" and "named l fs"
  shows "fwp (boot_Run h c cfg l self) (\<lambda>_ _. cluster_up (h_cluster h) c (NodeName cfg)) (\<lambda>_ v. intact l fs v)
    (\<lambda>v. cluster_up (h_cluster h) c (NodeName cfg) \<or> intact l fs v) fs"
  using assms by (rule boot_host.fwp_boot_Run)

text \<open>A node with backups of several deployments and the record of a boot.\<close>

definition recorded_fs :: fsys where
  "recorded_fs = shelf_fs @ [(StateDir Default, Dir 0x1ED, 8), (LastBootFile Default, File 0x180 (Marshal sample_meta), 8)]"

lemma recorded_fs_ok: "wf_fs recorded_fs" "names_ok recorded_fs" "named Default recorded_fs"
  by code_simp+

theorem boot_keeps_records_witness:
  "fwp (boot_Run (host_ref :: (unit, unit, unit) host) Background sample_cfg Default ''v2'')
    (\<lambda>_ _. cluster_up (cluster_ref :: (unit, unit) cluster) Background (NodeName sample_cfg)) (\<lambda>_ v. intact Default recorded_fs v)
    (\<lambda>v. cluster_up (cluster_ref :: (unit, unit) cluster) Background (NodeName sample_cfg) \<or> intact Default recorded_fs v) recorded_fs \<and>
   listed Default recorded_fs \<noteq> [] \<and> look recorded_fs (LastBootFile Default) \<noteq> None"
proof -
  have "listed Default recorded_fs \<noteq> [] \<and> look recorded_fs (LastBootFile Default) \<noteq> None" by code_simp
  then show ?thesis
    using boot_keeps_records [OF bootref.boot_host_axioms _ recorded_fs_ok, of Background sample_cfg "''v2''"]
    by (simp add: clock_ok_ref)
qed

end
