(* ===== verification/Vault.thy ===== *)
theory Vault
  imports Rollback
begin

text \<open>
  What the backups are for, without files: a vault holds the live state of the node and, under names, the states that
  were saved with their records. \<open>Create\<close>, \<open>Restore\<close> and \<open>Prune\<close> are the operations of a finite map on it, and
  \<open>vault_of\<close> reads the vault off a file system. The theorem is the commuting square of each operation, with the
  power loss and the errors.
\<close>

section \<open>The vault\<close>

type_synonym tree = "path \<Rightarrow> node option"

record live_state =
  lv_etcd :: tree
  lv_kubernetes :: tree
  lv_kubelet :: "string \<Rightarrow> node option"

record vault =
  now :: live_state
  saved :: "string \<Rightarrow> (live_state \<times> LastBoot option) option"

definition take_snapshot :: "string \<Rightarrow> LastBoot \<Rightarrow> vault \<Rightarrow> vault" where
  "take_snapshot n meta v = v\<lparr>saved := (saved v)(n \<mapsto> (now v, Some meta))\<rparr>"

definition put_back :: "string \<Rightarrow> vault \<Rightarrow> vault" where
  "put_back n v = (case saved v n of None \<Rightarrow> v | Some (s, _) \<Rightarrow> v\<lparr>now := s\<rparr>)"

definition keep_only :: "string set \<Rightarrow> vault \<Rightarrow> vault" where
  "keep_only K v = v\<lparr>saved := saved v |` K\<rparr>"

section \<open>Reading it off a file system\<close>

definition live_of :: "Layout \<Rightarrow> fsys \<Rightarrow> live_state" where
  "live_of l fs = \<lparr>lv_etcd = sub fs (EtcdDataDir l), lv_kubernetes = sub fs (KubernetesDir l),
     lv_kubelet = (\<lambda>f. if f \<in> set kubeletStateFiles then look fs (KubeletDir l @ [f]) else None)\<rparr>"

definition saved_of :: "Layout \<Rightarrow> fsys \<Rightarrow> string \<Rightarrow> live_state" where
  "saved_of l fs n = \<lparr>lv_etcd = sub fs (BackupsDir l @ [n, ''etcd'']), lv_kubernetes = sub fs (BackupsDir l @ [n, ''kubernetes'']),
     lv_kubelet = (\<lambda>f. if f \<in> set kubeletStateFiles then look fs (backup_file l n f) else None)\<rparr>"

definition vault_of :: "Layout \<Rightarrow> fsys \<Rightarrow> vault" where
  "vault_of l fs = \<lparr>now = live_of l fs,
     saved = (\<lambda>n. if n \<in> set (listed l fs) then Some (saved_of l fs n, meta_of l fs n) else None)\<rparr>"

lemma now_vault_of [simp]: "now (vault_of l fs) = live_of l fs"
  by (simp add: vault_of_def)

lemma dom_saved [simp]: "saved (vault_of l fs) n = None \<longleftrightarrow> n \<notin> set (listed l fs)"
  by (simp add: vault_of_def)

lemma in_listed:
  assumes "wf_fs fs"
  shows "n \<in> set (listed l fs) \<longleftrightarrow> is_backup (n, is_dir fs (BackupsDir l @ [n]))"
proof
  assume "is_backup (n, is_dir fs (BackupsDir l @ [n]))"
  moreover from this have "is_dir fs (BackupsDir l @ [n])" by (simp add: is_backup_def)
  moreover from this have "is_dir fs (BackupsDir l)" using wf_fs_child [OF assms] by (auto simp: is_dir_look [of fs "BackupsDir l @ [n]"])
  ultimately show "n \<in> set (listed l fs)" by (auto simp: listed_eq in_children) (auto simp: is_dir_look)
qed (auto simp: listed_eq split: if_splits)

lemma live_of_same: "same_on (live_area l) fs v \<Longrightarrow> live_of l v = live_of l fs"
  unfolding live_of_def live_area_def by (auto simp: same_on_def sub_def fun_eq_iff)

lemma saved_same:
  assumes "wf_fs fs" "wf_fs v" "sub v (BackupsDir l @ [n]) = sub fs (BackupsDir l @ [n])"
  shows "saved (vault_of l v) n = saved (vault_of l fs) n"
proof -
  have look: "look v (BackupsDir l @ n # q) = look fs (BackupsDir l @ n # q)" for q
    using assms(3) by (simp add: sub_def fun_eq_iff)
  have "is_dir v (BackupsDir l @ [n]) = is_dir fs (BackupsDir l @ [n])" using look [of "[]"] by (simp add: is_dir_look)
  then show ?thesis
    using look by (simp add: vault_of_def in_listed [OF assms(1)] in_listed [OF assms(2)] saved_of_def meta_of_def sub_def backup_file_def fun_eq_iff)
qed

lemma vault_eqI: "now v = now u \<Longrightarrow> (\<And>n. saved v n = saved u n) \<Longrightarrow> v = (u :: vault)"
  by (cases u; cases v) auto

lemma saved_of_snapshot:
  assumes "sub v (BackupsDir l @ [n]) = snapshot l meta fs" and "boot_utf8 meta"
  shows "saved_of l v n = live_of l fs" "meta_of l v n = Some meta" "is_dir v (BackupsDir l @ [n])"
proof -
  have look: "look v (BackupsDir l @ n # q) = snapshot l meta fs q" for q
    using assms(1) by (simp add: sub_def fun_eq_iff)
  show "saved_of l v n = live_of l fs"
    by (auto simp: saved_of_def live_of_def sub_def look snapshot_def backup_file_def fun_eq_iff)
  show "meta_of l v n = Some meta" using look [of "[metaFileName]"] Unmarshal_Marshal [OF assms(2)]
    by (simp add: meta_of_def snapshot_def metaFileName_def)
  show "is_dir v (BackupsDir l @ [n])" using look [of "[]"] by (simp add: is_dir_look snapshot_def)
qed

lemma restored_live: "restored l n fs v \<Longrightarrow> live_of l v = saved_of l fs n"
  by (auto simp: restored_def live_of_def saved_of_def)

text \<open>A listed name is not the staging directory, so a change of another name leaves it alone.\<close>

lemma saved_other:
  assumes "wf_fs fs" "wf_fs v" "same_on (- (below (staging_dir l) \<union> Y)) fs v"
    and "is_backup (m, True) \<Longrightarrow> below (BackupsDir l @ [m]) \<inter> Y = {}"
  shows "saved (vault_of l v) m = saved (vault_of l fs) m"
proof (cases "is_backup (m, True)")
  case True
  then have "CHR ''_'' \<in> set m" by (simp add: is_backup_def Cut_found)
  then have "m \<noteq> stagingSubdir" by (auto simp: stagingSubdir_def)
  then have "below (BackupsDir l @ [m]) \<subseteq> - (below (staging_dir l) \<union> Y)"
    using simple_apart [of m l] assms(4) [OF True] by (auto simp: below_apart)
  then show ?thesis by (intro saved_same assms(1,2) same_on_sub [OF assms(3)])
next
  case False
  then show ?thesis using in_listed [OF assms(1)] in_listed [OF assms(2)] by (auto simp: vault_of_def is_backup_def)
qed

section \<open>The operations refine those of the vault\<close>

lemma live_outside_backups:
  assumes "layout_ok l" "same_on (- below (BackupsDir l)) fs v"
  shows "live_of l v = live_of l fs"
  by (rule live_of_same, rule same_on_mono [OF assms(2)])
    (use layout_okD(4-6) [OF assms(1)] in \<open>auto simp: live_area_def below_apart\<close>)

lemma wf_Create: "cp_tool cp \<Longrightarrow> keeps (on_fs wf_fs) (Create cp S R meta l)"
  unfolding Create_def Let_def writeMeta_def
  by (intro keeps_rules cp_tool.wf_copies)

lemma wf_Prune: "keeps (on_fs wf_fs) (Prune order l known)"
proof -
  have list: "keeps (on_fs wf_fs) (List_backups l)" unfolding List_backups_def by (intro keeps_rules)
  have unknown: "keeps (on_fs wf_fs) (prune_unknown l known ns gs)" for ns gs
    by (induction ns arbitrary: gs) (auto intro!: keeps_rules)
  have group: "keeps (on_fs wf_fs) (prune_group l g)" for g
    unfolding prune_group_def sortByModTimeDesc_def by (auto intro!: keeps_rules split: list.split)
  show ?thesis unfolding Prune_def by (intro keeps_rules list unknown group)
qed

lemma create_refines:
  assumes "cp_tool cp" "layout_ok l" "wf_fs fs" "sub fs (staging_dir l) = empty_dir"
    and n: "is_backup (n, True)" and utf: "boot_utf8 meta"
  shows "fwp (Create cp (staging_dir l) (BackupsDir l @ [n]) meta l)
    (\<lambda>_ v. vault_of l v = (if look fs (BackupsDir l @ [n]) = None then take_snapshot n meta else id) (vault_of l fs))
    (\<lambda>_ v. vault_of l v = vault_of l fs) (\<lambda>v. vault_of l v = vault_of l fs) fs"
proof -
  let ?R = "BackupsDir l @ [n]"
  have inside: "below (staging_dir l) \<union> below ?R \<subseteq> below (BackupsDir l)"
    by (auto simp: staging_dir_eq dest: append_prefixD)
  have "n \<noteq> stagingSubdir" using n by (auto simp: is_backup_def Cut_found stagingSubdir_def)
  note ap = simple_apart [OF this, of l]
  have same: "vault_of l v = vault_of l fs" if "wf_fs v" "same_on (- below (staging_dir l)) fs v" for v
  proof (rule vault_eqI)
    show "saved (vault_of l v) m = saved (vault_of l fs) m" for m
      by (rule saved_other [OF assms(3) that(1), where Y = "{}"]) (use that(2) in simp_all)
    have "same_on (- below (BackupsDir l)) fs v" by (rule same_on_mono [OF that(2)]) (use inside in blast)
    from live_outside_backups [OF assms(2) this] show "now (vault_of l v) = now (vault_of l fs)" by simp
  qed
  have taken: "vault_of l v = take_snapshot n meta (vault_of l fs)" if "wf_fs v" "revealed l meta (staging_dir l) ?R fs v" for v
  proof (rule vault_eqI)
    note v = that(2) [unfolded revealed_def]
    have "same_on (- below (BackupsDir l)) fs v" by (rule same_on_mono [OF conjunct2 [OF conjunct2 [OF v]]]) (use inside in blast)
    from live_outside_backups [OF assms(2) this] show "now (vault_of l v) = now (take_snapshot n meta (vault_of l fs))"
      by (simp add: take_snapshot_def)
    show "saved (vault_of l v) m = saved (take_snapshot n meta (vault_of l fs)) m" for m
    proof (cases "m = n")
      case True
      then show ?thesis
        using saved_of_snapshot [OF conjunct1 [OF v] utf] n in_listed [OF that(1), of n l]
        by (simp add: take_snapshot_def) (simp add: vault_of_def)
    next
      case False
      have "saved (vault_of l v) m = saved (vault_of l fs) m"
        by (rule saved_other [OF assms(3) that(1) conjunct2 [OF conjunct2 [OF v]]])
          (use apart_siblings [OF False, of "BackupsDir l"] in \<open>simp add: below_apart\<close>)
      then show ?thesis using False by (simp add: take_snapshot_def)
    qed
  qed
  show ?thesis
    by (rule fwp_mono [OF fwp_with_invariant [OF wf_Create [OF assms(1)] assms(3)
          cp_tool.fwp_Create [OF assms(1,3,2) staging_dir_eq assms(4) ap]]])
      (use same taken in \<open>auto split: if_splits\<close>)
qed

lemma restore_refines:
  assumes "cp_tool cp" "layout_ok l" "wf_fs fs" "simple_name n" "n \<in> set (listed l fs)"
  shows "fwp (Restore cp l n) (\<lambda>_ v. vault_of l v = put_back n (vault_of l fs))
    (\<lambda>_ v. saved (vault_of l v) = saved (vault_of l fs)) (\<lambda>v. saved (vault_of l v) = saved (vault_of l fs)) fs"
proof -
  have stay: "fwp (Restore cp l n) (\<lambda>_. same_on (below (BackupsDir l)) fs) (\<lambda>_. same_on (below (BackupsDir l)) fs)
      (same_on (below (BackupsDir l)) fs) fs"
    by (rule fwp_keeps [OF cp_tool.keeps_Restore [OF assms(1,2) restore_regions_apart(1) [OF assms(2)]] same_on_refl])
  have same: "saved (vault_of l v) = saved (vault_of l fs)" if "wf_fs v" "same_on (below (BackupsDir l)) fs v" for v
    by (rule ext, rule saved_same [OF assms(3) that(1)], rule same_on_sub [OF that(2)]) (auto dest: append_prefixD)
  have put: "vault_of l v = put_back n (vault_of l fs)" if "wf_fs v" "same_on (below (BackupsDir l)) fs v" "restored l n fs v" for v
    using same [OF that(1,2)] restored_live [OF that(3)] assms(5)
    by (intro vault_eqI) (simp_all add: put_back_def, simp_all add: vault_of_def)
  show ?thesis
    by (rule fwp_mono [OF fwp_with_invariant [OF cp_tool.wf_Restore [OF assms(1)] assms(3)
          fwp_conj [OF stay cp_tool.fwp_Restore [OF assms(1,2,4,3)]]]])
      (use same put in blast)+
qed

lemma prune_refines:
  fixes l :: Layout and fs :: fsys and known :: "string list"
  assumes "names_ok fs" "wf_fs fs" "layout_ok l" and order: "\<And>gs. distinct gs \<Longrightarrow> set (order gs) = set gs \<and> distinct (order gs)"
  defines "K \<equiv> {n. survives l fs known n}"
  shows "fwp (Prune order l known) (\<lambda>_ v. vault_of l v = keep_only K (vault_of l fs))
    (\<lambda>_ v. keep_only K (vault_of l v) = keep_only K (vault_of l fs))
    (\<lambda>v. keep_only K (vault_of l v) = keep_only K (vault_of l fs)) fs"
proof -
  have live: "live_of l v = live_of l fs" if p: "pruned l fs S G v" for S G v
  proof (rule live_outside_backups [OF assms(3)], unfold same_on_def, intro ballI)
    fix q assume "q \<in> - below (BackupsDir l)"
    then have "\<not> prefix (BackupsDir l @ [n]) q" for n using append_prefixD by auto
    then show "look v q = look fs q" using conjunct1 [OF p [unfolded pruned_def]] by simp
  qed
  have kept: "saved (vault_of l v) n = saved (vault_of l fs) n" if "wf_fs v" "pruned l fs K G v" "n \<in> K" for G v n
    using that by (intro saved_same assms(2)) (auto simp: pruned_def)
  have some: "keep_only K (vault_of l v) = keep_only K (vault_of l fs)" if "wf_fs v" "pruned l fs K G v" for G v
    using live [OF that(2)] kept [OF that] by (intro vault_eqI) (simp_all add: keep_only_def restrict_map_def)
  have all: "vault_of l v = keep_only K (vault_of l fs)" if v: "wf_fs v" "pruned l fs K (set (listed l fs) - K) v" for v
  proof (rule vault_eqI)
    show "saved (vault_of l v) n = saved (keep_only K (vault_of l fs)) n" for n
    proof (cases "n \<in> K")
      case True
      then show ?thesis using kept [OF v] by (simp add: keep_only_def)
    next
      case False
      have "n \<notin> set (listed l v)"
      proof
        assume n: "n \<in> set (listed l v)"
        then have dir: "is_dir v (BackupsDir l @ [n])" "is_backup (n, True)" using in_listed [OF v(1), of n l] by (auto simp: is_backup_def)
        have "n \<notin> set (listed l fs)"
          using v(2) False dir(1) by (auto simp: pruned_def is_dir_look sub_def fun_eq_iff no_tree_def dest: bspec [of _ _ n] spec [of _ "[]"])
        moreover have "look v (BackupsDir l @ [n]) = look fs (BackupsDir l @ [n])"
          using \<open>n \<notin> set (listed l fs)\<close>
          by (intro conjunct1 [OF v(2) [unfolded pruned_def], rule_format]) auto
        ultimately show False using dir in_listed [OF assms(2), of n l] by (auto simp: is_dir_look is_backup_def)
      qed
      then show ?thesis using False by (simp add: keep_only_def)
    qed
  qed (use live [OF v(2)] in \<open>simp add: keep_only_def\<close>)
  show ?thesis
    unfolding K_def
    by (rule fwp_mono [OF fwp_with_invariant [OF wf_Prune assms(2) fwp_Prune [OF assms(1) order]]])
      (use some all in \<open>auto simp: K_def\<close>)
qed

section \<open>The property\<close>

text \<open>C6: backups are a vault of named states. Read a file system as the live state and the states saved under the
  listed names, each with its record: then \<open>Create\<close> is saving the live state under a new name, \<open>Restore\<close> puts a
  saved state back and changes no saved one, and \<open>Prune\<close> keeps of the saved states the newest of each known
  deployment. A \<open>Create\<close> that fails or loses power changes nothing of the vault, a \<open>Restore\<close> that does none of the
  saved states, and a \<open>Prune\<close> that does neither the live state nor one that is to stay.\<close>

theorem vault_refinement:
  assumes "cp_tool cp" and "layout_ok l" and "wf_fs fs" and "names_ok fs"
    and "\<And>gs. distinct gs \<Longrightarrow> set (order gs) = set gs \<and> distinct (order gs)"
    and "is_backup (n, True)" and "boot_utf8 meta" and "m \<in> set (listed l fs)"
  shows "(sub fs (staging_dir l) = empty_dir \<longrightarrow>
      fwp (Create cp (staging_dir l) (BackupsDir l @ [n]) meta l)
        (\<lambda>_ v. vault_of l v = (if look fs (BackupsDir l @ [n]) = None then take_snapshot n meta else id) (vault_of l fs))
        (\<lambda>_ v. vault_of l v = vault_of l fs) (\<lambda>v. vault_of l v = vault_of l fs) fs) \<and>
    fwp (Restore cp l m) (\<lambda>_ v. vault_of l v = put_back m (vault_of l fs))
      (\<lambda>_ v. saved (vault_of l v) = saved (vault_of l fs)) (\<lambda>v. saved (vault_of l v) = saved (vault_of l fs)) fs \<and>
    fwp (Prune order l known) (\<lambda>_ v. vault_of l v = keep_only {k. survives l fs known k} (vault_of l fs))
      (\<lambda>_ v. keep_only {k. survives l fs known k} (vault_of l v) = keep_only {k. survives l fs known k} (vault_of l fs))
      (\<lambda>v. keep_only {k. survives l fs known k} (vault_of l v) = keep_only {k. survives l fs known k} (vault_of l fs)) fs"
proof (intro conjI impI)
  have "simple_name m" using listed_ok [OF assms(4), of "[m]" l] assms(8) by simp
  from restore_refines [OF assms(1-3) this assms(8)]
  show "fwp (Restore cp l m) (\<lambda>_ v. vault_of l v = put_back m (vault_of l fs))
      (\<lambda>_ v. saved (vault_of l v) = saved (vault_of l fs)) (\<lambda>v. saved (vault_of l v) = saved (vault_of l fs)) fs" .
qed (rule create_refines [OF assms(1-3) _ assms(6,7)] prune_refines [OF assms(4,3,2,5)], assumption+)+

definition vault_fs :: fsys where
  "vault_fs = put (staging_dir Default) (Dir 0x1C0) 8 shelf_fs"

lemma vault_fs_ready: "wf_fs vault_fs" "names_ok vault_fs" "sub vault_fs (staging_dir Default) = empty_dir"
  "look vault_fs (BackupsDir Default @ [''d.1_b2'']) = None"
proof -
  have none: "look shelf_fs (staging_dir Default) = None" by code_simp
  then have "look shelf_fs (staging_dir Default @ q) = None" for q
    using wf_fs_absent_below [OF shelf_ok(2)] by simp
  then show "sub vault_fs (staging_dir Default) = empty_dir"
    by (auto simp: sub_def vault_fs_def empty_dir_def)
qed code_simp+

theorem vault_refinement_witness:
  "fwp (Create (cp_ref :: unit cp) (staging_dir Default) (BackupsDir Default @ [''d.1_b2'']) sample_meta Default)
      (\<lambda>_ v. vault_of Default v = take_snapshot ''d.1_b2'' sample_meta (vault_of Default vault_fs))
      (\<lambda>_ v. vault_of Default v = vault_of Default vault_fs) (\<lambda>v. vault_of Default v = vault_of Default vault_fs) vault_fs \<and>
   fwp (Restore (cp_ref :: unit cp) Default ''d.1_b4'')
      (\<lambda>_ v. vault_of Default v = put_back ''d.1_b4'' (vault_of Default vault_fs))
      (\<lambda>_ v. saved (vault_of Default v) = saved (vault_of Default vault_fs))
      (\<lambda>v. saved (vault_of Default v) = saved (vault_of Default vault_fs)) vault_fs"
proof -
  have ready: "is_backup (''d.1_b2'', True)" "boot_utf8 sample_meta" "''d.1_b4'' \<in> set (listed Default vault_fs)"
    by code_simp+
  have "set (id gs) = set gs \<and> distinct (id gs)" if "distinct gs" for gs :: "(string \<times> string list) list"
    using that by simp
  note all = vault_refinement [OF cpref.cp_tool_axioms [where ?'a = unit] layout_ok_Default vault_fs_ready(1,2) this ready,
      of "[]", unfolded vault_fs_ready(4)]
  show ?thesis
    using conjunct1 [OF all] conjunct1 [OF conjunct2 [OF all]] vault_fs_ready(3) by simp
qed

end
