(* ===== verification/Config.thy ===== *)
theory Config
  imports Kubeadm Healthcheck
begin

text \<open>
  \<open>internal/config\<close> (\<open>load.go\<close>) and \<open>internal/apis/bootstrap/v1alpha1\<close>: the configuration file is a stream
  of YAML documents, the wrapper \<open>PicoKubeConfig\<close> and the documents of kubeadm. The file is split, the wrapper
  taken out and checked, the Kubernetes version of the image supplied where none is given, and the rest handed
  to kubeadm's loader. YAML and kubeadm's loader are the record \<open>loader_ext\<close>. A Go map of documents is an
  association list with distinct keys, and \<open>Range i\<close> the order in which the \<open>i\<close>-th loop goes through one.
\<close>

section \<open>Documents\<close>

record GVK =
  gvk_Group :: string
  gvk_Version :: string
  gvk_Kind :: string

type_synonym docs = "(GVK \<times> string) list"

record PicoKubeConfig =
  APIVersion :: string
  Kind :: string
  MetadataName :: string

record ('e, 'g) loader_ext =
  SplitConfigDocuments :: "string \<Rightarrow> gerr + docs"
  HasClusterConfiguration :: "GVK \<Rightarrow> bool"
  UnmarshalVersion :: "string \<Rightarrow> gerr + string"
  UnmarshalStrict :: "string \<Rightarrow> gerr + PicoKubeConfig"
  BytesToInitConfiguration :: "string \<Rightarrow> bool \<Rightarrow> ('e, 'g InitConfiguration) io"
  MarshalWrapper :: "PicoKubeConfig \<Rightarrow> gerr + string"
  MarshalInitConfigurationToBytes :: "'g InitConfiguration \<Rightarrow> gerr + string"
  kubeadm_Group :: string
  kubeadm_Version :: string
  DefaultCertificatesDir :: string
  Range :: "nat \<Rightarrow> docs \<Rightarrow> docs"

definition v1alpha1_GroupName :: string where
  "v1alpha1_GroupName = ''bootstrap.picokube.io''"

definition v1alpha1_Version :: string where
  "v1alpha1_Version = ''v1alpha1''"

definition v1alpha1_APIVersion :: string where
  "v1alpha1_APIVersion = v1alpha1_GroupName @ ''/'' @ v1alpha1_Version"

definition v1alpha1_Kind :: string where
  "v1alpha1_Kind = ''PicoKubeConfig''"

definition SetDefaults :: "PicoKubeConfig \<Rightarrow> PicoKubeConfig" where
  "SetDefaults c =
     (let c1 = (if APIVersion c = [] then c\<lparr>APIVersion := v1alpha1_APIVersion\<rparr> else c) in
      if Kind c1 = [] then c1\<lparr>Kind := v1alpha1_Kind\<rparr> else c1)"

definition NewDefault :: PicoKubeConfig where
  "NewDefault = SetDefaults \<lparr>APIVersion = [], Kind = [], MetadataName = ''local''\<rparr>"

section \<open>Validation\<close>

text \<open>\<open>errors.Join\<close> of no errors is nil.\<close>

definition errors_Join :: "gerr list \<Rightarrow> gerr option" where
  "errors_Join es = (if es = [] then None else Some (Joined es))"

definition Validate :: "PicoKubeConfig \<Rightarrow> 'g InitConfiguration option \<Rightarrow> Layout \<Rightarrow> gerr option" where
  "Validate wrapper kubeadmCfg l =
     (let errs = (if APIVersion wrapper \<noteq> v1alpha1_APIVersion
                  then [Msg (''apiVersion must be '' @ quoted v1alpha1_APIVersion @ '', got '' @ quoted (APIVersion wrapper))] else []) @
                 (if Kind wrapper \<noteq> v1alpha1_Kind
                  then [Msg (''kind must be '' @ quoted v1alpha1_Kind @ '', got '' @ quoted (Kind wrapper))] else []) in
      case kubeadmCfg of
        None \<Rightarrow> errors_Join (errs @ [Msg ''kubeadm InitConfiguration document is required''])
      | Some cfg \<Rightarrow> errors_Join (errs @
          (if KubernetesVersion cfg \<noteq> [] \<and> KubernetesVersion cfg \<noteq> version_KubernetesVersion
           then [Msg (''ClusterConfiguration.kubernetesVersion '' @ quoted (KubernetesVersion cfg) @
                  '' does not match the version pinned in this image ('' @ version_KubernetesVersion @ ''); leave it unset to inherit'')] else []) @
          (if CertificatesDir cfg \<noteq> [] \<and> CertificatesDir cfg \<noteq> path_text (PKIDir l)
           then [Msg (''ClusterConfiguration.certificatesDir '' @ quoted (CertificatesDir cfg) @
                  '' does not match this image's PKI directory ('' @ path_text (PKIDir l) @ ''); leave it unset'')] else [])))"

section \<open>Loading\<close>

definition version_line :: string where
  "version_line = ''kubernetesVersion: '' @ version_KubernetesVersion @ [CHR 0x0A]"

definition pinKubernetesVersion :: "('e, 'g) loader_ext \<Rightarrow> docs \<Rightarrow> docs" where
  "pinKubernetesVersion y m =
     (case find (\<lambda>(gvk, doc). HasClusterConfiguration y gvk) (Range y 1 m) of
        Some (gvk, doc) \<Rightarrow> (case UnmarshalVersion y doc of
            Inl _ \<Rightarrow> m
          | Inr v \<Rightarrow>
              if v \<noteq> [] then m
              else AList.update gvk ((if doc \<noteq> [] \<and> last doc \<noteq> CHR 0x0A then doc @ [CHR 0x0A] else doc) @ version_line) m)
      | None \<Rightarrow> AList.update
          \<lparr>gvk_Group = kubeadm_Group y, gvk_Version = kubeadm_Version y, gvk_Kind = ''ClusterConfiguration''\<rparr>
          (''apiVersion: '' @ kubeadm_Group y @ ''/'' @ kubeadm_Version y @ [CHR 0x0A] @ ''kind: ClusterConfiguration'' @ [CHR 0x0A] @
           version_line) m)"

definition wrapper_gvk :: GVK where
  "wrapper_gvk = \<lparr>gvk_Group = v1alpha1_GroupName, gvk_Version = v1alpha1_Version, gvk_Kind = v1alpha1_Kind\<rparr>"

text \<open>The wrapper and the map without it.\<close>

definition extractWrapper :: "('e, 'g) loader_ext \<Rightarrow> docs \<Rightarrow> string \<Rightarrow> gerr + PicoKubeConfig \<times> docs" where
  "extractWrapper y m source =
     (case map_of m wrapper_gvk of
        None \<Rightarrow> Inl (Msg (''parse '' @ source @ '': required document '' @ v1alpha1_APIVersion @ '' (kind='' @ v1alpha1_Kind @ '') not found''))
      | Some raw \<Rightarrow> (case UnmarshalStrict y raw of
            Inl e \<Rightarrow> Inl (Wrapf (''parse '' @ source @ '' PicoKubeConfig'') e)
          | Inr pk \<Rightarrow> Inr (pk, AList.delete wrapper_gvk m)))"

fun concat_loop :: "string list \<Rightarrow> bool \<Rightarrow> string" where
  "concat_loop [] first = []"
| "concat_loop (b # bs) first =
     (if \<not> first then ''---'' @ [CHR 0x0A] else []) @ b @
     (if b = [] \<or> last b \<noteq> CHR 0x0A then [CHR 0x0A] else []) @ concat_loop bs False"

definition concatDocs :: "('e, 'g) loader_ext \<Rightarrow> docs \<Rightarrow> string" where
  "concatDocs y m = concat_loop (map snd (Range y 2 m)) True"

definition lift_err :: "gerr + 'a \<Rightarrow> ('e, 'a) io" where
  "lift_err r = (case r of Inl e \<Rightarrow> throw e | Inr x \<Rightarrow> ret x)"

definition config_parse :: "('e, 'g) loader_ext \<Rightarrow> string \<Rightarrow> string \<Rightarrow> Layout \<Rightarrow> ('e, 'g InitConfiguration) io" where
  "config_parse y data source l =
     bind (wrapf (''split '' @ source) (lift_err (SplitConfigDocuments y data))) (\<lambda>gvkmap.
     if list_ex (\<lambda>(gvk, doc). gvk_Group gvk = kubeadm_Group y \<and> gvk_Kind gvk = ''JoinConfiguration'') (Range y 0 gvkmap)
     then throw (Msg (''parse '' @ source @ '': JoinConfiguration is not supported yet; multi-node bootstrap is on the roadmap''))
     else bind (lift_err (extractWrapper y gvkmap source)) (\<lambda>(pk, gvkmap).
       let wrapper = SetDefaults pk; gvkmap = pinKubernetesVersion y gvkmap; kubeadmBytes = concatDocs y gvkmap in
       bind (wrapf (''parse kubeadm portion of '' @ source) (BytesToInitConfiguration y kubeadmBytes False)) (\<lambda>cfg.
         let cfg = (if CertificatesDir cfg = DefaultCertificatesDir y then cfg\<lparr>CertificatesDir := []\<rparr> else cfg) in
         case Validate wrapper (Some cfg) l of
           Some e \<Rightarrow> throw (Wrapf (''validate '' @ source) e)
         | None \<Rightarrow> ret (cfg\<lparr>CertificatesDir := path_text (PKIDir l)\<rparr>))))"

definition config_Load :: "('e, 'g) loader_ext \<Rightarrow> path \<Rightarrow> Layout \<Rightarrow> ('e, 'g InitConfiguration) io" where
  "config_Load y p l =
     bind (wrapf (''read '' @ path_text p) (os_ReadFile p)) (\<lambda>data. config_parse y data (path_text p) l)"

definition LoadDefault :: "('e, 'g) loader_ext \<Rightarrow> Layout \<Rightarrow> ('e, 'g InitConfiguration) io" where
  "LoadDefault y l = config_Load y (ConfigFile l) l"

definition config_Marshal :: "('e, 'g) loader_ext \<Rightarrow> PicoKubeConfig \<Rightarrow> 'g InitConfiguration option \<Rightarrow> gerr + string" where
  "config_Marshal y wrapper kubeadmCfg =
     (case MarshalWrapper y wrapper of
        Inl e \<Rightarrow> Inl (Wrapf ''marshal wrapper'' e)
      | Inr wrapperBytes \<Rightarrow> (case kubeadmCfg of
          None \<Rightarrow> Inr wrapperBytes
        | Some cfg \<Rightarrow> (case MarshalInitConfigurationToBytes y cfg of
            Inl e \<Rightarrow> Inl (Wrapf ''marshal kubeadm portion'' e)
          | Inr kubeadmBytes \<Rightarrow> Inr (wrapperBytes @
              (if wrapperBytes = [] \<or> last wrapperBytes \<noteq> CHR 0x0A then [CHR 0x0A] else []) @ ''---'' @ [CHR 0x0A] @ kubeadmBytes))))"

section \<open>The stream of documents\<close>

text \<open>A document with its last line ended, its lines, and lines as a text.\<close>

definition terminated :: "string \<Rightarrow> string" where
  "terminated b = (if b = [] \<or> last b \<noteq> CHR 0x0A then b @ [CHR 0x0A] else b)"

definition doc_lines :: "string \<Rightarrow> string list" where
  "doc_lines b = butlast (split_on (CHR 0x0A) (terminated b))"

definition unlines :: "string list \<Rightarrow> string" where
  "unlines ls = concat (map (\<lambda>l. l @ [CHR 0x0A]) ls)"

fun split_at :: "'a \<Rightarrow> 'a list \<Rightarrow> 'a list list" where
  "split_at x [] = [[]]"
| "split_at x (y # ys) =
     (if y = x then [] # split_at x ys
      else (case split_at x ys of [] \<Rightarrow> [[y]] | zs # zss \<Rightarrow> (y # zs) # zss))"

text \<open>A reader of the stream: the lines between those that are three dashes.\<close>

definition split_docs :: "string \<Rightarrow> string list" where
  "split_docs s = map unlines (split_at ''---'' (butlast (split_on (CHR 0x0A) s)))"

fun stream_lines :: "string list \<Rightarrow> string list" where
  "stream_lines [] = []"
| "stream_lines [b] = doc_lines b"
| "stream_lines (b # c # bs) = doc_lines b @ ''---'' # stream_lines (c # bs)"

lemma unlines_split: "unlines (butlast (split_on (CHR 0x0A) s)) @ last (split_on (CHR 0x0A) s) = s"
  by (induction s) (auto simp: unlines_def split: list.splits)

lemma split_terminated: "\<exists>l ls. split_on (CHR 0x0A) (s @ [CHR 0x0A]) = l # ls @ [[]]"
proof (induction s)
  case (Cons a s)
  then obtain l ls where "split_on (CHR 0x0A) (s @ [CHR 0x0A]) = l # ls @ [[]]" by blast
  then show ?case
    by (intro exI [of _ "if a = CHR 0x0A then [] else a # l"] exI [of _ "if a = CHR 0x0A then l # ls else ls"]) simp
qed simp

lemma last_split_terminated: "last (split_on (CHR 0x0A) (s @ [CHR 0x0A])) = []"
  using split_terminated [of s] by auto

lemma terminated_ends: "\<exists>s. terminated b = s @ [CHR 0x0A]"
  by (cases b rule: rev_cases) (auto simp: terminated_def)

lemma unlines_doc_lines [simp]: "unlines (doc_lines b) = terminated b"
  using unlines_split [of "terminated b"] terminated_ends [of b] last_split_terminated
  by (metis append.right_neutral doc_lines_def)

lemma split_on_no_newline: "l \<in> set (split_on c s) \<Longrightarrow> c \<notin> set l"
  by (induction s arbitrary: l) (auto split: if_splits list.splits)

lemma doc_lines_no_newline: "l \<in> set (doc_lines b) \<Longrightarrow> CHR 0x0A \<notin> set l"
  unfolding doc_lines_def by (meson in_set_butlastD split_on_no_newline)

lemma split_on_unlines: "(\<And>l. l \<in> set ls \<Longrightarrow> CHR 0x0A \<notin> set l) \<Longrightarrow> split_on (CHR 0x0A) (unlines ls) = ls @ [[]]"
  by (induction ls) (simp_all add: unlines_def split_on_append)

lemma unlines_append: "unlines (xs @ ys) = unlines xs @ unlines ys"
  by (simp add: unlines_def)

lemma concat_loop_False: "bs \<noteq> [] \<Longrightarrow> concat_loop bs False = ''---'' @ [CHR 0x0A] @ unlines (stream_lines bs)"
proof (induction bs rule: stream_lines.induct)
  case (3 b c bs)
  then show ?case by (simp add: unlines_append terminated_def) (simp add: unlines_def)
qed (simp_all add: terminated_def)

lemma concat_loop_lines: "concat_loop bs True = unlines (stream_lines bs)"
proof (cases bs rule: stream_lines.cases)
  case 1
  then show ?thesis by (simp add: unlines_def)
next
  case (2 b)
  then show ?thesis by (simp add: terminated_def)
next
  case (3 b c bs')
  then show ?thesis
    using concat_loop_False [of "c # bs'"] by (simp add: unlines_append terminated_def) (simp add: unlines_def)
qed

lemma stream_lines_no_newline: "l \<in> set (stream_lines bs) \<Longrightarrow> CHR 0x0A \<notin> set l"
  by (induction bs rule: stream_lines.induct) (auto dest: doc_lines_no_newline)

lemma split_at_notin: "x \<notin> set xs \<Longrightarrow> split_at x xs = [xs]"
  by (induction xs) auto

lemma split_at_append: "x \<notin> set xs \<Longrightarrow> split_at x (xs @ x # ys) = xs # split_at x ys"
  by (induction xs) auto

lemma split_stream: "bs \<noteq> [] \<Longrightarrow> (\<And>b. b \<in> set bs \<Longrightarrow> ''---'' \<notin> set (doc_lines b)) \<Longrightarrow>
   split_at ''---'' (stream_lines bs) = map doc_lines bs"
  by (induction bs rule: stream_lines.induct) (simp_all add: split_at_notin split_at_append)

section \<open>A loader\<close>

text \<open>What is used of the library: loops go through all of a map, and kubeadm's loader reads only.\<close>

locale loader =
  fixes y :: "('e, 'g) loader_ext"
  assumes range: "\<And>i m. set (Range y i m) = set m"
    and reads: "\<And>P s b. keeps (on_fs P) (BytesToInitConfiguration y s b)"
    and cluster_kind: "\<And>g. HasClusterConfiguration y g \<longleftrightarrow> gvk_Kind g = ''ClusterConfiguration''"
begin

text \<open>The stream handed to kubeadm names a version, or has a document kubeadm itself will not read.\<close>

lemma pin_supplies:
  "\<exists>gvk doc. map_of (pinKubernetesVersion y m) gvk = Some doc \<and> HasClusterConfiguration y gvk \<and>
     (suffix version_line doc \<or> (\<exists>v. UnmarshalVersion y doc = Inr v \<and> v \<noteq> []) \<or> (\<exists>e. UnmarshalVersion y doc = Inl e))"
  if "distinct (map fst m)"
proof (cases "find (\<lambda>(gvk, doc). HasClusterConfiguration y gvk) (Range y 1 m)")
  case None
  then show ?thesis
    by (intro exI [of _ "\<lparr>gvk_Group = kubeadm_Group y, gvk_Version = kubeadm_Version y, gvk_Kind = ''ClusterConfiguration''\<rparr>"])
      (simp add: pinKubernetesVersion_def update_conv' cluster_kind suffix_def)
next
  case (Some x)
  obtain gvk doc where x: "x = (gvk, doc)" by (cases x)
  then have in_m: "HasClusterConfiguration y gvk" "map_of m gvk = Some doc"
    using Some that range [of 1 m] by (auto simp: find_Some_iff intro!: map_of_is_SomeI) (metis nth_mem)
  show ?thesis
    using Some in_m
    by (intro exI [of _ gvk]) (auto simp: pinKubernetesVersion_def x update_conv' suffix_def split: sum.split)
qed

lemma Validate_None:
  "Validate w (Some cfg) l = None \<longleftrightarrow> APIVersion w = v1alpha1_APIVersion \<and> Kind w = v1alpha1_Kind \<and>
     KubernetesVersion cfg \<in> {[], version_KubernetesVersion} \<and> CertificatesDir cfg \<in> {[], path_text (PKIDir l)}"
  by (auto simp: Validate_def errors_Join_def Let_def)

text \<open>Loading reads one file and changes nothing; what it returns has passed every check.\<close>

lemma fwp_config_Load:
  "fwp (config_Load y p l)
    (\<lambda>cfg v. v = fs \<and> CertificatesDir cfg = path_text (PKIDir l) \<and> KubernetesVersion cfg \<in> {[], version_KubernetesVersion} \<and>
       (\<exists>mode data m. look fs p = Some (File mode data) \<and> SplitConfigDocuments y data = Inr m \<and> wrapper_gvk \<in> fst ` set m \<and>
          (\<forall>gvk\<in>fst ` set m. gvk_Group gvk = kubeadm_Group y \<longrightarrow> gvk_Kind gvk \<noteq> ''JoinConfiguration'')))
    (\<lambda>_ v. v = fs) (\<lambda>v. v = fs) fs"
proof -
  have bytes: "fwp (BytesToInitConfiguration y s b) (\<lambda>_ v. v = fs) (\<lambda>_ v. v = fs) (\<lambda>v. v = fs) fs" for s b
    by (rule fwp_keeps [OF reads]) simp
  show ?thesis
    unfolding config_Load_def config_parse_def
  proof (rule fwp_bind, rule fwp_wrapf, rule fwp_ReadFile, goal_cases)
    case (5 mode data)
    show ?case
    proof (cases "SplitConfigDocuments y data")
      case (Inl e)
      then show ?thesis by (simp add: lift_err_def fwp_bind fwp_wrapf fwp_throw)
    next
      case (Inr m)
      let ?join = "list_ex (\<lambda>(gvk, doc). gvk_Group gvk = kubeadm_Group y \<and> gvk_Kind gvk = ''JoinConfiguration'') (Range y 0 m)"
      have start: "fwp (wrapf s (lift_err (Inr m))) Q E C fs" if "Q m fs" for s and Q :: "docs \<Rightarrow> fsys \<Rightarrow> bool" and E C
        using that by (simp add: lift_err_def fwp_wrapf fwp_ret)
      show ?thesis
      proof (cases "?join \<or> (\<exists>e. extractWrapper y m (path_text p) = Inl e)")
        case True
        then show ?thesis
          by (simp only: Inr, intro fwp_bind start, cases ?join) (auto simp: lift_err_def fwp_throw fwp_bind)
      next
        case False
        then obtain pk m' where ex: "extractWrapper y m (path_text p) = Inr (pk, m')"
          by (cases "extractWrapper y m (path_text p)") auto
        have w: "wrapper_gvk \<in> fst ` set m"
          using ex by (auto simp: extractWrapper_def image_iff split: option.splits dest!: map_of_SomeD) force
        have j: "\<forall>gvk\<in>fst ` set m. gvk_Group gvk = kubeadm_Group y \<longrightarrow> gvk_Kind gvk \<noteq> ''JoinConfiguration''"
          using False range [of 0 m] by (auto simp: list_ex_iff)
        show ?thesis
          using False 5 Inr w j
          by (simp only: Inr, intro fwp_bind start)
            (auto simp: ex lift_err_def Let_def Validate_None intro!: fwp_bind fwp_ret fwp_wrapf fwp_throw fwp_mono [OF bytes] split: option.split)
      qed
    qed
  qed simp_all
qed

end

section \<open>A reference loader\<close>

text \<open>Documents of lines \<open>key: value\<close>, just enough of YAML to load a file.\<close>

definition field :: "string \<Rightarrow> string \<Rightarrow> string" where
  "field key d = (case find (\<lambda>l. HasPrefix l key) (doc_lines d) of None \<Rightarrow> [] | Some l \<Rightarrow> drop (length key) l)"

definition gvk_of :: "string \<Rightarrow> GVK" where
  "gvk_of d = (if field ''kind: '' d = v1alpha1_Kind then wrapper_gvk
     else \<lparr>gvk_Group = ''kubeadm.k8s.io'', gvk_Version = ''v1beta4'', gvk_Kind = field ''kind: '' d\<rparr>)"

definition loader_ref :: "('e, unit) loader_ext" where
  "loader_ref = \<lparr>
     SplitConfigDocuments = (\<lambda>s. Inr (map (\<lambda>d. (gvk_of d, d)) (split_docs s))),
     HasClusterConfiguration = (\<lambda>g. gvk_Kind g = ''ClusterConfiguration''),
     UnmarshalVersion = (\<lambda>d. Inr (field ''kubernetesVersion: '' d)),
     UnmarshalStrict = (\<lambda>d. Inr \<lparr>APIVersion = field ''apiVersion: '' d, Kind = field ''kind: '' d, MetadataName = []\<rparr>),
     BytesToInitConfiguration = (\<lambda>s b. ret \<lparr>CertificatesDir = ''/etc/kubernetes/pki'', NodeName = ''n1'', CRISocket = [],
        KubernetesVersion = concat (map (field ''kubernetesVersion: '') (split_docs s)), cfg_rest = ()\<rparr>),
     MarshalWrapper = (\<lambda>c. Inr (''kind: '' @ Kind c)),
     MarshalInitConfigurationToBytes = (\<lambda>cfg. Inr ''kind: InitConfiguration''),
     kubeadm_Group = ''kubeadm.k8s.io'', kubeadm_Version = ''v1beta4'', DefaultCertificatesDir = ''/etc/kubernetes/pki'',
     Range = (\<lambda>i m. m)\<rparr>"

interpretation loaderref: loader loader_ref
  by unfold_locales (simp_all add: loader_ref_def keeps_ret)

section \<open>Properties\<close>

text \<open>C23: \<open>Load\<close> changes nothing, and what it returns is fit for this image: the file is there, splits into documents
  with the wrapper among them and no JoinConfiguration, the Kubernetes version is the one of the image or left open,
  and the certificates directory is that of the layout, whatever the user wrote or kubeadm filled in.\<close>

theorem config_load_checked:
  assumes "loader y"
  shows "fwp (config_Load y p l)
    (\<lambda>cfg v. v = fs \<and> CertificatesDir cfg = path_text (PKIDir l) \<and> KubernetesVersion cfg \<in> {[], version_KubernetesVersion} \<and>
       (\<exists>mode data m. look fs p = Some (File mode data) \<and> SplitConfigDocuments y data = Inr m \<and> wrapper_gvk \<in> fst ` set m \<and>
          \<not> (\<exists>gvk\<in>fst ` set m. gvk_Group gvk = kubeadm_Group y \<and> gvk_Kind gvk = ''JoinConfiguration'')))
    (\<lambda>_ v. v = fs) (\<lambda>v. v = fs) fs"
  by (rule fwp_mono [OF loader.fwp_config_Load [OF assms]]) auto

definition config_text :: string where
  "config_text = unlines [''apiVersion: bootstrap.picokube.io/v1alpha1'', ''kind: PicoKubeConfig'', ''---'', ''kind: InitConfiguration'']"

definition config_fs :: fsys where
  "config_fs = [([], Dir 0x1ED, 0), ([''etc''], Dir 0x1ED, 0), ([''etc'', ''picokube''], Dir 0x1ED, 0),
     ([''etc'', ''picokube'', ''config.yaml''], File 0x1A4 config_text, 0)]"

theorem config_load_checked_witness:
  "\<exists>cfg v. LoadDefault loader_ref Default (world_at calm_orc config_fs) = (Ok cfg, v) \<and>
     CertificatesDir cfg = ''/etc/kubernetes/pki'' \<and> KubernetesVersion cfg \<in> {[], version_KubernetesVersion}"
proof -
  let ?r = "LoadDefault loader_ref Default (world_at calm_orc config_fs)"
  have "case fst ?r of Ok cfg \<Rightarrow> True | _ \<Rightarrow> False" by code_simp
  then obtain cfg v where r: "?r = (Ok cfg, v)" by (cases ?r) (auto split: outcome.splits)
  have pki: "path_text (PKIDir Default) = ''/etc/kubernetes/pki''" by code_simp
  have "CertificatesDir cfg = path_text (PKIDir Default) \<and> KubernetesVersion cfg \<in> {[], version_KubernetesVersion}"
    using fwp_Ok [OF config_load_checked [OF loaderref.loader_axioms] refl r [unfolded LoadDefault_def]] by blast
  with r pki show ?thesis by metis
qed

text \<open>After \<open>pinKubernetesVersion\<close> kubeadm never has to look a version up. The stream has a ClusterConfiguration
  document that names one, as its own or in the line of this image at its end, or that kubeadm will reject; and no other
  document is touched.\<close>

theorem pin_supplies_version:
  assumes "loader y" and "distinct (map fst m)"
  shows "(\<exists>gvk doc. map_of (pinKubernetesVersion y m) gvk = Some doc \<and> gvk_Kind gvk = ''ClusterConfiguration'' \<and>
       (suffix version_line doc \<or> (\<exists>v. UnmarshalVersion y doc = Inr v \<and> v \<noteq> []) \<or> (\<exists>e. UnmarshalVersion y doc = Inl e))) \<and>
     (\<forall>gvk. gvk_Kind gvk \<noteq> ''ClusterConfiguration'' \<longrightarrow> map_of (pinKubernetesVersion y m) gvk = map_of m gvk)"
proof
  show "\<exists>gvk doc. map_of (pinKubernetesVersion y m) gvk = Some doc \<and> gvk_Kind gvk = ''ClusterConfiguration'' \<and>
       (suffix version_line doc \<or> (\<exists>v. UnmarshalVersion y doc = Inr v \<and> v \<noteq> []) \<or> (\<exists>e. UnmarshalVersion y doc = Inl e))"
    using loader.pin_supplies [OF assms] by (simp add: loader.cluster_kind [OF assms(1)])
  show "\<forall>gvk. gvk_Kind gvk \<noteq> ''ClusterConfiguration'' \<longrightarrow> map_of (pinKubernetesVersion y m) gvk = map_of m gvk"
  proof (cases "find (\<lambda>(gvk, doc). HasClusterConfiguration y gvk) (Range y 1 m)")
    case None
    then show ?thesis by (auto simp: pinKubernetesVersion_def update_conv')
  next
    case (Some x)
    then have "gvk_Kind (fst x) = ''ClusterConfiguration''"
      by (auto simp: find_Some_iff split_def loader.cluster_kind [OF assms(1)])
    with Some show ?thesis
      by (cases x) (auto simp: pinKubernetesVersion_def update_conv' split: sum.split)
  qed
qed

theorem pin_supplies_version_witness:
  "\<exists>gvk doc. map_of (pinKubernetesVersion (loader_ref :: (unit, unit) loader_ext) [(gvk_of ''kind: ClusterConfiguration'', ''kind: ClusterConfiguration'')]) gvk = Some doc \<and>
     suffix version_line doc"
proof -
  let ?m = "[(gvk_of ''kind: ClusterConfiguration'', ''kind: ClusterConfiguration'')]"
  have new: "pinKubernetesVersion (loader_ref :: (unit, unit) loader_ext) ?m =
      [(gvk_of ''kind: ClusterConfiguration'', ''kind: ClusterConfiguration'' @ CHR 0x0A # version_line)]" by code_simp
  have "distinct (map fst ?m)" by simp
  from pin_supplies_version [OF loaderref.loader_axioms this, THEN conjunct1] obtain gvk doc where
    d: "map_of (pinKubernetesVersion (loader_ref :: (unit, unit) loader_ext) ?m) gvk = Some doc" by (elim exE conjE)
  then have "doc = ''kind: ClusterConfiguration'' @ CHR 0x0A # version_line" unfolding new by (simp split: if_splits)
  moreover have "suffix t (s @ c # t)" for s t and c :: char by (simp add: suffix_def)
  ultimately show ?thesis using d by blast
qed

text \<open>C33: \<open>concatDocs\<close> joins the documents so that a reader of the stream gets exactly them back, each with its last
  line ended, in the order in which the map was gone through.\<close>

theorem concat_docs_split:
  assumes "Range y 2 m \<noteq> []" and "\<forall>b\<in>snd ` set (Range y 2 m). ''---'' \<notin> set (doc_lines b)"
  shows "split_docs (concatDocs y m) = map (\<lambda>(gvk, b). terminated b) (Range y 2 m)"
proof -
  let ?bs = "map snd (Range y 2 m)"
  have "split_on (CHR 0x0A) (concatDocs y m) = stream_lines ?bs @ [[]]"
    unfolding concatDocs_def concat_loop_lines by (rule split_on_unlines) (rule stream_lines_no_newline)
  then show ?thesis
    using split_stream [of ?bs] assms by (simp add: split_docs_def split_def)
qed

theorem concat_docs_split_witness:
  "split_docs (concatDocs (loader_ref :: (unit, unit) loader_ext) [(wrapper_gvk, ''kind: A''), (gvk_of ''kind: B'', ''kind: B'' @ [CHR 0x0A])]) =
     [''kind: A'' @ [CHR 0x0A], ''kind: B'' @ [CHR 0x0A]]"
proof -
  let ?m = "[(wrapper_gvk, ''kind: A''), (gvk_of ''kind: B'', ''kind: B'' @ [CHR 0x0A])]"
  have "Range (loader_ref :: (unit, unit) loader_ext) 2 ?m = ?m" by (simp add: loader_ref_def)
  moreover have "''---'' \<notin> set (doc_lines ''kind: A'')" "''---'' \<notin> set (doc_lines (''kind: B'' @ [CHR 0x0A]))" by code_simp+
  ultimately show ?thesis using concat_docs_split [of "loader_ref :: (unit, unit) loader_ext" ?m] by (simp add: terminated_def)
qed

end
