(* ===== verification/Cmd.thy ===== *)
theory Cmd
  imports Config Boot Initialize Teardown
begin

text \<open>
  \<open>cmd/picokube\<close>: the subcommands, each the body of its \<open>RunE\<close>, and \<open>main\<close>. Cobra parses the arguments into a
  \<open>command\<close>; the host name and what kubeadm supplies to \<open>config print-defaults\<close> are in the record \<open>cli_ext\<close>. What is
  written to standard output or error is a line of the log. The context of every command is the one the signal
  handler cancels.
\<close>

section \<open>Commands\<close>

record globalOpts =
  configPath :: path
  opt_layout :: Layout

record ('e, 'g, 'c) cli_ext =
  cli_host :: "('e, 'g, 'c) host"
  cli_loader :: "('e, 'g) loader_ext"
  os_Hostname :: "('e, string) io"
  AdvertiseAddress :: "'g InitConfiguration \<Rightarrow> string"
  DefaultedStaticInitConfiguration :: "gerr + 'g InitConfiguration"
  GitCommit :: string
  BuildDate :: string

definition newRootCmd :: "path option \<Rightarrow> globalOpts" where
  "newRootCmd config_flag =
     (let l = Default in \<lparr>configPath = (case config_flag of None \<Rightarrow> ConfigFile l | Some p \<Rightarrow> p), opt_layout = l\<rparr>)"

text \<open>\<open>strings.ToLower\<close> of an ASCII name.\<close>

definition ToLower :: "string \<Rightarrow> string" where
  "ToLower s = map (\<lambda>c. let n = of_char c :: nat in if 65 \<le> n \<and> n \<le> 90 then char_of (n + 32) else c) s"

definition defaultNodeName :: "('e, 'g, 'c) cli_ext \<Rightarrow> ('e, string) io" where
  "defaultNodeName p = bind (wrapf ''get hostname'' (os_Hostname p)) (\<lambda>h. ret (ToLower h))"

definition init_cmd :: "('e, 'g, 'c) cli_ext \<Rightarrow> globalOpts \<Rightarrow> ctx \<Rightarrow> ('e, unit) io" where
  "init_cmd p g c =
     bind (state_Exists (opt_layout g)) (\<lambda>existed.
       if existed
       then throw (Msg ''picokube state already exists; run `picokube reset --yes` first to re-initialise'')
       else bind (config_Load (cli_loader p) (configPath g) (opt_layout g)) (\<lambda>cfg.
         init_Run (cli_host p) c cfg (opt_layout g) version_KubernetesVersion))"

text \<open>\<open><-ctx.Done()\<close> of a context without a deadline: until the signal. Without one only a power loss ends it.\<close>

definition park :: "('e, unit) io" where
  "park w = (case o_sig (w_orc w) of
     None \<Rightarrow> (Crash, w)
   | Some n \<Rightarrow> (Ok (), w\<lparr>w_tick := max n (w_tick w)\<rparr>))"

definition boot_cmd :: "('e, 'g, 'c) cli_ext \<Rightarrow> globalOpts \<Rightarrow> ctx \<Rightarrow> ('e, unit) io" where
  "boot_cmd p g c =
     bind (config_Load (cli_loader p) (configPath g) (opt_layout g)) (\<lambda>cfg.
       seq (boot_Run (cli_host p) c cfg (opt_layout g) version_KubernetesVersion) park)"

definition reset_cmd :: "('e, 'g, 'c) cli_ext \<Rightarrow> globalOpts \<Rightarrow> ctx \<Rightarrow> bool \<Rightarrow> ('e, unit) io" where
  "reset_cmd p g c confirm =
     (if \<not> confirm then throw (Msg ''refusing to proceed without --yes (this is destructive)'')
      else teardown_Run (cli_host p) c (opt_layout g))"

definition healthcheck_cmd :: "('e, 'g, 'c) cli_ext \<Rightarrow> globalOpts \<Rightarrow> ctx \<Rightarrow> int \<Rightarrow> ('e, unit) io" where
  "healthcheck_cmd p g c timeout =
     bind (defaultNodeName p) (\<lambda>nodeName.
     bind (LoadAdmin (h_cluster (cli_host p)) (AdminKubeconfig (opt_layout g))) (\<lambda>client.
     bind time_Now (\<lambda>now.
       let c = WithTimeout c timeout now in
       seq (WaitForAPIServer (h_cluster (cli_host p)) c client)
      (seq (WaitForControlPlane (h_cluster (cli_host p)) c client nodeName)
           (logf ''healthy'')))))"

definition super_admin_cmd :: "('e, 'g, 'c) cli_ext \<Rightarrow> globalOpts \<Rightarrow> ('e, unit) io" where
  "super_admin_cmd p g =
     bind (config_Load (cli_loader p) (configPath g) (opt_layout g)) (\<lambda>cfg.
       seq (WriteSuperAdminKubeconfig (h_pki (cli_host p)) cfg (opt_layout g))
           (logf (''wrote '' @ path_text (SuperAdminKubeconfig (opt_layout g)))))"

definition print_defaults_cmd :: "('e, 'g, 'c) cli_ext \<Rightarrow> ('e, unit) io" where
  "print_defaults_cmd p =
     bind (wrapf ''default kubeadm config'' (lift_err (DefaultedStaticInitConfiguration p))) (\<lambda>kubeadmCfg.
     bind (lift_err (config_Marshal (cli_loader p) NewDefault (Some (kubeadmCfg\<lparr>KubernetesVersion := []\<rparr>)))) logf)"

definition validate_cmd :: "('e, 'g, 'c) cli_ext \<Rightarrow> globalOpts \<Rightarrow> ('e, unit) io" where
  "validate_cmd p g =
     bind (config_Load (cli_loader p) (configPath g) (opt_layout g)) (\<lambda>cfg.
       logf (''config '' @ path_text (configPath g) @ '' is valid (kubernetesVersion='' @ version_KubernetesVersion @
         '', advertiseAddress='' @ AdvertiseAddress p cfg @ '', nodeName='' @ NodeName cfg @ '')''))"

definition version_cmd :: "('e, 'g, 'c) cli_ext \<Rightarrow> ('e, unit) io" where
  "version_cmd p = logf (''picokube   kubernetes='' @ version_KubernetesVersion @ '' commit='' @ GitCommit p @ '' built='' @ BuildDate p)"

datatype command = InitCmd | BootCmd | ResetCmd bool | HealthcheckCmd int | SuperAdminCmd | PrintDefaultsCmd | ValidateCmd | VersionCmd

text \<open>\<open>main\<close>: the exit code, with the error on standard error.\<close>

fun run_cmd :: "('e, 'g, 'c) cli_ext \<Rightarrow> globalOpts \<Rightarrow> command \<Rightarrow> ('e, unit) io" where
  "run_cmd p g InitCmd = init_cmd p g Background"
| "run_cmd p g BootCmd = boot_cmd p g Background"
| "run_cmd p g (ResetCmd confirm) = reset_cmd p g Background confirm"
| "run_cmd p g (HealthcheckCmd timeout) = healthcheck_cmd p g Background timeout"
| "run_cmd p g SuperAdminCmd = super_admin_cmd p g"
| "run_cmd p g PrintDefaultsCmd = print_defaults_cmd p"
| "run_cmd p g ValidateCmd = validate_cmd p g"
| "run_cmd p g VersionCmd = version_cmd p"

definition picokube_main :: "('e, 'g, 'c) cli_ext \<Rightarrow> globalOpts \<Rightarrow> command \<Rightarrow> ('e, int) io" where
  "picokube_main p g cmd =
     bind (attempt (run_cmd p g cmd)) (\<lambda>r. case r of
       Inl e \<Rightarrow> seq (logf (''error: '' @ Error e)) (ret 1)
     | Inr _ \<Rightarrow> ret 0)"

section \<open>A node with a name of its own\<close>

lemma wp_wrapf_Ok: "wp m Q (\<lambda>_ _. True) C w \<Longrightarrow> wp (wrapf s m) Q (\<lambda>_ _. True) C w"
  by (simp add: wrapf_def wp_on_err wp_throw)

lemma wp_defaultNodeName:
  assumes "\<And>w x v. os_Hostname p w = (Ok x, v) \<Longrightarrow> P (ToLower x)"
  shows "wp (defaultNodeName p) (\<lambda>n _. P n) (\<lambda>_ _. True) (\<lambda>_. True) w"
  unfolding defaultNodeName_def wp_bind
  by (rule wp_wrapf_Ok) (auto simp: wp_def wp_ret ret_def split: outcome.split prod.split dest: assms)

text \<open>A cluster whose only node is \<open>n1\<close>, on a machine called Box.\<close>

definition one_node :: "(unit, unit) cluster" where
  "one_node = cluster_ref\<lparr>GetNode := \<lambda>client c n. if n = ''n1'' then answer_from 5 [(''Ready'', ''True'')] else throw (Msg ''not found'')\<rparr>"

definition box :: "(unit, unit, unit) cli_ext" where
  "box = \<lparr>cli_host = host_ref\<lparr>h_cluster := one_node\<rparr>, cli_loader = loader_ref, os_Hostname = ret ''Box'',
     AdvertiseAddress = (\<lambda>cfg. []), DefaultedStaticInitConfiguration = Inr sample_cfg, GitCommit = ''unknown'', BuildDate = ''unknown''\<rparr>"

lemma clock_ok_one_node: "clock_ok one_node"
  by (auto simp: clock_ok_def one_node_def cluster_ref_def forward_throw)

section \<open>Properties\<close>

text \<open>\<open>picokube init\<close> refuses a node with picokube state, a manifest of the API server or the state directory. It
  returns an error, and neither the error nor a power loss leaves any change.\<close>

theorem init_refuses:
  assumes "look fs (KubeAPIServerManifest (opt_layout g)) \<noteq> None \<or> look fs (PicoKubeVarDir (opt_layout g)) \<noteq> None"
  shows "fwp (init_cmd p g c) (\<lambda>_ _. False) (\<lambda>_ v. v = fs) (\<lambda>v. v = fs) fs"
  unfolding init_cmd_def state_Exists_def
  by (rule fwp_bind, rule fwp_any_exists) (use assms in \<open>auto intro: fwp_throw\<close>)

theorem init_refuses_witness:
  "fwp (init_cmd box (newRootCmd None) Background) (\<lambda>_ _. False) (\<lambda>_ v. v = shelf_fs) (\<lambda>v. v = shelf_fs) shelf_fs"
proof (rule init_refuses)
  show "look shelf_fs (KubeAPIServerManifest (opt_layout (newRootCmd None))) \<noteq> None \<or>
      look shelf_fs (PicoKubeVarDir (opt_layout (newRootCmd None))) \<noteq> None" by code_simp
qed

text \<open>C26: \<open>picokube healthcheck\<close> looks for a node called after the host, not for the one the configuration names. Where
  the two differ and the configured node is the only one, it never finds the cluster healthy, however long it waits,
  while the wait of boot can find that same cluster healthy.\<close>

theorem healthcheck_other_name:
  assumes "clock_ok (h_cluster (cli_host p))"
    and "\<And>w x v. os_Hostname p w = (Ok x, v) \<Longrightarrow> ToLower x \<noteq> NodeName cfg"
    and "\<And>client c n w cs v. GetNode (h_cluster (cli_host p)) client c n w = (Ok cs, v) \<Longrightarrow> n = NodeName cfg"
  shows "wp (healthcheck_cmd p g c timeout) (\<lambda>_ _. False) (\<lambda>_ _. True) (\<lambda>_. True) w"
proof -
  have never: "wp (WaitForControlPlane (h_cluster (cli_host p)) (WithTimeout c t now) client n) (\<lambda>_ _. False) (\<lambda>_ _. True) (\<lambda>_. True) v"
    if "n \<noteq> NodeName cfg" for c t now client n v
    by (rule wp_const_mono [OF wp_control_plane_up [OF assms(1)]]) (use assms(3) that in \<open>auto simp: control_plane_up_def\<close>)
  show ?thesis
    unfolding healthcheck_cmd_def Let_def wp_bind [of "defaultNodeName p"]
  proof (rule wp_mono [OF wp_defaultNodeName [of p "\<lambda>n. n \<noteq> NodeName cfg"]])
    show "wp (bind (LoadAdmin (h_cluster (cli_host p)) (AdminKubeconfig (opt_layout g))) (\<lambda>client. bind time_Now (\<lambda>now.
        seq (WaitForAPIServer (h_cluster (cli_host p)) (WithTimeout c timeout now) client)
       (seq (WaitForControlPlane (h_cluster (cli_host p)) (WithTimeout c timeout now) client n) (logf ''healthy'')))))
      (\<lambda>_ _. False) (\<lambda>_ _. True) (\<lambda>_. True) v" if "n \<noteq> NodeName cfg" for n v
      by (rule wp_after_bind, rule wp_after_bind, rule wp_after_seq, rule wp_seq_const, rule never [OF that])
  qed (use assms(2) in auto)
qed

theorem healthcheck_other_name_witness:
  "wp (healthcheck_cmd box (newRootCmd None) Background (seconds 300)) (\<lambda>_ _. False) (\<lambda>_ _. True) (\<lambda>_. True) late_world \<and>
   fst (waitControlPlane (cli_host box) Background () (NodeName sample_cfg) late_world) = Ok ()"
proof
  show "wp (healthcheck_cmd box (newRootCmd None) Background (seconds 300)) (\<lambda>_ _. False) (\<lambda>_ _. True) (\<lambda>_. True) late_world"
  proof (rule healthcheck_other_name [where cfg = sample_cfg])
    show "clock_ok (h_cluster (cli_host box))" by (simp add: box_def clock_ok_one_node)
    have "ToLower ''Box'' = ''box''" by code_simp
    then show "ToLower x \<noteq> NodeName sample_cfg" if "os_Hostname box w = (Ok x, v)" for w x v
      using that by (simp add: box_def ret_def sample_cfg_def)
    show "n = NodeName sample_cfg" if "GetNode (h_cluster (cli_host box)) client c n w = (Ok cs, v)" for client c n w cs v
      using that by (auto simp: box_def one_node_def sample_cfg_def throw_def split: if_splits)
  qed
  show "fst (waitControlPlane (cli_host box) Background () (NodeName sample_cfg) late_world) = Ok ()" by code_simp
qed

end
