(* ===== verification/Node_Type.thy ===== *)
theory Node_Type
  imports Vault Cmd
begin

text \<open>
  The type of the file system. In a tree the parent of every node is a directory (\<open>wf_fs\<close>); the theorems about files
  start from one. Every system call keeps it, so every command does, whatever it does and however it ends: this is not a
  property of the program, but what the theorems about commands after one another (\<open>Lifecycle\<close>) need in between. The
  contract is the locale \<open>tree_cli\<close>: the kernel's interface keeps the tree, so the processes and libraries that go
  through it do.
\<close>

section \<open>The contract\<close>

abbreviation tree_kept :: "('e, 'a) io \<Rightarrow> bool" where
  "tree_kept \<equiv> keeps (on_fs wf_fs)"

lemma init_checks_subset: "set (init_checks h l b) \<subseteq> set (boot_checks h l b)"
  by (auto simp: init_checks_def boot_checks_def)

locale tree_cli = cp: cp_tool "h_cp (cli_host p)" + pki: kubeadm_pki "h_pki (cli_host p)" complete minted conf
  for p :: "('e, 'g, 'c) cli_ext" and complete minted conf +
  assumes requests: "host_quiet (cli_host p) wf_fs"
    and statfs: "\<And>q. tree_kept (h_statfs (cli_host p) q)"
    and client: "\<And>q. tree_kept (BuildConfigFromFlags (h_cluster (cli_host p)) q)"
      "\<And>r. tree_kept (NewForConfig (h_cluster (cli_host p)) r)"
    and files: "\<And>q. tree_kept (LoadFromFile (h_pki (cli_host p)) q)" "\<And>k q. tree_kept (WriteToFile (h_pki (cli_host p)) k q)"
    and renewal: "\<And>cfg q. tree_kept (NewManager (h_pki (cli_host p)) cfg q)"
      "\<And>cfg q n. tree_kept (GetCertificateExpirationInfo (h_pki (cli_host p)) cfg q n)"
      "\<And>cfg q n. tree_kept (RenewUsingLocalCA (h_pki (cli_host p)) cfg q n)"
    and phases: "\<And>d pd n cfg dry. tree_kept (CreateLocalEtcdStaticPodManifestFile (h_phases (cli_host p)) d pd n cfg dry)"
      "\<And>d pd cfg dry. tree_kept (CreateInitStaticPodManifestFiles (h_phases (cli_host p)) d pd cfg dry)"
      "\<And>cfg reg d. tree_kept (WriteKubeletDynamicEnvFile (h_phases (cli_host p)) cfg reg d)"
      "\<And>s d. tree_kept (WriteInstanceConfigToDisk (h_phases (cli_host p)) s d)"
      "\<And>cfg d pd. tree_kept (WriteConfigToDisk (h_phases (cli_host p)) cfg d pd)"
      "\<And>d cfg. tree_kept (EnsureAdminClusterRoleBinding (h_phases (cli_host p)) d cfg)"
    and notify: "\<And>b s. tree_kept (SdNotify (cli_host p) b s)" and unmount: "\<And>t. tree_kept (Unmount (cli_host p) t)"
    and runtime: "\<And>s. tree_kept (CRI_Connect (cli_host p) s)" "\<And>s. tree_kept (CRI_Close (cli_host p) s)"
      "\<And>s. tree_kept (ListKubeContainers (cli_host p) s)" "\<And>s cs. tree_kept (RemoveContainers (cli_host p) s cs)"
    and hostname: "tree_kept (os_Hostname p)" and parser: "\<And>b s. tree_kept (BytesToInitConfiguration (cli_loader p) b s)"
begin

lemma tree_load: "tree_kept (config_Load (cli_loader p) q l)"
  unfolding config_Load_def config_parse_def lift_err_def Let_def
  by (intro keeps_rules parser) (auto intro!: keeps_rules parser split: sum.split option.split prod.split)

lemma tree_LoadAdmin: "tree_kept (LoadAdmin (h_cluster (cli_host p)) q)"
  unfolding LoadAdmin_def by (intro keeps_rules client)

lemma tree_Ensure: "tree_kept (Ensure (h_phases (cli_host p)) cfg l)"
  unfolding Ensure_def Let_def by (intro keeps_rules phases)

lemma tree_Finalize: "files_quiet (h_pki (cli_host p)) l wf_fs"
  by (simp add: files_quiet_def files)

lemma tree_rotate: "tree_kept (rotateCertsIfStale (h_pki (cli_host p)) cfg l)"
proof (rule keeps_rotateCertsIfStale)
  show "renewal_keeps (h_pki (cli_host p)) l wf_fs" by (simp add: renewal_keeps_def files renewal)
  show "tree_kept (RegenerateCA (h_pki (cli_host p)) (NewSigner cfg l) ca)" for ca
    unfolding pki.RegenerateCA_parts by (intro keeps_rules pki.wf_regen_pki pki.wf_writeKubeconfigAtomic)
qed

lemma tree_issue: "tree_kept (certs_Init (h_pki (cli_host p)) cfg l)" "tree_kept (WriteSuperAdminKubeconfig (h_pki (cli_host p)) cfg l)"
  unfolding certs_Init_def EnsureAll_def WriteSuperAdminKubeconfig_def Let_def
  by (intro keeps_rules pki.assets_wf pki.conf_wf)+

lemma tree_init_checks: "tree_kept (preflight_Run c (init_checks (cli_host p) l b))"
  by (rule wf_preflight [OF init_checks_subset statfs])

lemma tree_rpm: "tree_kept (h_rpm (cli_host p))"
  using requests by (simp add: host_quiet_def)

lemma tree_boot_work: "tree_kept (boot_work (cli_host p) c cfg l self b ws)"
proof -
  have latest: "tree_kept (LatestForDeployment l d)" and meta: "tree_kept (ReadMeta l n)"
    and requested: "tree_kept (RestoreRequested l)" for d n
    unfolding LatestForDeployment_def List_backups_def sortByModTimeDesc_def ReadMeta_def RestoreRequested_def
    by (auto intro!: keeps_rules split: list.split)
  have restore: "tree_kept (maybeRestore (h_cp (cli_host p)) l d)" for d
    unfolding maybeRestore_def ClearRestoreMarker_def by (intro keeps_rules latest meta requested cp.wf_Restore)
  have snap: "tree_kept (snapshot_previous (h_cp (cli_host p)) l b ws d bid prev had)" for d bid prev had
    unfolding snapshot_previous_def Let_def by (intro keeps_rules wf_Create cp.cp_tool_axioms)
  have reconcile: "tree_kept (reconcile (cli_host p) c cfg l u prev self)" for u prev
    by (intro keeps_reconcile_calls requests tree_Finalize tree_LoadAdmin tree_Ensure tree_rotate keeps_rules)
  have tail: "tree_kept (announce l had prev self)" "tree_kept (prune_backups (cli_host p) l b)" "tree_kept (record_boot l now had prev)"
    for had prev now
    unfolding announce_def prune_backups_def record_boot_def by (intro keeps_rules tree_rpm wf_Prune)+
  have id: "tree_kept backup_BootID" unfolding backup_BootID_def by (intro keeps_rules)
  show ?thesis
    unfolding boot_work_def by (intro keeps_rules tree_rpm id restore) (auto intro!: keeps_rules snap reconcile tail)
qed

lemma tree_boot: "tree_kept (boot_Run (cli_host p) c cfg l self)"
proof -
  have checks: "tree_kept (preflight_Run c (boot_checks (cli_host p) l b))" for b by (rule wf_preflight [OF order_refl statfs])
  have work: "tree_kept (seq (boot_work (cli_host p) c cfg l self b ws) (seq (notifyReady (cli_host p)) (logf m)))" for b ws m
    unfolding notifyReady_def by (intro keeps_rules tree_boot_work notify)
  have step: "fwp (seq (wrapf s m) k) Q (\<lambda>_. wf_fs) wf_fs fs"
    if "wf_fs fs" "tree_kept m" "\<And>v. wf_fs v \<Longrightarrow> fwp k Q (\<lambda>_. wf_fs) wf_fs v"
    for s fs Q and m :: "('e, unit) io" and k :: "('e, Workspace \<times> ('e, unit) io) io"
    by (rule fwp_seq, rule fwp_mono [OF fwp_keeps [OF keeps_wrapf [OF that(2)] that(1)]]) (use that(3) in auto)
  have alloc: "fwp (AllocateWorkspace l b :: ('e, Workspace \<times> ('e, unit) io) io) (\<lambda>(ws, cleanup) v. wf_fs v \<and> tree_kept cleanup) (\<lambda>_. wf_fs) wf_fs fs" if "wf_fs fs" for b fs
    unfolding AllocateWorkspace_def Let_def
    by (intro fwp_if step that keeps_rules fwp_ret) (simp_all add: that keeps_ret keeps_ignore wf_RemoveAll)
  have staged: "tree_kept (bind (wrapf s (AllocateWorkspace l b)) (\<lambda>(ws, cleanup). deferred cleanup
      (seq (boot_work (cli_host p) c cfg l self b ws) (seq (notifyReady (cli_host p)) (logf m)))))" for b s m
  proof (rule keeps_fwp, rule fwp_bind, rule fwp_wrapf, rule fwp_mono [OF alloc], goal_cases)
    case (2 fs x v)
    then show ?case by (cases x) (auto intro!: fwp_keeps keeps_deferred work)
  qed auto
  show ?thesis
    unfolding boot_Run_def by (rule keeps_bind, intro keeps_rules, rule keeps_seq, intro keeps_rules checks, rule staged)
qed

lemma tree_init: "tree_kept (init_Run (cli_host p) c cfg l self)"
proof -
  have provision: "tree_kept (init_provision (cli_host p) c cfg l b)" for b
    by (intro keeps_init_provision requests tree_LoadAdmin tree_init_checks tree_issue tree_Ensure phases)
  have first: "tree_kept (init_writeFirstBootState (cli_host p) l self b)" for b
    unfolding init_writeFirstBootState_def backup_BootID_def by (intro keeps_rules tree_rpm)
  have finish: "tree_kept (init_finish (cli_host p) c cfg l self b client)" for b client
    unfolding init_finish_def EnsureAddons_def Let_def
    by (intro keeps_rules keeps_init_waitControlPlane keeps_init_finalize keeps_Finalize tree_Finalize requests first)
      (use requests in \<open>simp_all add: host_quiet_def\<close>)
  show ?thesis
    unfolding init_Run_def removeSuperAdminKubeconfig_def by (intro keeps_rules provision finish)
qed

lemma tree_reset: "tree_kept (teardown_Run (cli_host p) c l)"
proof -
  have stop: "tree_kept (stopKubelet (cli_host p) c)"
    unfolding stopKubelet_def by (intro keeps_rules) (use requests in \<open>auto simp: host_quiet_def split: option.split intro: keeps_rules\<close>)
  have all: "tree_kept (unmount_all (cli_host p) ts errs n)" for ts errs n
    by (induction ts arbitrary: errs n) (auto intro!: keeps_rules unmount split: option.split)
  have mounts: "tree_kept (unmountKubeletMounts (cli_host p) l)"
    unfolding unmountKubeletMounts_def by (intro keeps_rules) (auto intro!: keeps_rules all split: option.split)
  have pods: "tree_kept (removeKubeContainers (cli_host p))"
    unfolding removeKubeContainers_def by (intro keeps_rules runtime)
  show ?thesis
    unfolding teardown_Run_def remove_tree_def by (intro keeps_rules stop mounts pods)
qed

lemma tree_healthcheck: "tree_kept (healthcheck_cmd p g c t)"
  unfolding healthcheck_cmd_def defaultNodeName_def Let_def
  by (intro keeps_rules hostname tree_LoadAdmin keeps_WaitForAPIServer keeps_WaitForControlPlane)
    (use requests in \<open>simp_all add: host_quiet_def\<close>)

lemma tree_run_cmd: "tree_kept (run_cmd p g cmd)"
proof -
  have exists: "tree_kept (state_Exists l)" for l
  proof -
    have "tree_kept (any_exists qs)" for qs by (induction qs) (auto simp: fileExists_def intro!: keeps_rules)
    then show ?thesis by (simp only: state_Exists_def)
  qed
  have park: "tree_kept park" by (auto simp: keeps_alt on_fs_def park_def split: option.split)
  show ?thesis
    by (cases cmd)
      (auto simp: init_cmd_def boot_cmd_def reset_cmd_def super_admin_cmd_def print_defaults_cmd_def validate_cmd_def
          version_cmd_def lift_err_def
        intro!: keeps_rules exists tree_load tree_init tree_boot park tree_reset tree_healthcheck tree_issue split: sum.split)
qed

lemma tree_main: "tree_kept (picokube_main p g cmd)"
  unfolding picokube_main_def by (intro keeps_rules tree_run_cmd)

end

section \<open>The contract can be met\<close>

interpretation boxtree: tree_cli box ref_complete ref_minted ref_conf
proof (intro tree_cli.intro tree_cli_axioms.intro)
  show "cp_tool (h_cp (cli_host box))" by (simp add: box_def host_ref_def cpref.cp_tool_axioms)
  show "kubeadm_pki (h_pki (cli_host box)) ref_complete ref_minted ref_conf" by (simp add: box_def conf_ref_pki)
  show "host_quiet (cli_host box) wf_fs"
    by (simp add: box_def host_quiet_def host_ref_def one_node_def cluster_ref_def phases_ref_def keeps_answer_from keeps_ret keeps_throw)
  show "tree_kept (LoadFromFile (h_pki (cli_host box)) q)" "tree_kept (WriteToFile (h_pki (cli_host box)) k q)" for k q
    by (auto simp: box_def conf_ref_simps intro!: keeps_rules split: option.split)
qed (auto simp: box_def host_ref_def one_node_def cluster_ref_def phases_ref_def conf_ref_def pki_ref_def loader_ref_def
      intro!: keeps_rules)

end
