(* ===== verification/Lifecycle.thy ===== *)
theory Lifecycle
  imports Node_Type
begin

text \<open>
  Commands after one another. An upgrade that fails is a series of boots none of which sees the cluster up, with
  greenboot setting the restore marker in between; what was saved before it must still be there, and come back. An
  \<open>init\<close> that fails must not pass for a boot, and must be repeatable - which it is not when its preflight fails.
\<close>

section \<open>Boots that fail\<close>

text \<open>Boots of one node on which the cluster does not come up. Each runs under any clock, signal and fate of its system
  calls. In between anything may happen that leaves the backups alone. The names on a disk, and those the records give
  to backups, are single components (\<open>names_ok\<close>, \<open>named\<close>).\<close>

inductive failed_boots :: "('e, 'g, 'c) cli_ext \<Rightarrow> Layout \<Rightarrow> fsys \<Rightarrow> fsys \<Rightarrow> bool" for p l fs where
  none: "failed_boots p l fs fs"
| boot: "failed_boots p l fs (w_fs w) \<Longrightarrow> names_ok (w_fs w) \<Longrightarrow> named l (w_fs w) \<Longrightarrow>
    \<not> cluster_up (h_cluster (cli_host p)) c (NodeName cfg) \<Longrightarrow>
    failed_boots p l fs (w_fs (snd (boot_Run (cli_host p) c cfg l self w)))"
| between: "failed_boots p l fs v \<Longrightarrow> same_on (shelf l) v v' \<Longrightarrow> wf_fs v' \<Longrightarrow> failed_boots p l fs v'"

lemma fwp_result: "fwp m (\<lambda>_. P) (\<lambda>_. P) P (w_fs w) \<Longrightarrow> P (w_fs (snd (m w)))"
  unfolding fwp_def wp_def by (drule spec [of _ w]) (auto split: prod.splits outcome.splits)

lemma saved_kept:
  assumes "wf_fs v" "wf_fs v'" "\<And>n. n \<in> set (listed l v) \<Longrightarrow> sub v' (BackupsDir l @ [n]) = sub v (BackupsDir l @ [n])"
    and "saved (vault_of l v) n = Some x"
  shows "saved (vault_of l v') n = Some x"
proof -
  have "n \<in> set (listed l v)" using assms(4) by (simp add: vault_of_def split: if_splits)
  then show ?thesis using saved_same [OF assms(1,2) assms(3)] assms(4) by simp
qed

lemma failed_boots_keep:
  assumes "tree_cli p complete minted conf" "boot_host (cli_host p) complete minted conf l" "clock_ok (h_cluster (cli_host p))"
    and "wf_fs fs" "failed_boots p l fs v"
  shows "wf_fs v \<and> (\<forall>n x. saved (vault_of l fs) n = Some x \<longrightarrow> saved (vault_of l v) n = Some x)"
  using assms(5)
proof induction
  case none
  then show ?case using assms(4) by simp
next
  case (boot w c cfg self)
  let ?r = "boot_Run (cli_host p) c cfg l self w"
  have wf: "wf_fs (w_fs w)" "wf_fs (w_fs (snd ?r))"
    using boot.IH tree_cli.tree_boot [OF assms(1), of c cfg l self] by (simp_all add: keeps_alt on_fs_def)
  have "intact l (w_fs w) (w_fs (snd ?r))"
    by (rule fwp_result, rule fwp_mono [OF boot_host.fwp_boot_Run [OF assms(2,3) wf(1) boot.hyps(2,3)]])
      (use boot.hyps(4) in auto)
  then have "sub (w_fs (snd ?r)) (BackupsDir l @ [n]) = sub (w_fs w) (BackupsDir l @ [n])" if "n \<in> set (listed l (w_fs w))" for n
    using that by (simp add: intact_def)
  from saved_kept [OF wf this] show ?case using boot.IH wf(2) by blast
next
  case (between v v')
  have l: "layout_ok l" using boot_host.lay(1) [OF assms(2)] .
  have "sub v' (BackupsDir l @ [n]) = sub v (BackupsDir l @ [n])" if "n \<in> set (listed l v)" for n
    by (rule same_on_sub [OF between.hyps(2) listed_on_shelf(1) [OF l that]])
  from saved_kept [OF conjunct1 [OF between.IH] between.hyps(3) this] show ?case using between by blast
qed

text \<open>Putting a state back after the failures.\<close>

lemma restore_after_failures:
  assumes cli: "tree_cli p complete minted conf" and host: "boot_host (cli_host p) complete minted conf l"
    and "clock_ok (h_cluster (cli_host p))" and "wf_fs fs" and "failed_boots p l fs v"
    and names: "names_ok v" and d: "d \<noteq> []" "matching l v d \<noteq> []" "set (matching l v d) \<subseteq> set (listed l fs)"
    and marked: "look v (RestoreMarker l) \<noteq> None"
  shows "fwp (maybeRestore (h_cp (cli_host p)) l d)
    (\<lambda>_ u. \<exists>s meta. saved (vault_of l fs) (newest_of l v (matching l v d)) = Some (s, Some meta) \<and> now (vault_of l u) = s \<and>
       look u (LastBootFile l) = Some (File 0x180 (Marshal meta)))
    (\<lambda>_ u. \<forall>n x. saved (vault_of l fs) n = Some x \<longrightarrow> saved (vault_of l u) n = Some x)
    (\<lambda>u. \<forall>n x. saved (vault_of l fs) n = Some x \<longrightarrow> saved (vault_of l u) n = Some x) v"
proof -
  define n where "n = newest_of l v (matching l v d)"
  have cp: "cp_tool (h_cp (cli_host p))" and l: "layout_ok l"
    using cli boot_host.lay(1) [OF host] by (simp_all add: tree_cli_def)
  from failed_boots_keep [OF cli host assms(3-5)] have wf: "wf_fs v"
    and kept: "saved (vault_of l fs) m = Some x \<Longrightarrow> saved (vault_of l v) m = Some x" for m x by blast+
  have n: "n \<in> set (listed l fs)" "n \<in> set (listed l v)"
    using newest_of_in(1) [OF d(2)] d(3) by (auto simp: n_def matching_def)
  have safe: "saved (vault_of l u) m = Some x" if "wf_fs u" "restore_cut l n v u" "saved (vault_of l fs) m = Some x" for u m x
  proof (rule saved_kept [OF wf that(1) _ kept [OF that(3)]])
    fix k
    assume "k \<in> set (listed l v)"
    from listed_on_shelf(1) [OF l this] have "below (BackupsDir l @ [k]) \<subseteq> backup_area l" by (auto simp: shelf_def backup_area_def)
    then show "sub u (BackupsDir l @ [k]) = sub v (BackupsDir l @ [k])"
      using that(2) by (intro same_on_sub [of "backup_area l"]) (simp_all add: restore_cut_def)
  qed
  have gives: "\<exists>s meta. saved (vault_of l fs) n = Some (s, Some meta) \<and> now (vault_of l u) = s \<and>
      look u (LastBootFile l) = Some (File 0x180 (Marshal meta))" if r: "restore_done l n v u" for u
  proof -
    obtain meta where u: "meta_of l v n = Some meta" "look u (LastBootFile l) = Some (File 0x180 (Marshal meta))" "restored l n v u"
      using r by (auto simp: restore_done_def)
    have "saved (vault_of l fs) n = Some (saved_of l fs n, meta_of l fs n)" using n(1) by (simp add: vault_of_def)
    moreover from kept [OF this] have "saved_of l v n = saved_of l fs n" "meta_of l v n = meta_of l fs n"
      using n(2) by (simp_all add: vault_of_def)
    ultimately show ?thesis using u(1,2) restored_live [OF u(3)] by (intro exI [of _ "saved_of l fs n"] exI [of _ meta]) simp
  qed
  show ?thesis
    unfolding n_def [symmetric]
    by (rule fwp_mono [OF fwp_with_invariant [OF boot_host.keeps_maybeRestore(2) [OF host] wf
          fwp_maybeRestore [OF cp l wf names d(1)]]])
      (use marked d(2) safe gives in \<open>auto simp: n_def\<close>)
qed

section \<open>A first boot that is not one\<close>

locale init_host = boot_host h complete minted conf l for h :: "('e, 'g, 'c) host" and complete minted conf l +
  assumes binding: "\<And>cfg. leaves l (EnsureAdminClusterRoleBinding (h_phases h) (KubernetesDir l) cfg)"
    and super: "prefix (KubernetesDir l) (SuperAdminKubeconfig l)"
begin

text \<open>Up to the record of the boot an init leaves the records alone.\<close>

lemma keeps_issue:
  assumes "Z \<subseteq> records l"
  shows "keeps (on_fs (same_on Z v0)) (certs_Init (h_pki h) cfg l)" "keeps (on_fs (same_on Z v0)) (WriteSuperAdminKubeconfig (h_pki h) cfg l)"
proof -
  note out = records_outside(1) [OF lay(1) assms]
  have ne: "PKIDir l \<noteq> []" "KubernetesDir l \<noteq> []" "prefix (KubernetesDir l) (PKIDir l)" "clean_path (PKIDir l)"
    using lay(2) pki_layoutD [of l] by (auto simp: pki_layout_def)
  have conf: "keeps (on_fs (same_on Z v0)) (CreateKubeConfigFile (h_pki h) n (KubernetesDir l) cfg')" for n cfg'
    by (rule pki.conf_frame) (use out [of "KubernetesDir l"] out [of "KubernetesDir l @ [n]"] in auto)
  show "keeps (on_fs (same_on Z v0)) (WriteSuperAdminKubeconfig (h_pki h) cfg l)"
    unfolding WriteSuperAdminKubeconfig_def Let_def by (intro keeps_rules conf)
  have assets: "keeps (on_fs (same_on Z v0)) (CreatePKIAssets (h_pki h) (fst (NewSigner cfg l)))"
    by (rule pki.assets_frame [OF ne(4)]) (use out [OF ne(3)] in \<open>simp_all add: NewSigner_def\<close>)
  have up: "Z \<inter> above (PKIDir l) = {}" "Z \<inter> above (KubernetesDir l) = {}"
    using out [OF ne(3)] out [of "KubernetesDir l"] by auto
  show "keeps (on_fs (same_on Z v0)) (certs_Init (h_pki h) cfg l)"
    unfolding certs_Init_def EnsureAll_def Let_def
    by (intro keeps_rules assets) (use ne up in \<open>auto simp: NewSigner_def intro: conf\<close>)
qed

lemma keeps_provision:
  assumes "Z \<subseteq> shelf l \<union> {LastBootFile l}"
  shows "keeps (on_fs (same_on Z v0)) (init_provision h c cfg l b)"
proof (rule keeps_init_provision)
  have Z: "Z \<subseteq> records l" using assms shelf_records [of l] by blast
  have "KubernetesDir l \<noteq> []" using lay(2) by (simp add: pki_layout_def)
  then show "keeps (on_fs (same_on Z v0)) (preflight_Run c (init_checks h l b))"
    by (rule keeps_preflight [OF init_checks_subset lay(1) _ reads(2) assms])
  show "keeps (on_fs (same_on Z v0)) (EnsureAdminClusterRoleBinding (h_phases h) (KubernetesDir l) cfg)"
    by (rule leaves_keeps [OF binding lay(1) Z])
  show "host_quiet h (same_on Z v0)" "keeps (on_fs (same_on Z v0)) (LoadAdmin (h_cluster h) (AdminKubeconfig l))"
    "keeps (on_fs (same_on Z v0)) (Ensure (h_phases h) cfg l)" "keeps (on_fs (same_on Z v0)) (certs_Init (h_pki h) cfg l)"
    "keeps (on_fs (same_on Z v0)) (WriteSuperAdminKubeconfig (h_pki h) cfg l)"
    by (rule quiet_records [OF Z] keeps_LoadAdmin [OF Z] keeps_ensure [OF Z] keeps_issue [OF Z])+
qed

text \<open>The records stay until the cluster is up, and an error comes only while they do.\<close>

lemma fwp_init_first:
  assumes up and v: "same_on (shelf l \<union> {LastBootFile l}) fs v"
  shows "fwp (seq (init_writeFirstBootState h l self b) (seq (logf m1) (logf m2)))
    (\<lambda>_ _. up) (\<lambda>_. same_on (shelf l \<union> {LastBootFile l}) fs) (\<lambda>v. up \<or> same_on (shelf l \<union> {LastBootFile l}) fs v) v"
proof -
  let ?Z = "shelf l \<union> {LastBootFile l}"
  have logs: "fwp (seq (logf m1) (logf m2)) (\<lambda>_ _. up) (\<lambda>_. same_on ?Z fs) (\<lambda>v. up \<or> same_on ?Z fs v) v'" for v'
    by (intro fwp_seq fwp_logf) (use assms(1) in simp_all)
  have wrote: "fwp (seq (WriteLastBoot l lb) (ignore (WriteLastEvent l msg)))
      (\<lambda>_. fwp (seq (logf m1) (logf m2)) (\<lambda>_ _. up) (\<lambda>_. same_on ?Z fs) (\<lambda>v. up \<or> same_on ?Z fs v))
      (\<lambda>_. same_on ?Z fs) (\<lambda>v. up \<or> same_on ?Z fs v) v" for lb msg
  proof (rule fwp_seq, rule fwp_WriteLastBoot [OF lay(1)])
    fix v' :: fsys
    show "fwp (ignore (WriteLastEvent l msg)) (\<lambda>_. fwp (seq (logf m1) (logf m2)) (\<lambda>_ _. up) (\<lambda>_. same_on ?Z fs) (\<lambda>v. up \<or> same_on ?Z fs v))
        (\<lambda>_. same_on ?Z fs) (\<lambda>v. up \<or> same_on ?Z fs v) v'"
      by (rule fwp_mono [OF fwp_no_error [OF no_error_simps(3) fwp_True]]) (use assms(1) logs in simp_all)
  next
    fix v' :: fsys
    assume v': "look v' (LastBootFile l) = look v (LastBootFile l)" "same_on (live_area l \<union> below (BackupsDir l)) v v'"
    have "same_on (shelf l) v v'" by (rule same_on_mono [OF v'(2)]) (auto simp: shelf_def)
    with v'(1) have "same_on ?Z v v'" by (simp add: same_on_def)
    with v show "same_on ?Z fs v'" by (rule same_on_trans)
  qed (use assms(1) in simp)
  have ids: "fwp (if b then wrapf s (BootedDeploymentID (h_rpm h)) else ret []) (\<lambda>_ v'. v' = v) (\<lambda>_ v'. v' = v) (\<lambda>v'. v' = v) v"
    and boot: "fwp backup_BootID (\<lambda>_ v'. v' = v) (\<lambda>_ v'. v' = v) (\<lambda>v'. v' = v) v" for s
    unfolding backup_BootID_def
    by (rule fwp_keeps, intro keeps_rules keeps_BootedDeploymentID reads, rule refl)+
  show ?thesis
    by (rule fwp_seq, unfold init_writeFirstBootState_def, rule fwp_bind, rule fwp_mono [OF boot], simp_all only:,
        rule fwp_bind, rule fwp_mono [OF ids], simp_all only:, rule wrote)
      (use v in simp_all)
qed


lemma fwp_init_finish_records:
  fixes c cfg
  assumes clock: "clock_ok (h_cluster h)" and up: "(\<exists>client now. control_plane_up (h_cluster h) (WithTimeout c (seconds 180) now) client (NodeName cfg)) \<Longrightarrow> up"
    and v: "same_on (shelf l \<union> {LastBootFile l}) fs v"
  shows "fwp (init_finish h c cfg l self b client) (\<lambda>_ _. up) (\<lambda>_. same_on (shelf l \<union> {LastBootFile l}) fs)
    (\<lambda>v. up \<or> same_on (shelf l \<union> {LastBootFile l}) fs v) v"
proof -
  let ?Z = "shelf l \<union> {LastBootFile l}"
  have Z: "?Z \<subseteq> records l" using shelf_records by blast
  note quiet = quiet_records [OF Z]
  have files: "files_quiet (h_pki h) l (same_on ?Z v0)" for v0
    unfolding files_quiet_def by (intro conjI allI leaves_keeps [OF _ lay(1) Z] files)
  have wait: "fwp (init_waitControlPlane h c client (NodeName cfg)) (\<lambda>_ v. same_on ?Z fs v \<and> up) (\<lambda>_ v. same_on ?Z fs v \<and> True)
      (\<lambda>v. same_on ?Z fs v \<and> True) v"
  proof (rule fwp_with_invariant [OF keeps_init_waitControlPlane [OF quiet] v])
    show "fwp (init_waitControlPlane h c client (NodeName cfg)) (\<lambda>_ _. up) (\<lambda>_ _. True) (\<lambda>_. True) v"
      unfolding fwp_def by (intro allI impI wp_const_mono [OF wp_init_waitControlPlane [OF clock]] up)
  qed
  have step: "fwp (seq m k) (\<lambda>_ _. up) (\<lambda>_. same_on ?Z fs) (\<lambda>v. up \<or> same_on ?Z fs v) v'"
    if "same_on ?Z fs v'" "\<And>v0. keeps (on_fs (same_on ?Z v0)) m"
      "\<And>v'. same_on ?Z fs v' \<Longrightarrow> fwp k (\<lambda>_ _. up) (\<lambda>_. same_on ?Z fs) (\<lambda>v. up \<or> same_on ?Z fs v) v'"
    for m k :: "('e, unit) io" and v'
    by (rule fwp_seq, rule fwp_mono [OF fwp_keeps [OF that(2) that(1)]]) (use that(3) in auto)
  show ?thesis
    unfolding init_finish_def EnsureAddons_def Let_def
  proof (rule fwp_seq, rule fwp_mono [OF wait], goal_cases)
    case (1 x v1)
    then have v1: "same_on ?Z fs v1" and up by simp_all
    show ?case
      by (intro step [OF v1] step fwp_init_first [OF \<open>up\<close>] keeps_logf keeps_wrapf keeps_seq keeps_init_finalize keeps_Finalize files quiet)
        (use quiet in \<open>auto simp: host_quiet_def\<close>)
  qed auto
qed

lemma fwp_init_Run:
  assumes clock: "clock_ok (h_cluster h)"
  shows "fwp (init_Run h c cfg l self) (\<lambda>_ _. cluster_up (h_cluster h) c (NodeName cfg))
    (\<lambda>_. same_on (shelf l \<union> {LastBootFile l}) fs)
    (\<lambda>v. cluster_up (h_cluster h) c (NodeName cfg) \<or> same_on (shelf l \<union> {LastBootFile l}) fs v) fs"
proof -
  let ?Z = "shelf l \<union> {LastBootFile l}" and ?up = "cluster_up (h_cluster h) c (NodeName cfg)"
  let ?api = "\<exists>client now. apiserver_up (h_cluster h) (WithTimeout c (seconds 180) now) client"
  have provision: "fwp (init_provision h c cfg l b) (\<lambda>_ v. same_on ?Z fs v \<and> ?api) (\<lambda>_ v. same_on ?Z fs v \<and> True)
      (\<lambda>v. same_on ?Z fs v \<and> True) fs" for b
  proof (rule fwp_with_invariant [OF keeps_provision [OF order_refl] same_on_refl])
    have "wp (init_provision h c cfg l b) (\<lambda>_ _. ?api) (\<lambda>_ _. True) (\<lambda>_. True) w" for w
      unfolding init_provision_def
      by (rule wp_after_seq, rule wp_after_seq, rule wp_after_seq, rule wp_after_seq, rule wp_after_seq, rule wp_after_seq,
          rule wp_after_seq, rule wp_seq_const, rule wp_init_waitReadyz [OF clock])
    then show "fwp (init_provision h c cfg l b) (\<lambda>_ _. ?api) (\<lambda>_ _. True) (\<lambda>_. True) fs" by (simp add: fwp_def)
  qed
  have "?Z \<inter> below (KubernetesDir l) = {}"
    using records_outside(1) [OF lay(1), of ?Z "KubernetesDir l"] shelf_records [of l] by blast
  then have gone: "keeps (on_fs (same_on ?Z fs)) (removeSuperAdminKubeconfig l)"
    unfolding removeSuperAdminKubeconfig_def using super by (intro keeps_rules) auto
  show ?thesis
    unfolding init_Run_def
  proof (rule fwp_bind, rule fwp_wrapf, rule fwp_IsOSTree, goal_cases)
    case 3
    show ?case
    proof (rule fwp_bind, rule fwp_mono [OF provision], goal_cases)
      case (1 client v)
      then have v: "same_on ?Z fs v" and api: ?api by simp_all
      then have rest: "fwp (init_finish h c cfg l self b client) (\<lambda>_ _. ?up) (\<lambda>_. same_on ?Z fs) (\<lambda>v. ?up \<or> same_on ?Z fs v) v'"
        if "same_on ?Z fs v'" for b v'
        using fwp_init_finish_records [OF clock _ that, of c cfg ?up self b client] by (simp add: cluster_up_def)
      show ?case
        by (rule fwp_seq, rule fwp_logf, rule fwp_seq, rule fwp_mono [OF fwp_keeps [OF gone v]], rule fwp_seq, rule fwp_logf, erule rest)
          simp_all
    qed auto
  qed auto
qed

end

section \<open>The contracts can be met\<close>

text \<open>A machine whose API server never answers.\<close>

definition down_box :: "(unit, unit, unit) cli_ext" where
  "down_box = box\<lparr>cli_host := host_ref\<lparr>h_cluster := cluster_ref\<lparr>Readyz := \<lambda>client c. throw (Msg ''connection refused'')\<rparr>\<rparr>\<rparr>"

lemma down_box: "cli_host down_box = host_ref\<lparr>h_cluster := cluster_ref\<lparr>Readyz := \<lambda>client c. throw (Msg ''connection refused'')\<rparr>\<rparr>"
  by (simp add: down_box_def)

interpretation downboot: boot_host "cli_host down_box" ref_complete ref_minted ref_conf Default
  using bootref.boot_host_axioms
  by (simp add: boot_host_def boot_host_axioms_def host_quiet_def down_box keeps_throw)

interpretation downtree: tree_cli down_box ref_complete ref_minted ref_conf
  using boxtree.tree_cli_axioms
  by (simp add: tree_cli_def tree_cli_axioms_def host_quiet_def down_box_def box_def one_node_def keeps_throw)
    (simp add: cluster_ref_def keeps_answer_from)

interpretation initref: init_host "host_ref :: (unit, unit, unit) host" ref_complete ref_minted ref_conf Default
  by (intro init_host.intro init_host_axioms.intro bootref.boot_host_axioms)
    (simp_all add: phases_ref_def leaves_read keeps_ret)

lemma down_clock: "clock_ok (h_cluster (cli_host down_box))"
  by (simp add: down_box clock_ok_def cluster_ref_def forward_throw)

lemma down_not_up: "\<not> cluster_up (h_cluster (cli_host down_box)) c n"
  by (simp add: down_box cluster_up_def apiserver_up_def throw_def)

section \<open>Properties\<close>

text \<open>C3: a failed upgrade loses nothing. Through any number of boots none of which sees the cluster up, each under its
  own configuration and version and cut off wherever the power was lost, with anything in between that leaves the backups
  alone, every state that was saved before is still saved, under its name and with its record.\<close>

theorem failed_boots_lose_nothing:
  assumes "tree_cli p complete minted conf" and "boot_host (cli_host p) complete minted conf l"
    and "clock_ok (h_cluster (cli_host p))" and "wf_fs fs" and "failed_boots p l fs v"
  shows "wf_fs v \<and> (\<forall>n x. saved (vault_of l fs) n = Some x \<longrightarrow> saved (vault_of l v) n = Some x)"
  using assms by (rule failed_boots_keep)

text \<open>A node with backups and certificate authorities, before an upgrade from \<open>v1\<close> to \<open>v2\<close>.\<close>

definition upgrade_fs :: fsys where
  "upgrade_fs = map (\<lambda>p. (p, Dir 0x1ED, 1)) [[], [''proc''], [''proc'', ''sys''], [''proc'', ''sys'', ''kernel''],
       [''proc'', ''sys'', ''kernel'', ''random''], [''etc''], [''etc'', ''kubernetes''], PKIDir Default, EtcdPKIDir Default,
       [''var''], [''var'', ''lib''], PicoKubeVarDir Default, StateDir Default, BackupsDir Default, BackupsDir Default @ [''d.1_b1'']] @
     (abs_path ''/proc/sys/kernel/random/boot_id'', File 0x124 ''b7'', 1) # (LastBootFile Default, File 0x180 (Marshal sample_meta), 1) #
     (BackupsDir Default @ [''d.1_b1'', metaFileName], File 0x180 (Marshal sample_meta), 1) #
     map (\<lambda>ca. (caCertPath Default ca, File 0x1A4 ''c'', 1)) AllCAs"

lemma upgrade_fs_ok: "wf_fs upgrade_fs" "names_ok upgrade_fs" "named Default upgrade_fs"
  by code_simp+

text \<open>Its boot without an API server, out of power just after it has announced the upgrade, and greenboot's marker after it.\<close>

definition failed_fs :: fsys where
  "failed_fs = w_fs (snd (boot_Run (cli_host down_box) Background sample_cfg Default ''v2'' (world_at (crash_orc 20) upgrade_fs)))"

definition asked_fs :: fsys where
  "asked_fs = put (RestoreMarker Default) (File 0x1A4 []) 200 failed_fs"

lemma failed_once: "failed_boots down_box Default upgrade_fs failed_fs"
  unfolding failed_fs_def
  using failed_boots.boot [of down_box Default upgrade_fs "world_at (crash_orc 20) upgrade_fs" Background sample_cfg "''v2''"]
  by (simp add: failed_boots.none upgrade_fs_ok down_not_up)

lemma asked: "let v = asked_fs in list_all wf_fs [v] \<and> names_ok v \<and> matching Default v ''d.1'' = [''d.1_b1''] \<and> newest_of Default v [''d.1_b1''] = ''d.1_b1'' \<and> look v (RestoreMarker Default) \<noteq> None"
  "''d.1_b1'' \<in> set (listed Default upgrade_fs)"
  by code_simp+

theorem failed_boots_lose_nothing_witness:
  "wf_fs failed_fs \<and> saved (vault_of Default failed_fs) ''d.1_b1'' = saved (vault_of Default upgrade_fs) ''d.1_b1''"
proof -
  have "''d.1_b1'' \<in> set (listed Default upgrade_fs)" using asked(2) by simp
  then obtain x where "saved (vault_of Default upgrade_fs) ''d.1_b1'' = Some x" by (simp add: vault_of_def)
  then show ?thesis
    using failed_boots_lose_nothing [OF downtree.tree_cli_axioms downboot.boot_host_axioms down_clock upgrade_fs_ok(1) failed_once]
    by metis
qed

text \<open>C2: the rollback after a failed upgrade. After any such series of boots a restore that greenboot has asked for
  brings back, when it returns normally, exactly the live state that was saved before the upgrade under the name of the
  newest backup of the booted deployment, together with the record of that backup. However it ends, no saved state is
  lost.\<close>

theorem rollback_after_failures:
  assumes "tree_cli p complete minted conf" and "boot_host (cli_host p) complete minted conf l"
    and "clock_ok (h_cluster (cli_host p))" and "wf_fs fs" and "failed_boots p l fs v" and "names_ok v"
    and "d \<noteq> []" and "matching l v d \<noteq> []" and "set (matching l v d) \<subseteq> set (listed l fs)" and "look v (RestoreMarker l) \<noteq> None"
  shows "fwp (maybeRestore (h_cp (cli_host p)) l d)
    (\<lambda>_ u. \<exists>s meta. saved (vault_of l fs) (newest_of l v (matching l v d)) = Some (s, Some meta) \<and> now (vault_of l u) = s \<and>
       look u (LastBootFile l) = Some (File 0x180 (Marshal meta)))
    (\<lambda>_ u. \<forall>n x. saved (vault_of l fs) n = Some x \<longrightarrow> saved (vault_of l u) n = Some x)
    (\<lambda>u. \<forall>n x. saved (vault_of l fs) n = Some x \<longrightarrow> saved (vault_of l u) n = Some x) v"
  using assms by (rule restore_after_failures)

theorem rollback_after_failures_witness:
  "fwp (maybeRestore (h_cp (cli_host down_box)) Default ''d.1'')
    (\<lambda>_ u. \<exists>s meta. saved (vault_of Default upgrade_fs) ''d.1_b1'' = Some (s, Some meta) \<and> now (vault_of Default u) = s \<and>
       look u (LastBootFile Default) = Some (File 0x180 (Marshal meta))) (\<lambda>_ _. True) (\<lambda>_. True) asked_fs"
proof -
  note ask = asked(1) [unfolded Let_def]
  have "same_on (shelf Default) failed_fs asked_fs" by (auto simp: same_on_def asked_fs_def shelf_def)
  from failed_boots.between [OF failed_once this] have v: "failed_boots down_box Default upgrade_fs asked_fs" using ask by simp
  have "set (matching Default asked_fs ''d.1'') \<subseteq> set (listed Default upgrade_fs)" using ask asked(2) by simp
  from rollback_after_failures [OF downtree.tree_cli_axioms downboot.boot_host_axioms down_clock upgrade_fs_ok(1) v _ _ _ this]
  have "fwp (maybeRestore (h_cp (cli_host down_box)) Default ''d.1'')
    (\<lambda>_ u. \<exists>s meta. saved (vault_of Default upgrade_fs) (newest_of Default asked_fs (matching Default asked_fs ''d.1'')) = Some (s, Some meta) \<and>
       now (vault_of Default u) = s \<and> look u (LastBootFile Default) = Some (File 0x180 (Marshal meta)))
    (\<lambda>_ u. \<forall>n x. saved (vault_of Default upgrade_fs) n = Some x \<longrightarrow> saved (vault_of Default u) n = Some x)
    (\<lambda>u. \<forall>n x. saved (vault_of Default upgrade_fs) n = Some x \<longrightarrow> saved (vault_of Default u) n = Some x) asked_fs"
    using ask by simp
  then show ?thesis by (rule fwp_mono) (use ask in simp_all)
qed

text \<open>C19: a failed init does not pass for a boot. Until the cluster has been seen up, \<open>init\<close> leaves no record of a
  healthy boot, whatever stops it: on an error, whenever it comes, and on a power loss before that moment, the record of the
  previous boot and the backups are as they were.\<close>

theorem init_records_last:
  assumes "init_host h complete minted conf l" and "clock_ok (h_cluster h)"
  shows "fwp (init_Run h c cfg l self) (\<lambda>_ _. cluster_up (h_cluster h) c (NodeName cfg))
    (\<lambda>_. same_on (shelf l \<union> {LastBootFile l}) fs)
    (\<lambda>v. cluster_up (h_cluster h) c (NodeName cfg) \<or> same_on (shelf l \<union> {LastBootFile l}) fs v) fs"
  using assms by (rule init_host.fwp_init_Run)

theorem init_records_last_witness:
  "fwp (init_Run (host_ref :: (unit, unit, unit) host) Background sample_cfg Default ''v1'')
    (\<lambda>_ _. cluster_up (cluster_ref :: (unit, unit) cluster) Background (NodeName sample_cfg))
    (\<lambda>_. same_on (shelf Default \<union> {LastBootFile Default}) bare_fs)
    (\<lambda>v. cluster_up (cluster_ref :: (unit, unit) cluster) Background (NodeName sample_cfg) \<or>
      same_on (shelf Default \<union> {LastBootFile Default}) bare_fs v) bare_fs"
  using init_records_last [OF initref.init_host_axioms, of Background sample_cfg "''v1''" bare_fs] by (simp add: clock_ok_ref)

text \<open>An ostree machine with a configuration and nothing else, on a disk with 4096 bytes to spare.\<close>

definition fresh_fs :: fsys where
  "fresh_fs = config_fs @ [([''run''], Dir 0x1ED, 0), (OSTreeBootedMarker, File 0x1A4 [], 0)]"

definition full_box :: "(unit, unit, unit) cli_ext" where
  "full_box = box\<lparr>cli_host := host_ref\<lparr>h_statfs := (\<lambda>p. ret (1, 4096))\<rparr>\<rparr>"

text \<open>Its steps: the state is looked for, the configuration read, the system told apart, and the checks run.\<close>

lemma init_cmd_preflight:
  assumes "state_Exists (opt_layout g) w = (Ok False, w1)" and "config_Load (cli_loader p) (configPath g) (opt_layout g) w1 = (Ok cfg, w2)"
    and "IsOSTree w2 = (Ok b, w3)" and "preflight_Run c (init_checks (cli_host p) (opt_layout g) b) w3 = (Err e, w4)"
  shows "init_cmd p g c w = (Err (Wrapf ''preflight'' e), w4)"
  by (simp add: init_cmd_def init_Run_def init_provision_def bind_def seq_def wrapf_def on_err_def throw_def assms)

lemma space_too_small:
  assumes "os_MkdirAll (BackupsDir l) 0x1ED w = (Ok (), w1)" and "o_sig (w_orc w) = None"
  shows "SpacePreflight (\<lambda>p. ret (1, 4096)) big (space_for l) Background w =
    (Err (Msg (path_text (BackupsDir l) @ '': free '' @ itoa 4096 @ '' bytes below minimum '' @ itoa 2147483648)), w1)"
  by (simp add: SpacePreflight_def Let_def space_for_def seq_def bind_def wrapf_def on_err_def check_ctx_def ctx_Err_def Background_def
      signalled_def assms ret_def throw_def DefaultMinFreeBytes_def)

definition stated :: "unit world" where
  "stated = snd (state_Exists Default (world_at calm_orc fresh_fs))"

definition loaded :: "unit world" where
  "loaded = snd (config_Load loader_ref (ConfigFile Default) Default stated)"

definition detected :: "unit world" where
  "detected = snd (IsOSTree loaded)"

definition probed :: "unit world" where
  "probed = snd (FSWritable [PicoKubeVarDir Default, KubernetesDir Default] Background detected)"

definition measured :: "unit world" where
  "measured = snd (os_MkdirAll (BackupsDir Default) 0x1ED probed)"

lemma fresh_reads:
  "fst (state_Exists Default (world_at calm_orc fresh_fs)) = Ok False"
  "case fst (config_Load loader_ref (ConfigFile Default) Default stated) of Ok _ \<Rightarrow> True | _ \<Rightarrow> False"
  "fst (IsOSTree loaded) = Ok True"
  "fst (FSWritable [PicoKubeVarDir Default, KubernetesDir Default] Background detected) = Ok ()"
  "fst (os_MkdirAll (BackupsDir Default) 0x1ED probed) = Ok ()"
  "fst (state_Exists Default (world_at calm_orc (w_fs measured))) = Ok True"
  by code_simp+

lemma no_signal: "o_sig (w_orc detected) = None" "o_sig (w_orc probed) = None"
  by code_simp+

text \<open>C28: an init that fails its preflight cannot be repeated. The check that the directories can be written creates
  them, so when the check of the free space then fails, the directory of picokube is there and nothing else; with space
  made, the next \<open>init\<close> is refused because of it.\<close>

theorem failed_preflight_blocks_init:
  "fst (init_cmd full_box (newRootCmd None) Background (world_at calm_orc fresh_fs)) =
     Err (Wrapf ''preflight'' (Msg ''/var/lib/picokube/backups: free 4096 bytes below minimum 2147483648'')) \<and>
   fst (init_cmd box (newRootCmd None) Background (world_at calm_orc
     (w_fs (snd (init_cmd full_box (newRootCmd None) Background (world_at calm_orc fresh_fs)))))) =
     Err (Msg ''picokube state already exists; run `picokube reset --yes` first to re-initialise'')"
proof -
  have said: "path_text (BackupsDir Default) @ '': free '' @ itoa 4096 @ '' bytes below minimum '' @ itoa 2147483648 =
    ''/var/lib/picokube/backups: free 4096 bytes below minimum 2147483648''"
  proof -
    have "itoa 2147483648 = ''2147483648''" by (simp add: itoa.simps) code_simp
    moreover have "itoa 4096 = ''4096''" "path_text (BackupsDir Default) = ''/var/lib/picokube/backups''" by code_simp+
    ultimately show ?thesis by simp
  qed
  have root: "opt_layout (newRootCmd None) = Default" "configPath (newRootCmd None) = ConfigFile Default"
    "cli_loader full_box = loader_ref" by (simp_all add: newRootCmd_def Let_def full_box_def box_def)
  obtain cfg where load: "config_Load loader_ref (ConfigFile Default) Default stated = (Ok cfg, loaded)"
    using fresh_reads(2) by (cases "config_Load loader_ref (ConfigFile Default) Default stated") (auto simp: loaded_def split: outcome.splits)
  have "SpacePreflight (\<lambda>p. ret (1, 4096)) big (space_for Default) Background probed =
      (Err (Msg ''/var/lib/picokube/backups: free 4096 bytes below minimum 2147483648''), measured)" for big
    using space_too_small [OF _ no_signal(2)] fresh_reads(5) unfolding said [symmetric] measured_def by (metis prod.collapse)
  moreover have "FSWritable [PicoKubeVarDir Default, KubernetesDir Default] Background detected = (Ok (), probed)"
    using fresh_reads(4) by (simp add: probed_def prod_eq_iff)
  moreover have deadline: "ctx_deadline Background = None" by (simp add: Background_def)
  ultimately have "preflight_Run Background (init_checks (cli_host full_box) Default True) detected =
      (Err (Msg ''/var/lib/picokube/backups: free 4096 bytes below minimum 2147483648''), measured)"
    unfolding preflight_Run_def init_checks_def full_box_def
    by (simp add: seq_def bind_def check_ctx_def ctx_Err_def signalled_def no_signal deadline host_ref_def)
  from init_cmd_preflight [of "newRootCmd None" _ _ full_box, unfolded root, OF _ load _ this] fresh_reads(1,3)
  have "init_cmd full_box (newRootCmd None) Background (world_at calm_orc fresh_fs) =
      (Err (Wrapf ''preflight'' (Msg ''/var/lib/picokube/backups: free 4096 bytes below minimum 2147483648'')), measured)"
    by (simp add: stated_def detected_def prod_eq_iff)
  moreover obtain v where "state_Exists Default (world_at calm_orc (w_fs measured)) = (Ok True, v)"
    using fresh_reads(6) by (metis prod.collapse)
  then have "fst (init_cmd box (newRootCmd None) Background (world_at calm_orc (w_fs measured))) =
      Err (Msg ''picokube state already exists; run `picokube reset --yes` first to re-initialise'')"
    by (simp add: init_cmd_def root bind_def throw_def)
  ultimately show ?thesis by simp
qed

end
